(* ===== verification/Prelude.thy ===== *)
theory Prelude
  imports Complex_Main "HOL-Library.Word" "HOL-Library.Multiset"
begin

text \<open>
  Shared vocabulary of the development: C scalar types (time stamps, doubles), the C library's
  \<open>qsort\<close>, byte order, and the generic lemmas and hint collections the component theories use.
\<close>

named_theorems wp_simps "weakest-precondition equations of the operations"
named_theorems frame_simps "fields an operation leaves alone"

unbundle bit_operations_syntax

type_synonym byte = "8 word"
type_synonym u16 = "16 word"
type_synonym u32 = "32 word"
type_synonym u64 = "64 word"

section \<open>Time stamps\<close>

text \<open>
  \<open>struct timespec\<close> as a datatype (not a record), so that it can be made an instance of
  \<open>linorder\<close>: the order is the one \<open>compare_samples\<close> uses, seconds first.
\<close>

datatype timespec = Timespec (tv_sec: int) (tv_nsec: int)

instantiation timespec :: linorder
begin

definition less_eq_timespec :: "timespec \<Rightarrow> timespec \<Rightarrow> bool" where
  "less_eq_timespec a b \<longleftrightarrow> tv_sec a < tv_sec b \<or> tv_sec a = tv_sec b \<and> tv_nsec a \<le> tv_nsec b"

definition less_timespec :: "timespec \<Rightarrow> timespec \<Rightarrow> bool" where
  "less_timespec a b \<longleftrightarrow> tv_sec a < tv_sec b \<or> tv_sec a = tv_sec b \<and> tv_nsec a < tv_nsec b"

instance
  by standard
    (auto simp: less_eq_timespec_def less_timespec_def intro: timespec.expand)

end

section \<open>Doubles\<close>

text \<open>
  C doubles with the special values the code computes with (the statistics return \<open>INFINITY\<close> and
  \<open>NAN\<close>). Finite values are exact reals: rounding and overflow of IEEE arithmetic are not
  modelled, and zero has no sign.
\<close>

datatype double = Fin real | PInf | MInf | NaN

fun dlt :: "double \<Rightarrow> double \<Rightarrow> bool" where
  "dlt (Fin a) (Fin b) = (a < b)"
| "dlt (Fin a) PInf = True"
| "dlt MInf (Fin b) = True"
| "dlt MInf PInf = True"
| "dlt _ _ = False"

fun dadd :: "double \<Rightarrow> double \<Rightarrow> double" where
  "dadd NaN _ = NaN"
| "dadd _ NaN = NaN"
| "dadd (Fin a) (Fin b) = Fin (a + b)"
| "dadd PInf MInf = NaN"
| "dadd MInf PInf = NaN"
| "dadd PInf _ = PInf"
| "dadd _ PInf = PInf"
| "dadd MInf _ = MInf"
| "dadd _ MInf = MInf"

fun dneg :: "double \<Rightarrow> double" where
  "dneg NaN = NaN"
| "dneg (Fin a) = Fin (- a)"
| "dneg PInf = MInf"
| "dneg MInf = PInf"

definition dsub :: "double \<Rightarrow> double \<Rightarrow> double" where
  "dsub a b = dadd a (dneg b)"

fun dsgn :: "double \<Rightarrow> real" where
  "dsgn (Fin a) = sgn a"
| "dsgn PInf = 1"
| "dsgn MInf = -1"
| "dsgn NaN = 0"

definition dinf :: "real \<Rightarrow> double" where
  "dinf s = (if s = 0 then NaN else if 0 < s then PInf else MInf)"

fun dmul :: "double \<Rightarrow> double \<Rightarrow> double" where
  "dmul NaN _ = NaN"
| "dmul _ NaN = NaN"
| "dmul (Fin a) (Fin b) = Fin (a * b)"
| "dmul a b = dinf (dsgn a * dsgn b)"

fun ddiv :: "double \<Rightarrow> double \<Rightarrow> double" where
  "ddiv NaN _ = NaN"
| "ddiv _ NaN = NaN"
| "ddiv (Fin a) (Fin b) = (if b = 0 then dinf (sgn a) else Fin (a / b))"
| "ddiv (Fin a) _ = Fin 0"
| "ddiv a (Fin b) = dinf (dsgn a * (if b < 0 then -1 else 1))"
| "ddiv _ _ = NaN"

fun dsqrt :: "double \<Rightarrow> double" where
  "dsqrt (Fin a) = (if a < 0 then NaN else Fin (sqrt a))"
| "dsqrt PInf = PInf"
| "dsqrt _ = NaN"

definition deq :: "double \<Rightarrow> double \<Rightarrow> bool" where
  "deq a b \<longleftrightarrow> a \<noteq> NaN \<and> b \<noteq> NaN \<and> a = b"

lemma dsub_Fin [simp]: "dsub (Fin a) (Fin b) = Fin (a - b)"
  by (simp add: dsub_def)

lemma dlt_irrefl [simp]: "\<not> dlt a a"
  by (cases a) auto

lemma dlt_trans: "dlt a b \<Longrightarrow> dlt b c \<Longrightarrow> dlt a c"
  by (cases a; cases b; cases c) auto

lemma dlt_total: "a \<noteq> NaN \<Longrightarrow> b \<noteq> NaN \<Longrightarrow> dlt a b \<or> a = b \<or> dlt b a"
  by (cases a; cases b) auto

lemma dlt_NaN [simp]: "\<not> dlt NaN a" "\<not> dlt a NaN"
  by (cases a; simp)+

section \<open>The C library's qsort\<close>

text \<open>
  \<open>qsort\<close> sorts an array with a three-way comparison function. C leaves the order of elements
  that compare equal open; the executable model is a stable insertion sort, and the locale
  \<open>comparison\<close> states what a comparison function has to promise. Clients rest on the two
  consequences the C standard gives (a permutation, sorted for the comparison), never on stability.
\<close>

fun insert_cmp :: "('a \<Rightarrow> 'a \<Rightarrow> int) \<Rightarrow> 'a \<Rightarrow> 'a list \<Rightarrow> 'a list" where
  "insert_cmp cmp x [] = [x]"
| "insert_cmp cmp x (y # ys) = (if cmp x y \<le> 0 then x # y # ys else y # insert_cmp cmp x ys)"

definition qsort :: "('a \<Rightarrow> 'a \<Rightarrow> int) \<Rightarrow> 'a list \<Rightarrow> 'a list" where
  "qsort cmp xs = foldr (insert_cmp cmp) xs []"

lemma mset_insert_cmp [simp]: "mset (insert_cmp cmp x xs) = add_mset x (mset xs)"
  by (induction xs) auto

lemma mset_qsort [simp]: "mset (qsort cmp xs) = mset xs"
  unfolding qsort_def by (induction xs) auto

lemma set_qsort [simp]: "set (qsort cmp xs) = set xs"
  by (metis mset_qsort set_mset_mset)

lemma length_qsort [simp]: "length (qsort cmp xs) = length xs"
  by (metis mset_qsort size_mset)

locale comparison =
  fixes cmp :: "'a \<Rightarrow> 'a \<Rightarrow> int" and ok :: "'a \<Rightarrow> bool"
  assumes cmp_total: "ok x \<Longrightarrow> ok y \<Longrightarrow> cmp x y \<le> 0 \<or> cmp y x \<le> 0"
    and cmp_trans: "ok x \<Longrightarrow> ok y \<Longrightarrow> ok z \<Longrightarrow> cmp x y \<le> 0 \<Longrightarrow> cmp y z \<le> 0 \<Longrightarrow> cmp x z \<le> 0"
begin

abbreviation le_cmp :: "'a \<Rightarrow> 'a \<Rightarrow> bool" where
  "le_cmp x y \<equiv> cmp x y \<le> 0"

lemma sorted_insert_cmp:
  "ok x \<Longrightarrow> (\<forall>y\<in>set xs. ok y) \<Longrightarrow> sorted_wrt le_cmp xs \<Longrightarrow> sorted_wrt le_cmp (insert_cmp cmp x xs)"
proof (induction xs)
  case Nil
  then show ?case by simp
next
  case (Cons y ys)
  have set_ins: "set (insert_cmp cmp x ys) = insert x (set ys)"
    by (metis mset_insert_cmp set_mset_add_mset_insert set_mset_mset)
  show ?case
  proof (cases "cmp x y \<le> 0")
    case True
    with Cons.prems show ?thesis
      by (auto intro: cmp_trans [of x y])
  next
    case False
    with Cons.prems cmp_total [of x y] have "cmp y x \<le> 0" by auto
    with False Cons show ?thesis by (auto simp: set_ins)
  qed
qed

lemma sorted_qsort: "(\<forall>x\<in>set xs. ok x) \<Longrightarrow> sorted_wrt le_cmp (qsort cmp xs)"
proof (induction xs)
  case Nil
  then show ?case by (simp add: qsort_def)
next
  case (Cons x xs)
  then have "sorted_wrt le_cmp (qsort cmp xs)" by simp
  with Cons.prems have "sorted_wrt le_cmp (insert_cmp cmp x (qsort cmp xs))"
    by (intro sorted_insert_cmp) auto
  then show ?case by (simp add: qsort_def)
qed

lemma qsort_first_least:
  "(\<forall>x\<in>set xs. ok x) \<Longrightarrow> i < length xs \<Longrightarrow> j < length xs \<Longrightarrow> i < j \<Longrightarrow>
   le_cmp (qsort cmp xs ! i) (qsort cmp xs ! j)"
  using sorted_qsort [of xs] by (auto simp: sorted_wrt_iff_nth_less)

end

section \<open>Integer division\<close>

text \<open>C's \<open>/\<close> and \<open>%\<close> round towards zero.\<close>

definition c_div :: "int \<Rightarrow> int \<Rightarrow> int" where
  "c_div a b = sgn a * sgn b * (\<bar>a\<bar> div \<bar>b\<bar>)"

definition c_mod :: "int \<Rightarrow> int \<Rightarrow> int" where
  "c_mod a b = a - b * c_div a b"

lemma c_div_16: "0 \<le> c \<Longrightarrow> c_div c 16 = c div 16"
  by (cases "c = 0") (auto simp: c_div_def)

lemma c_mod_16: "0 \<le> c \<Longrightarrow> c_mod c 16 = c mod 16"
  by (simp add: c_mod_def c_div_16 minus_mult_div_eq_mod)

lemma c_mod_small [simp]: "0 \<le> a \<Longrightarrow> a < b \<Longrightarrow> c_mod a b = a"
  by (cases "a = 0") (auto simp: c_mod_def c_div_def)

lemma c_mod_1 [simp]: "c_mod a 1 = 0"
  by (cases "a < 0") (auto simp: c_mod_def c_div_def sgn_if)

section \<open>Byte order\<close>

text \<open>
  \<open>htonl\<close> and \<open>ntohl\<close> on a little-endian host swap the four bytes of a word; the bytes
  \<open>read\<close> and \<open>write\<close> see are the object representation, least significant byte first.
\<close>

definition bswap32 :: "u32 \<Rightarrow> u32" where
  "bswap32 x = push_bit 24 (take_bit 8 x) OR push_bit 16 (take_bit 8 (drop_bit 8 x))
     OR push_bit 8 (take_bit 8 (drop_bit 16 x)) OR take_bit 8 (drop_bit 24 x)"

definition htonl :: "u32 \<Rightarrow> u32" where "htonl = bswap32"
definition ntohl :: "u32 \<Rightarrow> u32" where "ntohl = bswap32"

definition htons :: "u16 \<Rightarrow> u16" where
  "htons x = push_bit 8 x OR drop_bit 8 x"

definition bytes_of_u32 :: "u32 \<Rightarrow> byte list" where
  "bytes_of_u32 x = map (\<lambda>i. ucast (drop_bit (8 * i) x)) [0, 1, 2, 3]"

definition u32_of_bytes :: "byte list \<Rightarrow> u32" where
  "u32_of_bytes bs = fold (\<lambda>i x. x OR push_bit (8 * i) (ucast (bs ! i))) [0, 1, 2, 3] 0"

lemma bit_bswap32:
  "bit (bswap32 x) n \<longleftrightarrow> n < 32 \<and> bit x (if n < 8 then n + 24 else if n < 16 then n + 8
     else if n < 24 then n - 8 else n - 24)"
  by (auto simp: bswap32_def bit_simps add.commute dest: bit_imp_le_length)

lemma bswap32_bswap32 [simp]: "bswap32 (bswap32 x) = x"
  by (rule bit_word_eqI) (auto simp: bit_bswap32)

lemma length_bytes_of_u32 [simp]: "length (bytes_of_u32 x) = 4"
  by (simp add: bytes_of_u32_def)

lemma u32_of_bytes_of_u32 [simp]: "u32_of_bytes (bytes_of_u32 x) = x"
proof (rule bit_word_eqI)
  fix n assume "n < LENGTH(32)"
  then consider "n < 8" | "8 \<le> n \<and> n < 16" | "16 \<le> n \<and> n < 24" | "24 \<le> n \<and> n < 32"
    by fastforce
  then show "bit (u32_of_bytes (bytes_of_u32 x)) n = bit x n"
    by cases (auto simp: u32_of_bytes_def bytes_of_u32_def bit_simps)
qed

lemma htons_htons [simp]: "htons (htons x) = x"
  by (rule bit_word_eqI) (auto simp: htons_def bit_simps dest: bit_imp_le_length)

lemma ntohl_htonl [simp]: "ntohl (htonl x) = x"
  by (simp add: ntohl_def htonl_def)

end
