(* ===== verification/Numlist.thy ===== *)
theory Numlist
  imports Prelude
begin

text \<open>
  \<open>numlist.c\<close>: a growing list of doubles kept in blocks of 500, newest block first. A block's data
  array is a function of the index; the NULL head of a destroyed or moved-from list is the empty
  chain. Operations return \<open>None\<close> where the C code would follow a NULL pointer or leave an array.
  The abstraction of a list is the sequence of numbers its traversal visits.
\<close>

section \<open>Data and operations\<close>

definition MEMBLOCK_SIZE :: nat where "MEMBLOCK_SIZE = 500"

record memblock =
  mb_size :: nat
  mb_data :: "nat \<Rightarrow> double"

record numlist =
  nl_head :: "memblock list" \<comment> \<open>the chain through \<open>next\<close>, \<open>[]\<close> for NULL\<close>

definition prepend_memblock :: "numlist \<Rightarrow> numlist" where
  "prepend_memblock lst = lst\<lparr>nl_head := \<lparr>mb_size = 0, mb_data = (\<lambda>_. NaN)\<rparr> # nl_head lst\<rparr>"

definition numlist_create :: numlist where
  "numlist_create = prepend_memblock \<lparr>nl_head = []\<rparr>"

definition numlist_destroy :: "numlist \<Rightarrow> numlist" where
  "numlist_destroy lst = lst\<lparr>nl_head := []\<rparr>"

definition memblock_store :: "memblock \<Rightarrow> double \<Rightarrow> memblock option" where
  "memblock_store blk val =
     (if mb_size blk < MEMBLOCK_SIZE
      then Some (blk\<lparr>mb_data := (mb_data blk)(mb_size blk := val), mb_size := mb_size blk + 1\<rparr>)
      else None)"

definition numlist_add :: "numlist \<Rightarrow> double \<Rightarrow> numlist option" where
  "numlist_add lst val = (case nl_head lst of
       [] \<Rightarrow> None
     | blk # _ \<Rightarrow>
         (let lst = (if mb_size blk = MEMBLOCK_SIZE then prepend_memblock lst else lst)
          in case nl_head lst of
               [] \<Rightarrow> None
             | blk # rest \<Rightarrow> map_option (\<lambda>b. lst\<lparr>nl_head := b # rest\<rparr>) (memblock_store blk val)))"

fun append_chain :: "memblock list \<Rightarrow> memblock list \<Rightarrow> memblock list option" where
  "append_chain [] tail = None"
| "append_chain [blk] tail = Some (blk # tail)"
| "append_chain (blk # next_blk # rest) tail =
     map_option ((#) blk) (append_chain (next_blk # rest) tail)"

definition numlist_concat :: "numlist \<Rightarrow> numlist \<Rightarrow> (numlist \<times> numlist) option" where
  "numlist_concat lst tail =
     map_option (\<lambda>h. (lst\<lparr>nl_head := h\<rparr>, tail\<lparr>nl_head := []\<rparr>))
       (append_chain (nl_head lst) (nl_head tail))"

text \<open>The traversal macros: blocks from the head, numbers of a block by index.\<close>

definition for_each_number :: "memblock \<Rightarrow> double list" where
  "for_each_number blk = map (mb_data blk) [0..<mb_size blk]"

definition for_each :: "numlist \<Rightarrow> double list" where
  "for_each lst = concat (map for_each_number (nl_head lst))"

definition numlist_size :: "numlist \<Rightarrow> nat" where
  "numlist_size lst = fold (\<lambda>_ n. n + 1) (for_each lst) 0"

definition numlist_min :: "numlist \<Rightarrow> double" where
  "numlist_min lst = fold (\<lambda>n min. if dlt n min then n else min) (for_each lst) PInf"

definition numlist_max :: "numlist \<Rightarrow> double" where
  "numlist_max lst = fold (\<lambda>n max. if dlt max n then n else max) (for_each lst) MInf"

definition numlist_mean :: "numlist \<Rightarrow> double" where
  "numlist_mean lst =
     (case fold (\<lambda>n (sm, cnt). (dadd sm n, dadd cnt (Fin 1))) (for_each lst) (Fin 0, Fin 0) of
        (sm, cnt) \<Rightarrow> ddiv sm cnt)"

definition numlist_stddev :: "numlist \<Rightarrow> double" where
  "numlist_stddev lst =
     (let mean = numlist_mean lst
      in case fold (\<lambda>n (sm, cnt). (dadd sm (dmul (dsub n mean) (dsub n mean)), dadd cnt (Fin 1)))
           (for_each lst) (Fin 0, Fin 0) of
        (sm, cnt) \<Rightarrow> dsqrt (ddiv sm cnt))"

definition compare_doubles :: "double \<Rightarrow> double \<Rightarrow> int" where
  "compare_doubles x y = (if dlt x y then -1 else if dlt y x then 1 else 0)"

text \<open>
  The index is computed in \<open>size_t\<close>: the \<open>int\<close> percentile is converted to 64 bits and the product
  wraps. An index outside \<open>values\<close> is \<open>None\<close>.
\<close>

definition percentile_index :: "nat \<Rightarrow> int \<Rightarrow> nat" where
  "percentile_index n percentile =
     ((n - 1) * nat (percentile mod 2 ^ 64)) mod 2 ^ 64 div 100"

definition numlist_percentile :: "numlist \<Rightarrow> int \<Rightarrow> double option" where
  "numlist_percentile lst percentile =
     (let n = numlist_size lst
      in if n = 0 then Some NaN
         else let values = qsort compare_doubles (for_each lst);
                  i = percentile_index n percentile
              in if i < length values then Some (values ! i) else None)"

section \<open>Invariant\<close>

definition block_ok :: "memblock \<Rightarrow> bool" where
  "block_ok blk \<longleftrightarrow> mb_size blk \<le> MEMBLOCK_SIZE"

definition numlist_ok :: "numlist \<Rightarrow> bool" where
  "numlist_ok lst \<longleftrightarrow> nl_head lst \<noteq> [] \<and> list_all block_ok (nl_head lst)"

lemma MEMBLOCK_SIZE_pos [simp]: "0 < MEMBLOCK_SIZE"
  by (simp add: MEMBLOCK_SIZE_def)

lemma append_chain_eq: "append_chain xs ys = (if xs = [] then None else Some (xs @ ys))"
  by (induction xs ys rule: append_chain.induct) auto

lemma for_each_number_store:
  "memblock_store blk v = Some b \<Longrightarrow> for_each_number b = for_each_number blk @ [v]"
  by (auto simp: memblock_store_def for_each_number_def split: if_splits)

lemma memblock_store_ok: "memblock_store blk v = Some b \<Longrightarrow> block_ok b"
  by (auto simp: memblock_store_def block_ok_def split: if_splits)

lemma memblock_store_Some: "mb_size blk < MEMBLOCK_SIZE \<Longrightarrow> \<exists>b. memblock_store blk v = Some b"
  by (simp add: memblock_store_def)

lemma numlist_create_ok [simp]: "numlist_ok numlist_create"
  by (simp add: numlist_ok_def numlist_create_def prepend_memblock_def block_ok_def)

lemma for_each_create [simp]: "for_each numlist_create = []"
  by (simp add: for_each_def numlist_create_def prepend_memblock_def for_each_number_def)

lemma numlist_add_spec:
  assumes "numlist_ok lst"
  shows "\<exists>lst'. numlist_add lst v = Some lst' \<and> numlist_ok lst'
    \<and> mset (for_each lst') = add_mset v (mset (for_each lst))"
proof -
  from assms obtain blk rest where h: "nl_head lst = blk # rest"
    by (auto simp: numlist_ok_def neq_Nil_conv)
  from assms h have blk: "mb_size blk \<le> MEMBLOCK_SIZE" and rest: "list_all block_ok rest"
    by (auto simp: numlist_ok_def block_ok_def)
  define lst1 where "lst1 = (if mb_size blk = MEMBLOCK_SIZE then prepend_memblock lst else lst)"
  obtain blk1 rest1 where h1: "nl_head lst1 = blk1 # rest1" and room: "mb_size blk1 < MEMBLOCK_SIZE"
    and ok1: "list_all block_ok rest1" and same: "for_each lst1 = for_each lst"
    using h blk rest
    by (cases "mb_size blk = MEMBLOCK_SIZE")
      (auto simp: lst1_def prepend_memblock_def for_each_def for_each_number_def block_ok_def)
  from room obtain b where b: "memblock_store blk1 v = Some b"
    using memblock_store_Some by blast
  let ?r = "lst1\<lparr>nl_head := b # rest1\<rparr>"
  have "numlist_add lst v = Some ?r"
    using h h1 b by (simp add: numlist_add_def lst1_def Let_def)
  moreover have "numlist_ok ?r"
    using memblock_store_ok [OF b] ok1 by (simp add: numlist_ok_def)
  moreover have "mset (for_each ?r) = add_mset v (mset (for_each lst))"
    using for_each_number_store [OF b] h1 arg_cong [OF same, of mset] by (simp add: for_each_def)
  ultimately show ?thesis by blast
qed

lemma numlist_concat_spec:
  assumes "numlist_ok lst" "list_all block_ok (nl_head tail)"
  shows "\<exists>l t. numlist_concat lst tail = Some (l, t) \<and> numlist_ok l
    \<and> for_each l = for_each lst @ for_each tail \<and> for_each t = [] \<and> nl_head t = []"
  using assms
  by (auto simp: numlist_concat_def append_chain_eq numlist_ok_def for_each_def)

section \<open>The interface the samples rely on\<close>

text \<open>
  A bag of numbers: what \<open>sample.c\<close>, \<open>flow.c\<close> and \<open>tcp_rr.c\<close> use of \<open>numlist.h\<close>. The clients'
  loops (adding a series of measurements, merging the lists of all samples) are proved once.
\<close>

locale number_bag =
  fixes create :: "'l" and add :: "'l \<Rightarrow> double \<Rightarrow> 'l option"
    and join :: "'l \<Rightarrow> 'l \<Rightarrow> ('l \<times> 'l) option"
    and contents :: "'l \<Rightarrow> double list" and invar :: "'l \<Rightarrow> bool"
  assumes create_empty: "invar create" "contents create = []"
    and add_law: "invar l \<Longrightarrow> \<exists>l'. add l v = Some l' \<and> invar l'
      \<and> mset (contents l') = add_mset v (mset (contents l))"
    and join_law: "invar l \<Longrightarrow> invar t \<Longrightarrow> \<exists>l' t'. join l t = Some (l', t') \<and> invar l'
      \<and> mset (contents l') = mset (contents l) + mset (contents t)"
begin

fun add_all :: "double list \<Rightarrow> 'l \<Rightarrow> 'l option" where
  "add_all [] l = Some l"
| "add_all (v # vs) l = Option.bind (add l v) (add_all vs)"

fun join_all :: "'l \<Rightarrow> 'l list \<Rightarrow> 'l option" where
  "join_all l [] = Some l"
| "join_all l (t # ts) = Option.bind (join l t) (\<lambda>(l', _). join_all l' ts)"

lemma add_all_spec:
  "invar l \<Longrightarrow> \<exists>l'. add_all vs l = Some l' \<and> invar l'
     \<and> mset (contents l') = mset vs + mset (contents l)"
proof (induction vs arbitrary: l)
  case Nil
  then show ?case by simp
next
  case (Cons v vs)
  from add_law [OF Cons.prems, of v] obtain l1 where
    l1: "add l v = Some l1" "invar l1" "mset (contents l1) = add_mset v (mset (contents l))"
    by blast
  with Cons.IH [of l1] show ?case by auto
qed

lemma join_all_spec:
  "invar l \<Longrightarrow> (\<forall>t\<in>set ts. invar t) \<Longrightarrow> \<exists>l'. join_all l ts = Some l' \<and> invar l'
     \<and> mset (contents l') = mset (contents l) + (\<Sum>t\<leftarrow>ts. mset (contents t))"
proof (induction ts arbitrary: l)
  case Nil
  then show ?case by simp
next
  case (Cons t ts)
  from join_law [of l t] Cons.prems obtain l1 t1 where
    l1: "join l t = Some (l1, t1)" "invar l1" "mset (contents l1) = mset (contents l) + mset (contents t)"
    by auto
  with Cons.IH [of l1] Cons.prems show ?case by (auto simp: add.assoc)
qed

lemma add_all_length:
  "invar l \<Longrightarrow> \<exists>l'. add_all vs l = Some l' \<and> length (contents l') = length vs + length (contents l)"
  using add_all_spec [of l vs] by (metis size_mset size_union)

end

interpretation nl: number_bag numlist_create numlist_add numlist_concat for_each numlist_ok
proof unfold_locales
  fix l t :: numlist
  assume "numlist_ok l" "numlist_ok t"
  moreover from this(2) have "list_all block_ok (nl_head t)" by (simp add: numlist_ok_def)
  ultimately obtain l' t' where "numlist_concat l t = Some (l', t')" "numlist_ok l'"
    "for_each l' = for_each l @ for_each t"
    using numlist_concat_spec by blast
  then show "\<exists>l' t'. numlist_concat l t = Some (l', t') \<and> numlist_ok l'
      \<and> mset (for_each l') = mset (for_each l) + mset (for_each t)"
    by auto
qed (simp_all add: numlist_add_spec)

section \<open>Statistics\<close>

lemma numlist_size_eq: "numlist_size lst = length (for_each lst)"
proof -
  have "fold (\<lambda>_ n. n + 1) xs k = k + length xs" for xs :: "double list" and k :: nat
    by (induction xs arbitrary: k) auto
  then show ?thesis by (simp add: numlist_size_def)
qed

text \<open>Two lists with the same numbers, in whatever order, are minimised alike.\<close>

lemma fold_min_least:
  "(\<forall>x\<in>set xs. x \<noteq> NaN) \<Longrightarrow> a \<noteq> NaN \<Longrightarrow>
   fold (\<lambda>n m. if dlt n m then n else m) xs a \<in> insert a (set xs)
   \<and> (\<forall>x\<in>insert a (set xs). \<not> dlt x (fold (\<lambda>n m. if dlt n m then n else m) xs a))"
proof (induction xs arbitrary: a)
  case Nil
  then show ?case by simp
next
  case (Cons x xs)
  let ?a = "if dlt x a then x else a"
  from Cons.prems have ne: "x \<noteq> NaN" "a \<noteq> NaN" "?a \<noteq> NaN" "\<forall>x\<in>set xs. x \<noteq> NaN" by auto
  define r where "r = fold (\<lambda>n m. if dlt n m then n else m) xs ?a"
  from Cons.IH [OF ne(4,3)] have ih: "r \<in> insert ?a (set xs)" "\<forall>y\<in>insert ?a (set xs). \<not> dlt y r"
    by (simp_all add: r_def)
  have step: "fold (\<lambda>n m. if dlt n m then n else m) (x # xs) a = r"
    by (simp add: r_def)
  have both: "\<not> dlt x r \<and> \<not> dlt a r"
  proof (cases "dlt x a")
    case True
    with ih(2) dlt_trans [of x a r] show ?thesis by auto
  next
    case False
    with ih(2) dlt_trans [of x r a] dlt_total [OF ne(1,2)] show ?thesis
      by (auto dest: dlt_trans)
  qed
  from ih(1) have "r \<in> insert a (set (x # xs))" by (cases "dlt x a") auto
  with both ih(2) show ?case unfolding step by simp
qed

lemma compare_doubles_le: "compare_doubles x y \<le> 0 \<longleftrightarrow> \<not> dlt y x"
  using dlt_trans [of x y x] by (auto simp: compare_doubles_def)

interpretation dbl: comparison compare_doubles "\<lambda>d. d \<noteq> NaN"
proof unfold_locales
  fix x y z :: double
  show "compare_doubles x y \<le> 0 \<or> compare_doubles y x \<le> 0"
    using dlt_trans [of x y x] by (auto simp: compare_doubles_le)
  assume "x \<noteq> NaN" "y \<noteq> NaN" "z \<noteq> NaN" "compare_doubles x y \<le> 0" "compare_doubles y z \<le> 0"
  then show "compare_doubles x z \<le> 0"
    by (cases x; cases y; cases z) (auto simp: compare_doubles_le)
qed

lemma fold_mean:
  "fold (\<lambda>n (s, c). (dadd s n, dadd c (Fin 1))) (map Fin xs) (Fin s, Fin c)
   = (Fin (s + sum_list xs), Fin (c + length xs))"
  by (induction xs arbitrary: s c) auto

lemma fold_var:
  "fold (\<lambda>n (s, c). (dadd s (dmul (dsub n (Fin m)) (dsub n (Fin m))), dadd c (Fin 1))) (map Fin xs) (Fin s, Fin c)
   = (Fin (s + (\<Sum>x\<leftarrow>xs. (x - m)\<^sup>2)), Fin (c + length xs))"
  by (induction xs arbitrary: s c) (auto simp: power2_eq_square)

lemma percentile_index_eq:
  "0 \<le> p \<Longrightarrow> p \<le> 100 \<Longrightarrow> n * 100 \<le> 2 ^ 64 \<Longrightarrow> 0 < n \<Longrightarrow> percentile_index n p = (n - 1) * nat p div 100"
proof -
  assume p: "0 \<le> p" "p \<le> 100" and n: "n * 100 \<le> (2::nat) ^ 64" "0 < n"
  from p have "nat (p mod 2 ^ 64) = nat p" by simp
  moreover have "(n - 1) * nat p < 2 ^ 64"
  proof -
    have "(n - 1) * nat p \<le> (n - 1) * 100" using p by (intro mult_le_mono) auto
    also have "\<dots> < n * 100" using n by simp
    finally show ?thesis using n by linarith
  qed
  ultimately show ?thesis by (simp add: percentile_index_def)
qed

lemma percentile_index_less:
  "0 \<le> p \<Longrightarrow> p \<le> 100 \<Longrightarrow> 0 < n \<Longrightarrow> (n - 1) * nat p div 100 < n"
proof -
  assume p: "0 \<le> p" "p \<le> 100" and n: "0 < n"
  have "(n - 1) * nat p div 100 \<le> (n - 1) * 100 div 100"
    using p by (intro div_le_mono mult_le_mono) auto
  with n show ?thesis by simp
qed

lemma numlist_mean_Fin:
  "for_each lst = map Fin xs \<Longrightarrow> xs \<noteq> [] \<Longrightarrow> numlist_mean lst = Fin (sum_list xs / length xs)"
  using fold_mean [of xs 0 0] by (simp add: numlist_mean_def)

lemma numlist_stddev_Fin:
  assumes "for_each lst = map Fin xs" "xs \<noteq> []"
  shows "numlist_stddev lst = Fin (sqrt ((\<Sum>x\<leftarrow>xs. (x - sum_list xs / length xs)\<^sup>2) / length xs))"
proof -
  have "0 \<le> (\<Sum>x\<leftarrow>xs. (x - sum_list xs / length xs)\<^sup>2)"
    by (intro sum_list_nonneg) auto
  then have "\<not> (\<Sum>x\<leftarrow>xs. (x - sum_list xs / length xs)\<^sup>2) / length xs < 0"
    by (simp add: not_less)
  with assms numlist_mean_Fin [OF assms] fold_var [of "sum_list xs / length xs" xs 0 0]
  show ?thesis by (simp add: numlist_stddev_def)
qed

lemma fold_min_Fin:
  "fold (\<lambda>n m. if dlt n m then n else m) (map Fin xs) (Fin a) = Fin (Min (insert a (set xs)))"
proof (induction xs arbitrary: a)
  case (Cons x xs)
  have "Min (insert (if x < a then x else a) (set xs)) = Min (insert a (insert x (set xs)))"
    by (cases "set xs = {}") (auto simp: min_def)
  with Cons show ?case by (simp split: if_splits)
qed simp

lemma fold_max_Fin:
  "fold (\<lambda>n m. if dlt m n then n else m) (map Fin xs) (Fin a) = Fin (Max (insert a (set xs)))"
proof (induction xs arbitrary: a)
  case (Cons x xs)
  have "Max (insert (if a < x then x else a) (set xs)) = Max (insert a (insert x (set xs)))"
    by (cases "set xs = {}") (auto simp: max_def)
  with Cons show ?case by (simp split: if_splits)
qed simp

lemma numlist_min_Fin:
  "for_each lst = map Fin xs \<Longrightarrow> xs \<noteq> [] \<Longrightarrow> numlist_min lst = Fin (Min (set xs))"
  using fold_min_Fin by (cases xs) (simp_all add: numlist_min_def)

lemma numlist_max_Fin:
  "for_each lst = map Fin xs \<Longrightarrow> xs \<noteq> [] \<Longrightarrow> numlist_max lst = Fin (Max (set xs))"
  using fold_max_Fin by (cases xs) (simp_all add: numlist_max_def)

lemma mset_map_Fin: "mset ds = mset (map Fin xs) \<Longrightarrow> \<exists>ys. ds = map Fin ys \<and> mset ys = mset xs"
proof -
  assume h: "mset ds = mset (map Fin xs)"
  then have "set ds \<subseteq> range Fin" by (metis image_mono list.set_map set_mset_mset top_greatest)
  then obtain ys where ys: "ds = map Fin ys" by (metis ex_map_conv subset_eq rangeE)
  with h have "image_mset Fin (mset ys) = image_mset Fin (mset xs)" by simp
  then have "image_mset (case_double id 0 0 0) (image_mset Fin (mset ys))
    = image_mset (case_double id 0 0 0) (image_mset Fin (mset xs))" by simp
  then have "mset ys = mset xs" by (simp add: multiset.map_comp comp_def)
  with ys show ?thesis by blast
qed

text \<open>
  C38: a list that starts from \<open>numlist_create\<close> and takes any series of finite measurements through
  \<open>numlist_add\<close> never fails, across block boundaries included, and its statistics are those of the
  series: size, mean, standard deviation, minimum and maximum.
\<close>

theorem numlist_statistics:
  assumes "xs \<noteq> []"
  shows "\<exists>lst. nl.add_all (map Fin xs) numlist_create = Some lst
    \<and> numlist_size lst = length xs
    \<and> numlist_mean lst = Fin (sum_list xs / length xs)
    \<and> numlist_stddev lst = Fin (sqrt ((\<Sum>x\<leftarrow>xs. (x - sum_list xs / length xs)\<^sup>2) / length xs))
    \<and> numlist_min lst = Fin (Min (set xs)) \<and> numlist_max lst = Fin (Max (set xs))"
proof -
  obtain lst where lst: "nl.add_all (map Fin xs) numlist_create = Some lst"
    "mset (for_each lst) = mset (map Fin xs)"
    using nl.add_all_spec [of numlist_create "map Fin xs"] by auto
  obtain ys where ys: "for_each lst = map Fin ys" "mset ys = mset xs"
    using mset_map_Fin [OF lst(2)] by blast
  then have "set ys = set xs" "length ys = length xs" "sum_list ys = sum_list xs" "ys \<noteq> []"
    using assms by (metis mset_eq_setD, metis mset_eq_length, metis sum_mset_sum_list, auto)
  moreover have "(\<Sum>x\<leftarrow>ys. (x - m)\<^sup>2) = (\<Sum>x\<leftarrow>xs. (x - m)\<^sup>2)" for m
    using ys(2) by (metis mset_map sum_mset_sum_list)
  ultimately show ?thesis
    using lst(1) numlist_mean_Fin [OF ys(1)] numlist_stddev_Fin [OF ys(1)]
      numlist_min_Fin [OF ys(1)] numlist_max_Fin [OF ys(1)]
    by (auto simp: numlist_size_eq ys(1))
qed

theorem numlist_statistics_witness:
  "\<exists>lst. nl.add_all (map Fin [2, 4, 9]) numlist_create = Some lst \<and> numlist_mean lst = Fin 5
     \<and> numlist_max lst = Fin 9"
  using numlist_statistics [of "[2, 4, 9]"] by auto

lemma sorted_rank:
  fixes vs :: "double list"
  assumes "sorted_wrt (\<lambda>x y. \<not> dlt y x) vs" "i < length vs"
  shows "length (filter (\<lambda>x. dlt x (vs ! i)) vs) \<le> i"
    and "i < length (filter (\<lambda>x. \<not> dlt (vs ! i) x) vs)"
proof -
  have split: "vs = take i vs @ vs ! i # drop (Suc i) vs"
    using assms(2) by (rule id_take_nth_drop)
  have after: "\<forall>x\<in>set (drop (Suc i) vs). \<not> dlt x (vs ! i)"
    and before: "\<forall>x\<in>set (take i vs). \<not> dlt (vs ! i) x"
    using assms(1) by (subst (asm) split, simp add: sorted_wrt_append)+
  have "filter (\<lambda>x. dlt x (vs ! i)) vs = filter (\<lambda>x. dlt x (vs ! i)) (take i vs)"
    using after by (subst split) simp
  then show "length (filter (\<lambda>x. dlt x (vs ! i)) vs) \<le> i"
    by (metis length_filter_le length_take min.bounded_iff order_trans order_refl min.cobounded2)
  have "filter (\<lambda>x. \<not> dlt (vs ! i) x) vs
      = take i vs @ vs ! i # filter (\<lambda>x. \<not> dlt (vs ! i) x) (drop (Suc i) vs)"
    using before by (subst split) simp
  then show "i < length (filter (\<lambda>x. \<not> dlt (vs ! i) x) vs)"
    using assms(2) by simp
qed

text \<open>
  C39: for every percentile from 0 to 100 of a list without NaN (and of a size whose hundredfold
  fits in \<open>size_t\<close>), \<open>numlist_percentile\<close> stays inside its array and returns a number of the list
  of the right rank: at most \<open>(n - 1) * p / 100\<close> numbers are smaller, more than that many are not
  larger. An empty list gives NaN.
\<close>

theorem numlist_percentile_rank:
  assumes "numlist_size lst * 100 \<le> 2 ^ 64" "\<forall>x\<in>set (for_each lst). x \<noteq> NaN" "0 \<le> p" "p \<le> 100"
  shows "case for_each lst of [] \<Rightarrow> numlist_percentile lst p = Some NaN
    | _ \<Rightarrow> (\<exists>v\<in>set (for_each lst). numlist_percentile lst p = Some v
        \<and> length (filter (\<lambda>x. dlt x v) (for_each lst)) \<le> (numlist_size lst - 1) * nat p div 100
        \<and> (numlist_size lst - 1) * nat p div 100 < length (filter (\<lambda>x. \<not> dlt v x) (for_each lst)))"
proof (cases "for_each lst")
  case Nil
  then show ?thesis by (simp add: numlist_percentile_def numlist_size_eq)
next
  case (Cons d ds)
  let ?vs = "qsort compare_doubles (for_each lst)" and ?i = "(numlist_size lst - 1) * nat p div 100"
  have pos: "0 < numlist_size lst" by (simp add: numlist_size_eq Cons)
  have i: "?i < length ?vs"
    using percentile_index_less [OF assms(3,4) pos] by (simp add: numlist_size_eq)
  have srt: "sorted_wrt (\<lambda>x y. \<not> dlt y x) ?vs"
    using dbl.sorted_qsort [OF assms(2)] by (simp add: compare_doubles_le)
  have same: "length (filter P ?vs) = length (filter P (for_each lst))" for P
    by (metis mset_filter mset_qsort size_mset)
  have "numlist_percentile lst p = Some (?vs ! ?i)"
    using percentile_index_eq [OF assms(3,4,1) pos] pos i by (simp add: numlist_percentile_def Let_def)
  moreover have "?vs ! ?i \<in> set (for_each lst)"
    using nth_mem [OF i] by simp
  ultimately show ?thesis
    using sorted_rank [OF srt i] unfolding same by (auto simp: Cons)
qed

theorem numlist_percentile_rank_witness:
  "\<exists>v. numlist_percentile \<lparr>nl_head = [\<lparr>mb_size = 2, mb_data = (\<lambda>_. NaN)(0 := Fin 7, 1 := Fin 3)\<rparr>]\<rparr> 50
     = Some v \<and> v \<in> {Fin 7, Fin 3}"
  using numlist_percentile_rank [of "\<lparr>nl_head = [\<lparr>mb_size = 2, mb_data = (\<lambda>_. NaN)(0 := Fin 7, 1 := Fin 3)\<rparr>]\<rparr>" 50]
  by (auto simp: numlist_size_eq for_each_def for_each_number_def upt_rec)

text \<open>
  C40: \<open>numlist_concat\<close> moves every number of the tail list behind those of the first list and leaves
  the tail empty, as \<open>numlist.h\<close> promises; the first list stays well formed, so numbers can still be
  added to it, while adding to the emptied tail would follow a NULL head.
\<close>

theorem numlist_concat_moves:
  assumes "numlist_ok lst" "numlist_ok tail"
  shows "\<exists>l t. numlist_concat lst tail = Some (l, t)
    \<and> for_each l = for_each lst @ for_each tail \<and> numlist_size t = 0
    \<and> numlist_size l = numlist_size lst + numlist_size tail
    \<and> (\<exists>l'. numlist_add l v = Some l' \<and> numlist_size l' = numlist_size l + 1)
    \<and> numlist_add t v = None"
proof -
  from assms(2) have "list_all block_ok (nl_head tail)" by (simp add: numlist_ok_def)
  then obtain l t where lt: "numlist_concat lst tail = Some (l, t)" "numlist_ok l"
    "for_each l = for_each lst @ for_each tail" "for_each t = []" "nl_head t = []"
    using numlist_concat_spec [OF assms(1)] by blast
  obtain l' where l': "numlist_add l v = Some l'" "mset (for_each l') = add_mset v (mset (for_each l))"
    using numlist_add_spec [OF lt(2)] by blast
  have "length (for_each l') = Suc (length (for_each l))"
    using arg_cong [OF l'(2), of size] by simp
  with lt l' show ?thesis by (auto simp: numlist_size_eq numlist_add_def)
qed

theorem numlist_concat_moves_witness:
  "\<exists>l t. numlist_concat numlist_create numlist_create = Some (l, t) \<and> numlist_add t (Fin 1) = None"
  using numlist_concat_moves [of numlist_create numlist_create "Fin 1"] by auto

end
