(* ===== verification/World.thy ===== *)
theory World
  imports Prelude
begin

text \<open>
  The outside of the program: the kernel and the C library calls that reach it, the process state
  the calls share (\<open>errno\<close>, log, standard output), and the outcome of running code against them.

  A \<open>world\<close> holds a list of kernel behaviours, one per call still to be made: each is a function
  from the trace so far and the call to the answer, so every theorem quantifies over every possible
  kernel. A call
  takes the first behaviour, and is recorded with its answer in the trace. When the list is empty
  the call has no answer yet and the program waits. Code that would dereference a bad pointer or
  run out of an array ends in \<open>Fault\<close>, \<open>LOG_FATAL\<close> in \<open>Exit\<close>.
\<close>

section \<open>Calls and answers\<close>

type_synonym fd = int
type_synonym ptr = nat

record sockaddr =
  sa_family :: int
  sa_port :: u16 \<comment> \<open>in network byte order\<close>
  sa_host :: "byte list"

record addrinfo =
  ai_flags :: int
  ai_family :: int
  ai_socktype :: int
  ai_protocol :: int
  ai_addrlen :: int
  ai_addr :: sockaddr

datatype timeval = Timeval (tv_sec_of: int) (tv_usec: int)

record rusage =
  ru_utime :: timeval
  ru_stime :: timeval
  ru_maxrss :: int
  ru_minflt :: int
  ru_majflt :: int
  ru_nvcsw :: int
  ru_nivcsw :: int

record epoll_event =
  ev_events :: u32
  ev_ptr :: ptr \<comment> \<open>\<open>data.ptr\<close>, the address of a flow\<close>

datatype payload = Bytes "byte list" | Workload int
  \<comment> \<open>explicit bytes, or that many bytes of the workload buffer (contents irrelevant)\<close>

datatype sockopt = SO_REUSEPORT | SO_REUSEADDR | SO_MAX_PACING_RATE | TCP_MIN_RTO | SO_DEBUG
  | TCP_NODELAY

datatype epoll_op = EPOLL_CTL_ADD | EPOLL_CTL_MOD | EPOLL_CTL_DEL

datatype rusage_who = RUSAGE_SELF | RUSAGE_THREAD

datatype hook_id = SCRIPT_HOOK_SOCKET | SCRIPT_HOOK_CLOSE | SCRIPT_HOOK_SENDMSG
  | SCRIPT_HOOK_RECVMSG | SCRIPT_HOOK_RECVERR

datatype call =
    CClose fd | CSocket int int int | CBind fd sockaddr int | CListen fd int | CAccept fd
  | CConnect fd sockaddr int | CShutdown fd | CRead fd int | CWrite fd payload | CRecv fd int int
  | CSetsockopt fd sockopt u32 | CGetfl fd | CSetfl fd u32
  | CEpollCreate | CEpollCtl fd epoll_op fd "epoll_event option" | CEpollWait fd int int
  | CClockGettime | CGetrusage rusage_who | CNanosleep timespec | CSleep int
  | CGetaddrinfo "string option" "string option" int int
  | CGetnameinfo | COpen string | CBarrierWait
  | CLuaChecktype string | CLuaSerialize hook_id | CLuaEmpty nat
  | CLuaLoad hook_id int | CLuaPcall hook_id fd int | CLuaLoadfile string | CLuaRun string | CLuaCollect nat
  | CFscanfInt fd | CSigaction | CSigprocmask | CTimerCreate | CTimerSettime int
  | CEventfd | CEventfdWrite fd | CBarrierInit int | CBarrierDestroy
  | CAttrInit | CAttrSetaffinity "nat list" | CAttrDestroy | CPthreadCreate nat | CPthreadJoin nat

record resp =
  r_ret :: int
  r_errno :: int
  r_data :: "byte list"
  r_time :: timespec
  r_rusage :: rusage
  r_events :: "epoll_event list"
  r_addrs :: "addrinfo list"
  r_lua :: "int option" \<comment> \<open>a Lua call's result, if it is a number\<close>

abbreviation (input) EINTR :: int where "EINTR \<equiv> 4"
abbreviation (input) EAGAIN :: int where "EAGAIN \<equiv> 11"
abbreviation (input) ENOMEM :: int where "ENOMEM \<equiv> 12"
abbreviation (input) ENFILE :: int where "ENFILE \<equiv> 23"
abbreviation (input) EMFILE :: int where "EMFILE \<equiv> 24"
abbreviation (input) ECONNABORTED :: int where "ECONNABORTED \<equiv> 103"
abbreviation (input) ENOBUFS :: int where "ENOBUFS \<equiv> 105"
abbreviation (input) EISCONN :: int where "EISCONN \<equiv> 106"
abbreviation (input) EALREADY :: int where "EALREADY \<equiv> 114"

abbreviation (input) EPOLLIN :: u32 where "EPOLLIN \<equiv> 1"
abbreviation (input) EPOLLOUT :: u32 where "EPOLLOUT \<equiv> 4"
abbreviation (input) EPOLLERR :: u32 where "EPOLLERR \<equiv> 8"
abbreviation (input) EPOLLRDHUP :: u32 where "EPOLLRDHUP \<equiv> 8192"
abbreviation (input) EPOLLET :: u32 where "EPOLLET \<equiv> 2147483648"

definition has_event :: "u32 \<Rightarrow> u32 \<Rightarrow> bool" where
  "has_event evs e \<longleftrightarrow> evs AND e \<noteq> 0"

abbreviation (input) AF_UNSPEC :: int where "AF_UNSPEC \<equiv> 0"
abbreviation (input) AF_INET :: int where "AF_INET \<equiv> 2"
abbreviation (input) AF_INET6 :: int where "AF_INET6 \<equiv> 10"
abbreviation (input) SOCK_STREAM :: int where "SOCK_STREAM \<equiv> 1"
abbreviation (input) SOCK_DGRAM :: int where "SOCK_DGRAM \<equiv> 2"
abbreviation (input) IPPROTO_TCP :: int where "IPPROTO_TCP \<equiv> 6"
abbreviation (input) IPPROTO_UDP :: int where "IPPROTO_UDP \<equiv> 17"
abbreviation (input) AI_PASSIVE :: int where "AI_PASSIVE \<equiv> 1"
abbreviation (input) MSG_ERRQUEUE :: int where "MSG_ERRQUEUE \<equiv> 8192"
abbreviation (input) MSG_MORE :: int where "MSG_MORE \<equiv> 32768"
abbreviation (input) O_NONBLOCK :: u32 where "O_NONBLOCK \<equiv> 2048"

section \<open>The world and outcomes\<close>

datatype log_level = FATAL | ERROR | WARNING | INFO

datatype pval = PInt int | PULong u64 | PDbl double | PStr string | PTime timespec
  | PTimeval timeval

type_synonym trace = "(call \<times> resp) list"
type_synonym kernel = "trace \<Rightarrow> call \<Rightarrow> resp"

record world =
  w_inputs :: "kernel list"
  w_trace :: trace
  w_errno :: int
  w_log :: "(log_level \<times> string) list"
  w_out :: "(string \<times> pval) list" \<comment> \<open>the key=value lines of \<open>PRINT\<close>\<close>
  w_time_start :: timespec \<comment> \<open>\<open>rusage_interval.time_start\<close>, shared by the threads\<close>
  w_rusage_start :: rusage

datatype 'a outcome = Ret 'a world | Exit world | Wait call world | Fault world

definition obind :: "'a outcome \<Rightarrow> ('a \<Rightarrow> world \<Rightarrow> 'b outcome) \<Rightarrow> 'b outcome" where
  "obind m f = (case m of Ret a w \<Rightarrow> f a w | Exit w \<Rightarrow> Exit w | Wait c w \<Rightarrow> Wait c w | Fault w \<Rightarrow> Fault w)"

definition sys :: "call \<Rightarrow> world \<Rightarrow> resp outcome" where
  "sys c w = (case w_inputs w of
       [] \<Rightarrow> Wait c w
     | k # ks \<Rightarrow> let r = k (w_trace w) c in
         Ret r (w\<lparr>w_inputs := ks, w_trace := w_trace w @ [(c, r)],
           w_errno := (if r_ret r = -1 then r_errno r else w_errno w)\<rparr>))"

definition log_msg :: "log_level \<Rightarrow> string \<Rightarrow> world \<Rightarrow> world" where
  "log_msg l s w = w\<lparr>w_log := w_log w @ [(l, s)]\<rparr>"

abbreviation LOG_INFO :: "string \<Rightarrow> world \<Rightarrow> world" where "LOG_INFO \<equiv> log_msg INFO"
abbreviation LOG_WARN :: "string \<Rightarrow> world \<Rightarrow> world" where "LOG_WARN \<equiv> log_msg WARNING"
abbreviation LOG_ERROR :: "string \<Rightarrow> world \<Rightarrow> world" where "LOG_ERROR \<equiv> log_msg ERROR"

definition LOG_FATAL :: "string \<Rightarrow> world \<Rightarrow> 'a outcome" where
  "LOG_FATAL s w = Exit (log_msg FATAL s w)"

definition PRINT :: "string \<Rightarrow> pval \<Rightarrow> world \<Rightarrow> world" where
  "PRINT k v w = w\<lparr>w_out := w_out w @ [(k, v)]\<rparr>"

fun final :: "'a outcome \<Rightarrow> world" where
  "final (Ret _ w) = w"
| "final (Exit w) = w"
| "final (Wait _ w) = w"
| "final (Fault w) = w"

lemma obind_simps [simp]:
  "obind (Ret a w) f = f a w"
  "obind (Exit w) f = Exit w"
  "obind (Wait c w) f = Wait c w"
  "obind (Fault w) f = Fault w"
  by (simp_all add: obind_def)

lemma obind_assoc: "obind (obind m f) g = obind m (\<lambda>a w. obind (f a w) g)"
  by (cases m) simp_all

lemma obind_cong [fundef_cong]:
  "m = m' \<Longrightarrow> (\<And>a w. m' = Ret a w \<Longrightarrow> f a w = f' a w) \<Longrightarrow> obind m f = obind m' f'"
  by (cases m') simp_all

lemma obind_eq_Ret: "obind m f = Ret b w' \<longleftrightarrow> (\<exists>a w. m = Ret a w \<and> f a w = Ret b w')"
  by (cases m) auto

lemma log_msg_frame [simp]:
  "w_inputs (log_msg l s w) = w_inputs w"
  "w_trace (log_msg l s w) = w_trace w"
  "w_errno (log_msg l s w) = w_errno w"
  "w_out (log_msg l s w) = w_out w"
  "w_time_start (log_msg l s w) = w_time_start w"
  "w_rusage_start (log_msg l s w) = w_rusage_start w"
  "w_log (log_msg l s w) = w_log w @ [(l, s)]"
  by (simp_all add: log_msg_def)

lemma PRINT_frame [simp]:
  "w_inputs (PRINT k v w) = w_inputs w"
  "w_trace (PRINT k v w) = w_trace w"
  "w_errno (PRINT k v w) = w_errno w"
  "w_log (PRINT k v w) = w_log w"
  "w_time_start (PRINT k v w) = w_time_start w"
  "w_rusage_start (PRINT k v w) = w_rusage_start w"
  "w_out (PRINT k v w) = w_out w @ [(k, v)]"
  by (simp_all add: PRINT_def)

section \<open>Weakest preconditions\<close>

text \<open>
  \<open>wp m Q\<close>: \<open>m\<close> does not fault, and if it returns, the result satisfies \<open>Q\<close>. Waiting for the
  kernel and exiting through \<open>LOG_FATAL\<close> are allowed.
\<close>

definition wp :: "'a outcome \<Rightarrow> ('a \<Rightarrow> world \<Rightarrow> bool) \<Rightarrow> bool" where
  "wp m Q = (case m of Ret a w \<Rightarrow> Q a w | Exit _ \<Rightarrow> True | Wait _ _ \<Rightarrow> True | Fault _ \<Rightarrow> False)"

lemma wp_basic [simp]:
  "wp (Ret a w) Q = Q a w" "wp (Exit w) Q" "wp (Wait c w) Q" "\<not> wp (Fault w) Q"
  by (simp_all add: wp_def)

lemma wp_obind [simp]: "wp (obind m f) Q = wp m (\<lambda>a w. wp (f a w) Q)"
  by (cases m) simp_all

lemma wp_LOG_FATAL [simp]: "wp (LOG_FATAL s w) Q"
  by (simp add: LOG_FATAL_def)

lemma wp_if: "wp (if b then m else n) Q = ((b \<longrightarrow> wp m Q) \<and> (\<not> b \<longrightarrow> wp n Q))"
  by simp

lemma wp_sys:
  "wp (sys c w) Q = (\<forall>k ks. w_inputs w = k # ks \<longrightarrow>
     Q (k (w_trace w) c) (w\<lparr>w_inputs := ks, w_trace := w_trace w @ [(c, k (w_trace w) c)],
       w_errno := (if r_ret (k (w_trace w) c) = -1 then r_errno (k (w_trace w) c) else w_errno w)\<rparr>))"
  by (cases "w_inputs w") (simp_all add: sys_def Let_def)

lemma wp_mono: "wp m Q \<Longrightarrow> (\<And>a w. Q a w \<Longrightarrow> R a w) \<Longrightarrow> wp m R"
  by (cases m) auto

lemma wp_conj: "wp m Q \<Longrightarrow> wp m R \<Longrightarrow> wp m (\<lambda>a w. Q a w \<and> R a w)"
  by (cases m) auto

lemma wp_Ret: "wp m Q \<Longrightarrow> m = Ret a w \<Longrightarrow> Q a w"
  by simp

section \<open>Every call is recorded and uses up one answer\<close>

definition extends :: "world \<Rightarrow> world \<Rightarrow> bool" where
  "extends w w' \<longleftrightarrow> (\<exists>ks seg. w_inputs w = ks @ w_inputs w' \<and> w_trace w' = w_trace w @ seg
     \<and> length seg = length ks)"

named_theorems ext_intros "operations only extend the trace"

lemma extends_refl [intro, simp]: "extends w w"
  by (auto simp: extends_def)

lemma extends_trans: "extends u v \<Longrightarrow> extends v w \<Longrightarrow> extends u w"
  by (fastforce simp: extends_def)

lemma extends_same:
  "w_inputs w' = w_inputs w \<Longrightarrow> w_trace w' = w_trace w \<Longrightarrow> extends w w'"
  by (auto simp: extends_def)

lemma extends_inputs_length: "extends w w' \<Longrightarrow> length (w_inputs w') \<le> length (w_inputs w)"
  by (auto simp: extends_def)

lemma extends_trace_prefix: "extends w w' \<Longrightarrow> \<exists>seg. w_trace w' = w_trace w @ seg"
  by (auto simp: extends_def)

lemma extends_sys [ext_intros]: "extends w (final (sys c w))"
  by (cases "w_inputs w") (auto simp: sys_def Let_def extends_def)

lemma extends_LOG_FATAL [ext_intros]: "extends w (final (LOG_FATAL s w))"
  by (simp add: LOG_FATAL_def extends_same)

lemma extends_obind [ext_intros]:
  "extends w (final m) \<Longrightarrow> (\<And>a v. m = Ret a v \<Longrightarrow> extends v (final (f a v))) \<Longrightarrow>
   extends w (final (obind m f))"
  by (cases m) (auto intro: extends_trans)

lemma extends_if [ext_intros]:
  "(b \<Longrightarrow> extends w (final m)) \<Longrightarrow> (\<not> b \<Longrightarrow> extends w (final n)) \<Longrightarrow>
   extends w (final (if b then m else n))"
  by simp

lemma extends_Ret: "extends w (final m) \<Longrightarrow> m = Ret a w' \<Longrightarrow> extends w w'"
  by auto

lemma sys_inputs_less [termination_simp]:
  "sys c w = Ret r w' \<Longrightarrow> length (w_inputs w') < length (w_inputs w)"
  by (auto simp: sys_def Let_def split: list.splits)

text \<open>
  What an epoll instance watches, from the calls made: a successful \<open>EPOLL_CTL_ADD\<close> or
  \<open>EPOLL_CTL_MOD\<close> sets the pointer and the mask of a descriptor, \<open>EPOLL_CTL_DEL\<close> and \<open>close\<close> remove it.
\<close>

definition drop_fd :: "fd \<Rightarrow> (fd \<times> ptr \<times> u32) list \<Rightarrow> (fd \<times> ptr \<times> u32) list" where
  "drop_fd fd = filter (\<lambda>e. fst e \<noteq> fd)"

fun watch_step :: "fd \<Rightarrow> call \<times> resp \<Rightarrow> (fd \<times> ptr \<times> u32) list \<Rightarrow> (fd \<times> ptr \<times> u32) list" where
  "watch_step epfd (CEpollCtl ep op fd (Some ev), r) ws =
     (if ep = epfd \<and> r_ret r = 0 \<and> op \<noteq> EPOLL_CTL_DEL
      then (fd, ev_ptr ev, ev_events ev) # drop_fd fd ws else ws)"
| "watch_step epfd (CEpollCtl ep op fd None, r) ws =
     (if ep = epfd \<and> r_ret r = 0 \<and> op = EPOLL_CTL_DEL then drop_fd fd ws else ws)"
| "watch_step epfd (CClose fd, r) ws = drop_fd fd ws"
| "watch_step epfd _ ws = ws"

definition watched :: "fd \<Rightarrow> trace \<Rightarrow> (fd \<times> ptr \<times> u32) list" where
  "watched epfd tr = fold (watch_step epfd) tr []"

text \<open>The calls that manage threads, in the order they were made.\<close>

fun manages_threads :: "call \<Rightarrow> bool" where
  "manages_threads (CBarrierInit _) = True"
| "manages_threads CBarrierDestroy = True"
| "manages_threads CEventfd = True"
| "manages_threads (CEventfdWrite _) = True"
| "manages_threads (CPthreadCreate _) = True"
| "manages_threads (CPthreadJoin _) = True"
| "manages_threads _ = False"

definition thread_calls :: "trace \<Rightarrow> call list" where
  "thread_calls tr = filter manages_threads (map fst tr)"

lemma thread_calls_append [simp]: "thread_calls (tr @ tr') = thread_calls tr @ thread_calls tr'"
  by (simp add: thread_calls_def)

fun watches :: "call \<Rightarrow> bool" where \<comment> \<open>calls that may watch a descriptor, or manage threads\<close>
  "watches (CEpollCtl _ op _ (Some _)) = (op \<noteq> EPOLL_CTL_DEL)"
| "watches c = manages_threads c"

lemma watched_Nil [simp]: "watched epfd [] = []"
  by (simp add: watched_def)

lemma watched_snoc [simp]: "watched epfd (tr @ [cr]) = watch_step epfd cr (watched epfd tr)"
  by (simp add: watched_def)

lemma drop_fd_set [simp]: "set (drop_fd fd ws) = {e \<in> set ws. fst e \<noteq> fd}"
  by (auto simp: drop_fd_def)

lemma distinct_watched: "distinct (map fst (watched epfd tr))"
proof (induction tr rule: rev_induct)
  case (snoc cr tr)
  then have "distinct (map fst (drop_fd fd (watched epfd tr)))" for fd
    by (simp add: drop_fd_def distinct_map_filter)
  moreover have "fd \<notin> fst ` set (drop_fd fd (watched epfd tr))" for fd by auto
  ultimately show ?case using snoc by (cases "(epfd, cr, [] :: (fd \<times> ptr \<times> u32) list)" rule: watch_step.cases) auto
qed simp

lemma watch_step_subset: "\<not> watches (fst cr) \<Longrightarrow> set (watch_step epfd cr ws) \<subseteq> set ws"
  by (cases "(epfd, cr, ws)" rule: watch_step.cases) auto

text \<open>\<open>calm w w'\<close>: there were calls, but no epoll instance watches anything new and no thread was touched.\<close>

definition calm :: "world \<Rightarrow> world \<Rightarrow> bool" where
  "calm w w' \<longleftrightarrow> extends w w' \<and> thread_calls (w_trace w') = thread_calls (w_trace w)
     \<and> (\<forall>epfd. set (watched epfd (w_trace w')) \<subseteq> set (watched epfd (w_trace w)))"

lemma calm_refl [intro, simp]: "calm w w"
  by (simp add: calm_def)

lemma calm_trans: "calm u v \<Longrightarrow> calm v w \<Longrightarrow> calm u w"
  by (force simp: calm_def intro: extends_trans)

lemma unwatched_unmanaged: "\<not> watches c \<Longrightarrow> \<not> manages_threads c"
  by (cases c rule: watches.cases) auto

lemma calm_extends: "calm w w' \<Longrightarrow> extends w w'"
  by (simp add: calm_def)

lemma calm_watched: "calm w w' \<Longrightarrow> e \<in> set (watched epfd (w_trace w')) \<Longrightarrow> e \<in> set (watched epfd (w_trace w))"
  by (auto simp: calm_def)

lemma calm_sys: "sys c w = Ret r w' \<Longrightarrow> \<not> watches c \<Longrightarrow> calm w w'"
proof (cases "w_inputs w")
  case (Cons k ks)
  assume "sys c w = Ret r w'" "\<not> watches c"
  with Cons subsetD [OF watch_step_subset [of "(c, r)"]] unwatched_unmanaged show ?thesis
    by (fastforce simp: sys_def Let_def calm_def extends_def thread_calls_def)
qed (simp add: sys_def)

text \<open>
  \<open>quiet w w'\<close>: between the two worlds there were only calm calls and log lines; standard output and
  the shared start of the measurement did not change.
\<close>

definition quiet :: "world \<Rightarrow> world \<Rightarrow> bool" where
  "quiet w w' \<longleftrightarrow> calm w w' \<and> w_out w' = w_out w \<and> w_time_start w' = w_time_start w
     \<and> w_rusage_start w' = w_rusage_start w"

lemma quiet_refl [intro, simp]: "quiet w w"
  by (simp add: quiet_def)

lemma quiet_trans: "quiet u v \<Longrightarrow> quiet v w \<Longrightarrow> quiet u w"
  by (auto simp: quiet_def elim: calm_trans)

lemma extends_log [simp]: "extends v (log_msg l s w) = extends v w"
  "extends (log_msg l s v) w = extends v w"
  by (auto simp: extends_def)

lemma calm_frame [simp]:
  "calm v (log_msg l s w) = calm v w" "calm (log_msg l s v) w = calm v w"
  "calm v (w\<lparr>w_errno := e\<rparr>) = calm v w" "calm (v\<lparr>w_errno := e\<rparr>) w = calm v w"
  "calm v (w\<lparr>w_time_start := ts\<rparr>) = calm v w" "calm v (w\<lparr>w_rusage_start := ru\<rparr>) = calm v w"
  by (auto simp: calm_def extends_def)

lemma quiet_log [simp]: "quiet v (log_msg l s w) = quiet v w" "quiet (log_msg l s v) w = quiet v w"
  by (auto simp: quiet_def)

lemma quiet_errno [simp]: "quiet v (w\<lparr>w_errno := e\<rparr>) = quiet v w" "quiet (v\<lparr>w_errno := e\<rparr>) w = quiet v w"
  by (auto simp: quiet_def)

lemma quiet_calm: "quiet w w' \<Longrightarrow> calm w w'"
  by (simp add: quiet_def)

lemma quiet_extends: "quiet w w' \<Longrightarrow> extends w w'"
  by (simp add: quiet_def calm_def)

text \<open>\<open>quietly w m\<close>: \<open>m\<close>, started in \<open>w\<close>, does not fault and only makes calls and logs.\<close>

definition quietly :: "world \<Rightarrow> 'a outcome \<Rightarrow> bool" where
  "quietly w m \<longleftrightarrow> wp m (\<lambda>_ w'. quiet w w')"

named_theorems quiet_intros "operations that only make calls and log"

lemma quietly_from: "quietly v m \<Longrightarrow> quiet w v \<Longrightarrow> quietly w m"
  unfolding quietly_def by (cases m) (auto intro: quiet_trans)

lemma quiet_sys: "\<not> watches c \<Longrightarrow> quietly w (sys c w)"
  using calm_sys [of c w]
  by (cases "sys c w") (auto simp: quietly_def quiet_def sys_def Let_def split: list.splits)

lemmas quietly_sys [quiet_intros] = quiet_sys [THEN quietly_from]

lemma quietly_Ret [quiet_intros]: "quiet w w' \<Longrightarrow> quietly w (Ret a w')"
  by (simp add: quietly_def)

lemma quietly_LOG_FATAL [quiet_intros]: "quietly w (LOG_FATAL s w')"
  by (simp add: quietly_def)

lemma quietly_obind [quiet_intros]:
  "quietly w m \<Longrightarrow> (\<And>a v. m = Ret a v \<Longrightarrow> quietly v (f a v)) \<Longrightarrow> quietly w (obind m f)"
  unfolding quietly_def by (cases m) (auto elim!: wp_mono intro: quiet_trans)

lemma quietly_frame [simp]:
  "quietly (log_msg l s w) m = quietly w m" "quietly (w\<lparr>w_errno := e\<rparr>) m = quietly w m"
  by (simp_all add: quietly_def)

lemma quietly_if [quiet_intros]:
  "(b \<Longrightarrow> quietly w m) \<Longrightarrow> (\<not> b \<Longrightarrow> quietly w n) \<Longrightarrow> quietly w (if b then m else n)"
  by simp

lemma quietly_wp: "quietly w m \<Longrightarrow> (\<And>a w'. m = Ret a w' \<Longrightarrow> quiet w w' \<Longrightarrow> Q a w') \<Longrightarrow> wp m Q"
  unfolding quietly_def by (cases m) auto

lemma wp_quiet_sys: "\<not> watches c \<Longrightarrow> (\<And>r w'. quiet w w' \<Longrightarrow> Q r w') \<Longrightarrow> wp (sys c w) Q"
  by (rule quietly_wp [OF quiet_sys])

lemma quietly_Ret_quiet: "quietly w m \<Longrightarrow> m = Ret a w' \<Longrightarrow> quiet w w'"
  by (simp add: quietly_def)

text \<open>To finish a proof about \<open>m\<close> it is enough to know where it can end.\<close>

lemma wp_use: "wp m P \<Longrightarrow> (\<And>a w'. P a w' \<Longrightarrow> Q a w') \<Longrightarrow> wp m Q"
  by (erule wp_mono) auto

section \<open>What the kernel promises\<close>

text \<open>
  An honest answer to \<open>epoll_wait\<close>: at most one event for each watched descriptor, with its pointer,
  and \<open>EPOLLIN\<close> and \<open>EPOLLOUT\<close> only if asked for.
\<close>

definition event_ok :: "(fd \<times> ptr \<times> u32) list \<Rightarrow> epoll_event \<Rightarrow> bool" where
  "event_ok ws e \<longleftrightarrow> (\<exists>(fd, p, m)\<in>set ws. ev_ptr e = p
     \<and> (has_event (ev_events e) EPOLLIN \<longrightarrow> has_event m EPOLLIN)
     \<and> (has_event (ev_events e) EPOLLOUT \<longrightarrow> has_event m EPOLLOUT))"

definition events_ok :: "(fd \<times> ptr \<times> u32) list \<Rightarrow> epoll_event list \<Rightarrow> bool" where
  "events_ok ws es \<longleftrightarrow> list_all (event_ok ws) es
     \<and> (\<forall>p\<in>set (map ev_ptr es). count_list (map ev_ptr es) p \<le> count_list (map (fst \<circ> snd) ws) p)"

text \<open>
  \<open>answers_ok K w\<close>: every answer still to come obeys the contract \<open>K\<close>. \<open>posix_ok\<close> is the part of
  the documented contract the code relies on: a transfer returns -1 or a count within the length
  asked for, \<open>epoll_wait\<close> reports at most \<open>maxevents\<close> events and honestly, and clock readings are
  normalised, with seconds that are a \<open>time_t\<close> (\<open>long\<close>).
\<close>

type_synonym contract = "trace \<Rightarrow> call \<Rightarrow> resp \<Rightarrow> bool"

definition answers_ok :: "contract \<Rightarrow> world \<Rightarrow> bool" where
  "answers_ok K w \<longleftrightarrow> (\<forall>k\<in>set (w_inputs w). \<forall>tr c. K tr c (k tr c))"

lemma answers_ok_extends: "extends w w' \<Longrightarrow> answers_ok K w \<Longrightarrow> answers_ok K w'"
  by (auto simp: extends_def answers_ok_def)

lemma answers_ok_same: "w_inputs w' = w_inputs w \<Longrightarrow> answers_ok K w' = answers_ok K w"
  by (simp add: answers_ok_def)

lemma answers_ok_frame [simp]:
  "answers_ok K (log_msg l s w) = answers_ok K w"
  "answers_ok K (PRINT k v w) = answers_ok K w"
  by (simp_all add: answers_ok_def)

fun payload_len :: "payload \<Rightarrow> int" where
  "payload_len (Bytes bs) = int (length bs)"
| "payload_len (Workload n) = n"

fun posix_ok :: contract where
  "posix_ok _ (CRead _ n) r = (r_ret r = -1 \<or> 0 \<le> r_ret r \<and> r_ret r \<le> n \<and> int (length (r_data r)) = r_ret r)"
| "posix_ok _ (CRecv _ n _) r = (r_ret r = -1 \<or> 0 \<le> r_ret r \<and> r_ret r \<le> n)"
| "posix_ok _ (CWrite _ p) r = (r_ret r = -1 \<or> 0 \<le> r_ret r \<and> r_ret r \<le> payload_len p)"
| "posix_ok tr (CEpollWait epfd n _) r = (r_ret r = -1 \<or>
     0 \<le> r_ret r \<and> r_ret r \<le> n \<and> int (length (r_events r)) = r_ret r \<and> events_ok (watched epfd tr) (r_events r))"
| "posix_ok _ CClockGettime r = (0 \<le> tv_sec (r_time r) \<and> tv_sec (r_time r) < 2 ^ 63 \<and> 0 \<le> tv_nsec (r_time r) \<and> tv_nsec (r_time r) < 1000000000)"
| "posix_ok _ _ r = True"

lemma wp_sys_ok:
  assumes "answers_ok K w"
    and "\<not> watches c"
    and "\<And>r w'. K (w_trace w) c r \<Longrightarrow> answers_ok K w' \<Longrightarrow> quiet w w' \<Longrightarrow> w_trace w' = w_trace w @ [(c, r)] \<Longrightarrow> Q r w'"
  shows "wp (sys c w) Q"
proof (cases "sys c w")
  case (Ret r w')
  then show ?thesis
    using quietly_Ret_quiet [OF quiet_sys [OF assms(2)] Ret] assms(1)
    by (auto simp: sys_def Let_def answers_ok_def split: list.splits intro!: assms(3))
qed (auto simp: sys_def Let_def split: list.splits)

lemma sys_answer:
  assumes "sys c w = Ret r w'"
  shows "w_trace w' = w_trace w @ [(c, r)]" "answers_ok K w \<Longrightarrow> K (w_trace w) c r" "answers_ok K w \<Longrightarrow> answers_ok K w'"
  using assms by (auto simp: sys_def Let_def answers_ok_def split: list.splits)

section \<open>Building worlds for concrete runs\<close>

definition rusage0 :: rusage where
  "rusage0 = \<lparr>ru_utime = Timeval 0 0, ru_stime = Timeval 0 0, ru_maxrss = 0, ru_minflt = 0,
     ru_majflt = 0, ru_nvcsw = 0, ru_nivcsw = 0\<rparr>"

definition resp0 :: resp where
  "resp0 = \<lparr>r_ret = 0, r_errno = 0, r_data = [], r_time = Timespec 0 0, r_rusage = rusage0,
     r_events = [], r_addrs = [], r_lua = None\<rparr>"

definition world0 :: "kernel list \<Rightarrow> world" where
  "world0 ks = \<lparr>w_inputs = ks, w_trace = [], w_errno = 0, w_log = [], w_out = [],
     w_time_start = Timespec 0 0, w_rusage_start = rusage0\<rparr>"

text \<open>
  Kernel behaviours: one that answers the expected call and fails every other, and one that also
  refuses to break the contract.
\<close>

definition answer :: "call \<Rightarrow> resp \<Rightarrow> kernel" where
  "answer c r tr c' = (if c' = c then r else resp0\<lparr>r_ret := -1\<rparr>)"

definition honestly :: "contract \<Rightarrow> kernel \<Rightarrow> kernel" where
  "honestly K k tr c = (if K tr c (k tr c) then k tr c else resp0\<lparr>r_ret := -1\<rparr>)"

lemma answer_same [simp]: "answer c r tr c = r"
  by (simp add: answer_def)

lemma failing_posix_ok: "posix_ok tr c (resp0\<lparr>r_ret := -1\<rparr>)"
  by (cases "(tr, c, resp0)" rule: posix_ok.cases) (auto simp: resp0_def)

lemma honestly_posix_ok: "posix_ok tr c (honestly posix_ok k tr c)"
  by (simp add: honestly_def failing_posix_ok)

lemma world0_simps [simp]:
  "w_inputs (world0 ks) = ks" "w_trace (world0 ks) = []" "w_errno (world0 ks) = 0"
  "w_log (world0 ks) = []" "w_out (world0 ks) = []" "w_time_start (world0 ks) = Timespec 0 0"
  "w_rusage_start (world0 ks) = rusage0"
  by (simp_all add: world0_def)

lemma answer_posix_ok: "posix_ok tr c r \<Longrightarrow> posix_ok tr c' (answer c r tr c')"
  by (simp add: answer_def failing_posix_ok)

lemma answers_ok_Nil [simp]: "w_inputs w = [] \<Longrightarrow> answers_ok K w"
  by (simp add: answers_ok_def)

end
