(* ===== verification/Percentiles.thy ===== *)
theory Percentiles
  imports World
begin

text \<open>
  \<open>percentiles.c\<close>: the \<open>--percentiles\<close> option, a set of chosen percentiles kept in an array of 101
  booleans, parsed with \<open>strtol\<close> and printed as a comma-separated list.
\<close>

section \<open>Decimal numbers in C strings\<close>

definition char_code :: "char \<Rightarrow> nat" where "char_code c = of_char c"

definition is_space :: "char \<Rightarrow> bool" where
  "is_space c \<longleftrightarrow> char_code c = 32 \<or> 9 \<le> char_code c \<and> char_code c \<le> 13"

definition is_digit :: "char \<Rightarrow> bool" where
  "is_digit c \<longleftrightarrow> 48 \<le> char_code c \<and> char_code c \<le> 57"

definition digit_value :: "char \<Rightarrow> int" where
  "digit_value c = int (char_code c) - 48"

abbreviation (input) ERANGE :: int where "ERANGE \<equiv> 34"

definition LONG_MAX :: int where "LONG_MAX = 2 ^ 63 - 1"
definition LONG_MIN :: int where "LONG_MIN = - (2 ^ 63)"

definition split_sign :: "string \<Rightarrow> bool \<times> string" where
  "split_sign s = (case s of
       [] \<Rightarrow> (False, [])
     | c # cs \<Rightarrow> if c = CHR ''-'' then (True, cs) else if c = CHR ''+'' then (False, cs) else (False, s))"

text \<open>
  \<open>strtol(arg, &endptr, 10)\<close>: value, whether \<open>errno\<close> became \<open>ERANGE\<close>, and the string at \<open>endptr\<close>,
  which is the argument itself when there are no digits.
\<close>

definition strtol10 :: "string \<Rightarrow> int \<times> bool \<times> string" where
  "strtol10 s =
     (case split_sign (dropWhile is_space s) of (neg, t) \<Rightarrow>
        let ds = takeWhile is_digit t; rest = dropWhile is_digit t;
            m = foldl (\<lambda>n c. n * 10 + digit_value c) 0 ds;
            v = (if neg then - m else m)
        in if ds = [] then (0, False, s)
           else if v > LONG_MAX then (LONG_MAX, True, rest)
           else if v < LONG_MIN then (LONG_MIN, True, rest)
           else (v, False, rest))"

fun show_decimal :: "nat \<Rightarrow> string" where
  "show_decimal n = (if n < 10 then [char_of (n + 48)] else show_decimal (n div 10) @ [char_of (n mod 10 + 48)])"

declare show_decimal.simps [simp del]

section \<open>The option's value\<close>

record percentiles =
  chosen :: "bool list"

definition no_percentiles :: percentiles where
  "no_percentiles = \<lparr>chosen = replicate 101 False\<rparr>"

lemma dropWhile_shorter: "dropWhile P xs = y # ys \<Longrightarrow> length ys < length xs"
  by (metis dropWhile_eq_Cons_conv length_append less_add_same_cancel2 list.size(4) lessI
      less_le_trans le_add2 add.commute length_Cons)

lemma split_sign_le: "split_sign s = (neg, t) \<Longrightarrow> length t \<le> length s"
  by (cases s) (auto simp: split_sign_def split: if_splits)

lemma strtol10_rest_le: "strtol10 s = (v, e, rest) \<Longrightarrow> length rest \<le> length s"
proof -
  assume h: "strtol10 s = (v, e, rest)"
  obtain neg t where t: "split_sign (dropWhile is_space s) = (neg, t)" by fastforce
  have "length t \<le> length (dropWhile is_space s)"
    using t by (rule split_sign_le)
  also have "\<dots> \<le> length s" by (rule length_dropWhile_le)
  finally have "length (dropWhile is_digit t) \<le> length s"
    using length_dropWhile_le order_trans by blast
  with h t show ?thesis by (auto simp: strtol10_def Let_def split: if_splits)
qed

function parse_percentiles :: "string \<Rightarrow> percentiles \<Rightarrow> world \<Rightarrow> percentiles outcome" where
  "parse_percentiles arg p w =
     (case strtol10 arg of (val, erange, endptr) \<Rightarrow>
        let w = w\<lparr>w_errno := (if erange then ERANGE else 0)\<rparr>
        in if w_errno w = ERANGE \<and> (val = LONG_MAX \<or> val = LONG_MIN) \<or> w_errno w \<noteq> 0 \<and> val = 0
           then LOG_FATAL ''strtol'' w
           else if endptr = arg then Ret p w
           else if val < 0 \<or> val > 100 then LOG_FATAL ''%ld percentile doesn't exist'' w
           else if \<not> nat val < length (chosen p) then Fault w
           else let p = p\<lparr>chosen := (chosen p)[nat val := True]\<rparr>;
                    w = LOG_INFO ''%ld percentile is chosen'' w
                in case endptr of [] \<Rightarrow> Ret p w | _ # arg \<Rightarrow> parse_percentiles arg p w)"
  by pat_completeness auto
termination
  by (relation "measure (\<lambda>(arg, p, w). length arg)") (auto dest!: strtol10_rest_le [OF sym])

declare parse_percentiles.simps [simp del]

definition chosen_indices :: "percentiles \<Rightarrow> nat list" where
  "chosen_indices p = filter (\<lambda>i. chosen p ! i) [0..<101]"

definition percentiles_text :: "percentiles \<Rightarrow> string" where
  "percentiles_text p =
     (let s = concat (map (\<lambda>i. show_decimal i @ '','') (chosen_indices p))
      in if 0 < length s then butlast s else s)"

text \<open>
  \<open>print_percentiles\<close> builds the text in \<open>char s[400]\<close> by \<open>strcat\<close>; a longer text would leave it.
\<close>

definition print_percentiles :: "string \<Rightarrow> percentiles \<Rightarrow> world \<Rightarrow> unit outcome" where
  "print_percentiles name p w =
     (if length (concat (map (\<lambda>i. show_decimal i @ '','') (chosen_indices p))) + 1 > 400 then Fault w
      else Ret () (PRINT name (PStr (percentiles_text p)) w))"

section \<open>Parsing what was printed\<close>

lemma char_code_char_of [simp]: "n < 256 \<Longrightarrow> char_code (char_of n) = n"
  by (simp add: char_code_def)

lemma show_decimal_digits: "\<forall>c\<in>set (show_decimal n). is_digit c"
proof (induction n rule: show_decimal.induct)
  case (1 n)
  then show ?case
    by (subst show_decimal.simps) (auto simp: is_digit_def)
qed

lemma show_decimal_ne [simp]: "show_decimal n \<noteq> []"
  by (subst show_decimal.simps) simp

lemma int_div_mod_10: "int (n div 10) * 10 + int (n mod 10) = int n"
  by presburger

lemma show_decimal_value:
  "foldl (\<lambda>n c. n * 10 + digit_value c) 0 (show_decimal n) = int n"
proof (induction n rule: show_decimal.induct)
  case (1 n)
  then show ?case
    by (subst show_decimal.simps) (auto simp: digit_value_def int_div_mod_10)
qed

lemma is_digit_not_space: "is_digit c \<Longrightarrow> \<not> is_space c"
  by (auto simp: is_digit_def is_space_def)

lemma is_digit_not_sign: "is_digit c \<Longrightarrow> c \<noteq> CHR ''-'' \<and> c \<noteq> CHR ''+''"
  by (auto simp: is_digit_def char_code_def)

lemma strtol10_show_decimal:
  assumes "int n \<le> LONG_MAX" "rest = [] \<or> \<not> is_digit (hd rest)"
  shows "strtol10 (show_decimal n @ rest) = (int n, False, rest)"
proof -
  obtain c cs where cs: "show_decimal n = c # cs" by (cases "show_decimal n") auto
  then have c: "is_digit c" using show_decimal_digits [of n] by simp
  have "dropWhile is_space (show_decimal n @ rest) = show_decimal n @ rest"
    using c is_digit_not_space by (simp add: cs)
  moreover have "split_sign (show_decimal n @ rest) = (False, show_decimal n @ rest)"
    using c is_digit_not_sign by (simp add: cs split_sign_def)
  moreover have "takeWhile is_digit (show_decimal n @ rest) = show_decimal n"
    "dropWhile is_digit (show_decimal n @ rest) = rest"
    using show_decimal_digits [of n] assms(2) by (cases rest; simp)+
  moreover have "\<not> int n < LONG_MIN" by (simp add: LONG_MIN_def)
  ultimately show ?thesis
    using assms(1) by (simp add: strtol10_def show_decimal_value Let_def)
qed

lemma show_decimal_length: "n < 1000 \<Longrightarrow> length (show_decimal n) = (if n < 10 then 1 else if n < 100 then 2 else 3)"
  by (simp add: show_decimal.simps [of n] show_decimal.simps [of "n div 10"]
      show_decimal.simps [of "n div 10 div 10"]) linarith

fun comma_list :: "nat list \<Rightarrow> string" where
  "comma_list [] = []"
| "comma_list [n] = show_decimal n"
| "comma_list (n # m # ns) = show_decimal n @ '','' @ comma_list (m # ns)"

lemma comma_list_butlast: "ns \<noteq> [] \<Longrightarrow> concat (map (\<lambda>i. show_decimal i @ '','') ns) = comma_list ns @ '',''"
  by (induction ns rule: comma_list.induct) auto

lemma percentiles_text_eq: "percentiles_text p = comma_list (chosen_indices p)"
  by (cases "chosen_indices p = []")
    (auto simp: percentiles_text_def Let_def comma_list_butlast butlast_append)

lemma parse_comma_list:
  assumes "ns \<noteq> []" "\<forall>n\<in>set ns. n \<le> 100" "length (chosen p) = 101"
  shows "\<exists>w'. parse_percentiles (comma_list ns) p w
    = Ret (p\<lparr>chosen := fold (\<lambda>n ch. ch[n := True]) ns (chosen p)\<rparr>) w'"
  using assms
proof (induction ns arbitrary: p w rule: comma_list.induct)
  case 1
  then show ?case by simp
next
  case (2 n)
  from 2 have "strtol10 (show_decimal n @ []) = (int n, False, [])"
    by (intro strtol10_show_decimal) (auto simp: LONG_MAX_def)
  with 2 show ?case
    by (subst parse_percentiles.simps) (auto simp: Let_def dest: sym [of "[]"])
next
  case (3 n m ns)
  let ?rest = "'','' @ comma_list (m # ns)"
  from 3 have "strtol10 (show_decimal n @ ?rest) = (int n, False, ?rest)"
    by (intro strtol10_show_decimal) (auto simp: LONG_MAX_def is_digit_def char_code_def)
  moreover have "?rest \<noteq> show_decimal n @ ?rest" by simp
  ultimately show ?case
    using 3(2-) 3(1) [of "p\<lparr>chosen := (chosen p)[n := True]\<rparr>"
        "LOG_INFO ''%ld percentile is chosen'' (w\<lparr>w_errno := 0\<rparr>)"]
    by (subst parse_percentiles.simps) (auto simp: Let_def)
qed

lemma nth_set_True: "i < length ch \<Longrightarrow> ch[a := True] ! i = (ch ! i \<or> a = i)"
  by (cases "a = i") auto

lemma nth_fold_update:
  "i < length ch \<Longrightarrow> fold (\<lambda>n ch. ch[n := True]) ns ch ! i = (ch ! i \<or> i \<in> set ns)"
  by (induction ns arbitrary: ch) (auto simp: nth_set_True)

lemma length_fold_update [simp]: "length (fold (\<lambda>n ch. ch[n := True]) ns ch) = length ch"
  by (induction ns arbitrary: ch) auto

lemma set_chosen_indices: "set (chosen_indices p) = {i. i < 101 \<and> chosen p ! i}"
  by (auto simp: chosen_indices_def)

lemma length_concat_filter:
  "length (concat (map f (filter P xs))) \<le> length (concat (map f xs))"
  by (induction xs) auto

lemma percentiles_text_fits:
  "length (concat (map (\<lambda>i. show_decimal i @ '','') (chosen_indices p))) \<le> 294"
proof -
  have "length (concat (map (\<lambda>i. show_decimal i @ '','') [0..<101])) = 294" by code_simp
  then show ?thesis unfolding chosen_indices_def by (metis length_concat_filter)
qed

lemma strtol10_Nil [simp]: "strtol10 [] = (0, False, [])"
  by (simp add: strtol10_def split_sign_def)

text \<open>
  C15: printing the chosen percentiles and parsing the printed text again gives the same set, for
  every possible set, the empty one included; and the text always fits the 400-byte buffer it is
  built in.
\<close>

theorem percentiles_roundtrip:
  assumes "length (chosen p) = 101"
  shows "\<exists>w1 w2. print_percentiles name p w = Ret () w1
    \<and> w_out w1 = w_out w @ [(name, PStr (percentiles_text p))]
    \<and> parse_percentiles (percentiles_text p) no_percentiles w1 = Ret p w2"
proof -
  let ?w1 = "PRINT name (PStr (percentiles_text p)) w"
  let ?ch = "fold (\<lambda>n ch. ch[n := True]) (chosen_indices p) (replicate 101 False)"
  have print: "print_percentiles name p w = Ret () ?w1"
    using percentiles_text_fits [of p] by (simp add: print_percentiles_def)
  have "\<exists>w2. parse_percentiles (percentiles_text p) no_percentiles ?w1
      = Ret (no_percentiles\<lparr>chosen := ?ch\<rparr>) w2"
  proof (cases "chosen_indices p = []")
    case True
    then show ?thesis
      by (subst parse_percentiles.simps) (simp add: percentiles_text_eq no_percentiles_def Let_def)
  next
    case False
    then show ?thesis
      using parse_comma_list [of "chosen_indices p" no_percentiles ?w1] set_chosen_indices [of p]
      by (auto simp: percentiles_text_eq no_percentiles_def)
  qed
  moreover have "?ch = chosen p"
    by (rule nth_equalityI) (auto simp: assms nth_fold_update set_chosen_indices)
  ultimately show ?thesis
    using print by (auto simp: no_percentiles_def)
qed

theorem percentiles_roundtrip_witness:
  "\<exists>w1 w2. print_percentiles ''percentiles'' \<lparr>chosen = (replicate 101 False)[50 := True, 99 := True]\<rparr> (world0 []) = Ret () w1
    \<and> parse_percentiles ''50,99'' no_percentiles w1
      = Ret \<lparr>chosen = (replicate 101 False)[50 := True, 99 := True]\<rparr> w2"
proof -
  let ?p = "\<lparr>chosen = (replicate 101 False)[50 := True, 99 := True]\<rparr> :: percentiles"
  have "percentiles_text ?p = ''50,99''" by code_simp
  with percentiles_roundtrip [of ?p "''percentiles''" "world0 []"] show ?thesis by auto
qed

text \<open>
  C16: whatever the argument string, parsing returns or ends in \<open>LOG_FATAL\<close>, stores only inside the
  array of 101 flags, never unsets a percentile already chosen, and makes no call to the kernel.
\<close>

theorem parse_percentiles_safe:
  assumes "length (chosen p) = 101"
  shows "wp (parse_percentiles arg p w) (\<lambda>p' w'. length (chosen p') = 101
    \<and> (\<forall>i<101. chosen p ! i \<longrightarrow> chosen p' ! i) \<and> w_trace w' = w_trace w)
    \<and> (\<exists>p' w'. parse_percentiles arg p w = Ret p' w' \<or> parse_percentiles arg p w = Exit w')"
  using assms
proof (induction arg p w rule: parse_percentiles.induct)
  case (1 arg p w)
  obtain v e rest where st: "strtol10 arg = (v, e, rest)" by (cases "strtol10 arg") auto
  show ?case
  proof (cases "e \<and> (v = LONG_MAX \<or> v = LONG_MIN \<or> v = 0) \<or> rest = arg \<or> v < 0 \<or> v > 100 \<or> rest = []")
    case True
    with st 1(2) show ?thesis
      by (subst (1 2 3) parse_percentiles.simps)
        (auto simp: Let_def LOG_FATAL_def nth_set_True)
  next
    case False
    then obtain c arg' where r: "rest = c # arg'" by (cases rest) auto
    let ?p = "p\<lparr>chosen := (chosen p)[nat v := True]\<rparr>"
      and ?w = "LOG_INFO ''%ld percentile is chosen'' (w\<lparr>w_errno := (if e then ERANGE else 0)\<rparr>)"
    have eq: "parse_percentiles arg p w = parse_percentiles arg' ?p ?w"
      using False st 1(2) by (subst parse_percentiles.simps) (auto simp: Let_def r)
    from False st 1(2) have "wp (parse_percentiles arg' ?p ?w) (\<lambda>p' w'. length (chosen p') = 101
        \<and> (\<forall>i<101. chosen ?p ! i \<longrightarrow> chosen p' ! i) \<and> w_trace w' = w_trace ?w)
      \<and> (\<exists>p' w'. parse_percentiles arg' ?p ?w = Ret p' w' \<or> parse_percentiles arg' ?p ?w = Exit w')"
      by (intro 1(1) [OF st [symmetric] refl refl _ _ _ _ refl refl r]) auto
    then show ?thesis
      using 1(2) unfolding eq by (auto elim!: wp_mono simp: nth_set_True)
  qed
qed

theorem parse_percentiles_safe_witness:
  "wp (parse_percentiles ''7;101'' no_percentiles (world0 [])) (\<lambda>p' w'. length (chosen p') = 101)"
  using parse_percentiles_safe [of no_percentiles "''7;101''" "world0 []"]
  by (auto simp: no_percentiles_def elim!: wp_mono)

end
