(* ===== verification/Hexdump.thy ===== *)
theory Hexdump
  imports Prelude
begin

text \<open>
  \<open>hexdump.c\<close>: the dump of an unexpected control message, 16 bytes a row, into a caller's buffer.
  \<open>char\<close> is signed on the platforms the program builds for, so a byte is read as \<open>sint\<close>; a table
  index outside \<open>chr\<close>, a read past the input or a write past the output is \<open>OutOfBounds\<close>.
\<close>

section \<open>The routine\<close>

definition WIDTH :: nat where "WIDTH = 16"

definition row_size :: nat where \<comment> \<open>\<open>sizeof(row_buf)\<close>\<close>
  "row_size = WIDTH * 3 + WIDTH + 1"

datatype 'a checked = Done 'a | Null | OutOfBounds

definition chr_table :: string where "chr_table = ''0123456789abcdef''"

definition chr_at :: "int \<Rightarrow> char option" where
  "chr_at k = (if 0 \<le> k \<and> k < int (length chr_table) then Some (chr_table ! nat k) else None)"

definition is_print :: "int \<Rightarrow> bool" where
  "is_print c \<longleftrightarrow> 32 \<le> c \<and> c \<le> 126"

text \<open>One column of a row: the three characters at \<open>i * 3\<close> and the one at \<open>WIDTH * 3 + i\<close>.\<close>

definition hex_cell :: "byte list \<Rightarrow> nat \<Rightarrow> nat \<Rightarrow> (string \<times> char) option" where
  "hex_cell inp in_len k =
     (if k < in_len
      then if k < length inp
           then let c = sint (inp ! k)
                in case (chr_at (c_div c 16), chr_at (c_mod c 16)) of
                     (Some h, Some l) \<Rightarrow> Some ([h, l, CHR '' ''], if is_print c then char_of (nat c) else CHR ''.'')
                   | _ \<Rightarrow> None
           else None
      else Some (''   '', CHR '' ''))"

fun hex_cells :: "byte list \<Rightarrow> nat \<Rightarrow> nat list \<Rightarrow> (string \<times> string) option" where
  "hex_cells inp in_len [] = Some ([], [])"
| "hex_cells inp in_len (k # ks) =
     (case hex_cell inp in_len k of
        None \<Rightarrow> None
      | Some (h, a) \<Rightarrow> map_option (\<lambda>(hs, as). (h @ hs, a # as)) (hex_cells inp in_len ks))"

definition hex_row :: "byte list \<Rightarrow> nat \<Rightarrow> nat \<Rightarrow> string option" where
  "hex_row inp in_len row =
     map_option (\<lambda>(hs, as). hs @ as @ [char_of (10 :: nat)])
       (hex_cells inp in_len (map (\<lambda>i. row * WIDTH + i) [0..<WIDTH]))"

definition num_rows :: "nat \<Rightarrow> nat" where
  "num_rows in_len = (in_len + WIDTH - 1) div WIDTH"

fun hex_rows :: "byte list \<Rightarrow> nat \<Rightarrow> nat \<Rightarrow> nat list \<Rightarrow> string \<Rightarrow> string checked" where
  "hex_rows inp in_len out_len [] out = Done out"
| "hex_rows inp in_len out_len (row # rows) out =
     (case hex_row inp in_len row of
        None \<Rightarrow> OutOfBounds
      | Some row_buf \<Rightarrow>
          if row_size * (row + 1) \<ge> out_len then Null
          else hex_rows inp in_len out_len rows (out @ row_buf))"

definition hexdump :: "byte list \<Rightarrow> nat \<Rightarrow> nat \<Rightarrow> string checked" where
  "hexdump inp in_len out_len =
     (case hex_rows inp in_len out_len [0..<num_rows in_len] [] of
        Done out \<Rightarrow> if row_size * num_rows in_len < out_len then Done out else OutOfBounds
      | r \<Rightarrow> r)"

section \<open>Lemmas\<close>

lemma mod_256_cases: "0 \<le> u \<Longrightarrow> u < 256 \<Longrightarrow> (u + 128) mod 256 - 128 = (if u < 128 then u else u - 256)"
  for u :: int
proof -
  assume u: "0 \<le> u" "u < 256"
  have "(u + 128) mod 256 = u - 128" if "\<not> u < 128"
    using mod_pos_pos_trivial [of "u - 128" 256] mod_add_self2 [of "u - 128" 256] u that
    by (simp add: add.commute)
  with u show ?thesis by (simp add: mod_pos_pos_trivial)
qed

lemma nat_nibbles: "0 \<le> u \<Longrightarrow> nat (u div 16) * 16 + nat (u mod 16) = nat u" for u :: int
  by (simp add: nat_div_distrib nat_mod_distrib)

lemma sint_byte: "sint (b :: byte) = (if uint b < 128 then uint b else uint b - 256)"
proof -
  have "0 \<le> uint b" "uint b < 256" using uint_bounded [of b] by auto
  from mod_256_cases [OF this] show ?thesis
    by (simp add: sint_uint signed_take_bit_eq_take_bit_shift take_bit_eq_mod)
qed

lemma chr_at_nibble: "0 \<le> k \<Longrightarrow> k < 16 \<Longrightarrow> chr_at k = Some (chr_table ! nat k)"
  by (simp add: chr_at_def chr_table_def)

definition hex_digits :: "byte \<Rightarrow> string" where
  "hex_digits b = [chr_table ! nat (uint b div 16), chr_table ! nat (uint b mod 16), CHR '' '']"

definition ascii_column :: "byte \<Rightarrow> char" where
  "ascii_column b = (if is_print (uint b) then char_of (nat (uint b)) else CHR ''.'')"

lemma hex_cell_ascii:
  assumes "k < in_len" "k < length inp" "uint (inp ! k) < 128"
  shows "hex_cell inp in_len k = Some (hex_digits (inp ! k), ascii_column (inp ! k))"
proof -
  have nonneg: "0 \<le> uint (inp ! k)" by simp
  moreover have "chr_at (uint (inp ! k) div 16) = Some (chr_table ! nat (uint (inp ! k) div 16))"
    "chr_at (uint (inp ! k) mod 16) = Some (chr_table ! nat (uint (inp ! k) mod 16))"
    using assms(3) nonneg by (auto intro!: chr_at_nibble simp: pos_imp_zdiv_nonneg_iff)
  ultimately show ?thesis
    using assms by (simp add: hex_cell_def Let_def sint_byte c_div_16 c_mod_16 hex_digits_def ascii_column_def)
qed

text \<open>A byte of 128 or more is a negative \<open>char\<close>, whose quotient or remainder is negative too.\<close>

lemma hex_cell_high:
  assumes "k < in_len" "k < length inp" "128 \<le> uint (inp ! k)"
  shows "hex_cell inp in_len k = None"
proof -
  let ?c = "sint (inp ! k)"
  have neg: "?c < 0"
    using assms(3) uint_bounded [of "inp ! k"] by (simp add: sint_byte)
  have "c_div ?c 16 < 0 \<or> c_mod ?c 16 < 0"
  proof (cases "- ?c < 16")
    case True
    then show ?thesis using neg by (simp add: c_mod_def c_div_def)
  next
    case False
    then have "0 < - ?c div 16" by (simp add: pos_imp_zdiv_pos_iff)
    with neg show ?thesis by (simp add: c_div_def)
  qed
  then show ?thesis
    using assms by (auto simp: hex_cell_def Let_def chr_at_def split: option.split)
qed

lemma hex_cells_Some:
  "(\<forall>k\<in>set ks. hex_cell inp n k = Some (f k, g k)) \<Longrightarrow>
   hex_cells inp n ks = Some (concat (map f ks), map g ks)"
  by (induction ks) auto

lemma hex_cells_None: "\<exists>k\<in>set ks. hex_cell inp n k = None \<Longrightarrow> hex_cells inp n ks = None"
  by (induction ks) (auto split: option.split)

lemma nth_concat_uniform:
  "(\<forall>xs\<in>set xss. length xs = m) \<Longrightarrow> r < length xss \<Longrightarrow> j < m \<Longrightarrow> concat xss ! (r * m + j) = xss ! r ! j"
proof (induction xss arbitrary: r)
  case (Cons xs xss)
  then show ?case by (cases r) (auto simp: nth_append add.assoc)
qed simp

lemma length_concat_uniform: "(\<forall>xs\<in>set xss. length xs = m) \<Longrightarrow> length (concat xss) = length xss * m"
  by (induction xss) auto

definition row_text :: "byte list \<Rightarrow> nat \<Rightarrow> string" where
  "row_text inp row =
     (let ks = map (\<lambda>i. row * WIDTH + i) [0..<WIDTH]
      in concat (map (\<lambda>k. if k < length inp then hex_digits (inp ! k) else ''   '') ks)
         @ map (\<lambda>k. if k < length inp then ascii_column (inp ! k) else CHR '' '') ks
         @ [char_of (10 :: nat)])"

lemma length_row_text [simp]: "length (row_text inp row) = row_size"
proof -
  have "length (concat (map (\<lambda>k. if k < length inp then hex_digits (inp ! k) else ''   '')
      (map (\<lambda>i. row * WIDTH + i) [0..<WIDTH]))) = WIDTH * 3"
    by (subst length_concat_uniform [where m = 3]) (auto simp: hex_digits_def)
  then show ?thesis by (simp add: row_text_def Let_def row_size_def)
qed

lemma hex_row_ascii:
  assumes "\<forall>b\<in>set inp. uint b < 128"
  shows "hex_row inp (length inp) row = Some (row_text inp row)"
proof -
  let ?ks = "map (\<lambda>i. row * WIDTH + i) [0..<WIDTH]"
  have "hex_cell inp (length inp) k
      = Some (if k < length inp then hex_digits (inp ! k) else ''   '',
              if k < length inp then ascii_column (inp ! k) else CHR '' '')" for k
    using hex_cell_ascii [of k "length inp" inp] assms by (auto simp: hex_cell_def)
  then have "hex_cells inp (length inp) ?ks
      = Some (concat (map (\<lambda>k. if k < length inp then hex_digits (inp ! k) else ''   '') ?ks),
              map (\<lambda>k. if k < length inp then ascii_column (inp ! k) else CHR '' '') ?ks)"
    by (intro hex_cells_Some) blast
  then show ?thesis by (simp only: hex_row_def row_text_def Let_def) simp
qed

lemma hex_rows_Done:
  "(\<forall>row\<in>set rows. hex_row inp n row = Some (f row) \<and> row_size * (row + 1) < out_len) \<Longrightarrow>
   hex_rows inp n out_len rows out = Done (out @ concat (map f rows))"
  by (induction rows arbitrary: out) auto

lemma hexdump_ascii:
  assumes "\<forall>b\<in>set inp. uint b < 128" "row_size * num_rows (length inp) < out_len"
  shows "hexdump inp (length inp) out_len
    = Done (concat (map (row_text inp) [0..<num_rows (length inp)]))"
proof -
  have "row_size * (row + 1) < out_len" if "row < num_rows (length inp)" for row
  proof -
    have "row_size * (row + 1) \<le> row_size * num_rows (length inp)"
      using that by (intro mult_le_mono2) simp
    with assms(2) show ?thesis by simp
  qed
  then have "hex_rows inp (length inp) out_len [0..<num_rows (length inp)] []
      = Done ([] @ concat (map (row_text inp) [0..<num_rows (length inp)]))"
    using hex_row_ascii [OF assms(1)] by (intro hex_rows_Done) auto
  with assms(2) show ?thesis by (simp add: hexdump_def)
qed

definition hex_value :: "char \<Rightarrow> nat" where
  "hex_value c = (let k = of_char c in if 97 \<le> k then k - 87 else k - 48)"

lemma hex_value_chr_table: "k < 16 \<Longrightarrow> hex_value (chr_table ! k) = k"
proof -
  have "list_all (\<lambda>k. hex_value (chr_table ! k) = k) [0..<16]" by code_simp
  then show "k < 16 \<Longrightarrow> hex_value (chr_table ! k) = k" by (auto simp: list_all_iff)
qed

lemma index_in_rows: "i < n \<Longrightarrow> i div WIDTH < num_rows n"
  by (auto simp: num_rows_def WIDTH_def)

lemma row_text_digit:
  assumes "i < length inp" "j < 2"
  shows "row_text inp (i div WIDTH) ! (i mod WIDTH * 3 + j) = hex_digits (inp ! i) ! j"
proof -
  let ?f = "\<lambda>k. if k < length inp then hex_digits (inp ! k) else ''   ''"
  let ?ks = "map (\<lambda>c. i div WIDTH * WIDTH + c) [0..<WIDTH]"
  have col: "i mod WIDTH < WIDTH" by (simp add: WIDTH_def)
  have len: "length (concat (map ?f ?ks)) = WIDTH * 3"
    by (subst length_concat_uniform [where m = 3]) (auto simp: hex_digits_def)
  have "i mod WIDTH * 3 + j < WIDTH * 3" using assms(2) col by (simp add: WIDTH_def)
  then have "row_text inp (i div WIDTH) ! (i mod WIDTH * 3 + j) = concat (map ?f ?ks) ! (i mod WIDTH * 3 + j)"
    using len by (simp add: row_text_def Let_def nth_append)
  also have "\<dots> = map ?f ?ks ! (i mod WIDTH) ! j"
    using assms(2) col by (intro nth_concat_uniform) (auto simp: hex_digits_def)
  also have "\<dots> = hex_digits (inp ! i) ! j"
    using assms(1) col by simp
  finally show ?thesis .
qed

lemma dumped_byte:
  fixes inp :: "byte list"
  assumes i: "i < length inp"
  defines "out \<equiv> concat (map (row_text inp) [0..<num_rows (length inp)])"
    and "pos \<equiv> 65 * (i div 16) + 3 * (i mod 16)"
  shows "hex_value (out ! pos) * 16 + hex_value (out ! (pos + 1)) = unat (inp ! i)"
proof -
  let ?rows = "map (row_text inp) [0..<num_rows (length inp)]"
  have at: "out ! (pos + j) = hex_digits (inp ! i) ! j" if j: "j < 2" for j
  proof -
    have "i mod 16 * 3 + j < row_size" using j by (simp add: row_size_def WIDTH_def)
    then have "concat ?rows ! (i div 16 * row_size + (i mod 16 * 3 + j)) = ?rows ! (i div 16) ! (i mod 16 * 3 + j)"
      using index_in_rows [OF i] by (intro nth_concat_uniform) (auto simp: WIDTH_def)
    also have "\<dots> = hex_digits (inp ! i) ! j"
      using row_text_digit [OF i j] index_in_rows [OF i] by (simp add: WIDTH_def)
    also have "i div 16 * row_size + (i mod 16 * 3 + j) = pos + j"
      by (simp add: row_size_def WIDTH_def pos_def)
    finally show ?thesis by (simp add: out_def)
  qed
  have u: "0 \<le> uint (inp ! i)" "uint (inp ! i) < 256" using uint_bounded [of "inp ! i"] by auto
  have "out ! pos = chr_table ! nat (uint (inp ! i) div 16)"
    "out ! (pos + 1) = chr_table ! nat (uint (inp ! i) mod 16)"
    using at [of 0] at [of 1] by (simp_all add: hex_digits_def del: One_nat_def)
  moreover have "hex_value (chr_table ! nat (uint (inp ! i) div 16)) = nat (uint (inp ! i) div 16)"
    "hex_value (chr_table ! nat (uint (inp ! i) mod 16)) = nat (uint (inp ! i) mod 16)"
    using u by (auto intro!: hex_value_chr_table simp: nat_less_iff)
  ultimately show ?thesis
    using nat_nibbles [OF u(1)] by (simp only: unat_eq_nat_uint)
qed

section \<open>Properties\<close>

text \<open>
  C17: the dump of 7-bit bytes into a large enough buffer succeeds, has 65 characters a row, and
  loses nothing: from the two digits at the documented place of every byte its value is read back.
\<close>

theorem hexdump_readable:
  assumes "\<forall>b\<in>set inp. uint b < 128" "row_size * num_rows (length inp) < out_len"
  shows "\<exists>out. hexdump inp (length inp) out_len = Done out
    \<and> length out = 65 * ((length inp + 15) div 16)
    \<and> (\<forall>i<length inp. let pos = 65 * (i div 16) + 3 * (i mod 16)
         in hex_value (out ! pos) * 16 + hex_value (out ! (pos + 1)) = unat (inp ! i))"
proof -
  let ?rows = "map (row_text inp) [0..<num_rows (length inp)]"
  have uniform: "\<forall>r\<in>set ?rows. length r = row_size" by simp
  have "length (concat ?rows) = 65 * ((length inp + 15) div 16)"
    using length_concat_uniform [OF uniform] by (simp add: row_size_def num_rows_def WIDTH_def)
  moreover have "hex_value (concat ?rows ! (65 * (i div 16) + 3 * (i mod 16))) * 16
      + hex_value (concat ?rows ! (65 * (i div 16) + 3 * (i mod 16) + 1)) = unat (inp ! i)"
    if i: "i < length inp" for i
    using dumped_byte [OF i] by (simp add: num_rows_def)
  ultimately show ?thesis
    using hexdump_ascii [OF assms] by (auto simp: Let_def)
qed

theorem hexdump_readable_witness:
  "\<exists>out. hexdump [72, 105, 10] 3 8192 = Done out \<and> length out = 65"
  using hexdump_readable [of "[72, 105, 10]" 8192]
  by (auto simp: row_size_def num_rows_def WIDTH_def numeral_3_eq_3)

text \<open>Only the first \<open>in_len\<close> bytes of the buffer are read.\<close>

lemma hexdump_prefix: "hexdump (inp @ rest) (length inp) out_len = hexdump inp (length inp) out_len"
proof -
  have cell: "hex_cell (inp @ rest) (length inp) k = hex_cell inp (length inp) k" for k
    by (simp add: hex_cell_def nth_append)
  have cells: "hex_cells (inp @ rest) (length inp) ks = hex_cells inp (length inp) ks" for ks
    by (induction ks) (simp_all add: cell split: option.split)
  have "hex_rows (inp @ rest) (length inp) out_len rows out = hex_rows inp (length inp) out_len rows out" for rows out
    by (induction rows arbitrary: out) (simp_all add: hex_row_def cells split: option.split)
  then show ?thesis by (simp add: hexdump_def)
qed

lemma hexdump_high:
  assumes "i < length inp" "i < WIDTH" "128 \<le> uint (inp ! i)"
  shows "hexdump inp (length inp) out_len = OutOfBounds"
proof -
  have "hex_cell inp (length inp) i = None"
    using assms by (intro hex_cell_high) auto
  then have "hex_cells inp (length inp) (map (\<lambda>k. 0 * WIDTH + k) [0..<WIDTH]) = None"
    using assms(2) by (intro hex_cells_None) auto
  then have "hex_row inp (length inp) 0 = None" by (simp add: hex_row_def)
  moreover have "[0..<num_rows (length inp)] = 0 # [1..<num_rows (length inp)]"
    using index_in_rows [OF assms(1)] by (simp add: upt_rec)
  ultimately show ?thesis by (simp add: hexdump_def)
qed

text \<open>
  a byte of 128 or more in a first row that fits is not dumped: the index into the digit table
  is negative, so the routine reads outside it. The control plane passes bytes of any connection.
\<close>

theorem hexdump_high_byte:
  assumes "i < length inp" "i < WIDTH" "128 \<le> uint (inp ! i)"
  shows "hexdump inp (length inp) out_len = OutOfBounds"
  using assms by (rule hexdump_high)

theorem hexdump_high_byte_witness: "hexdump [255] 1 8192 = OutOfBounds"
  using hexdump_high_byte [of 0 "[255]" 8192] by (simp add: WIDTH_def)

end
