(* ===== verification/State.thy ===== *)
theory State
  imports World Numlist Percentiles
begin

text \<open>
  The data model of a worker: the structures of \<open>lib.h\<close>, \<open>flow.h\<close>, \<open>sample.h\<close>, \<open>interval.c\<close>,
  \<open>script.h\<close> and \<open>thread.h\<close>. Flows live on a heap of the thread that allocated them, addressed by
  the pointer that \<open>epoll_event.data.ptr\<close> carries; a freed or never allocated pointer is absent.
  Fields every thread only reads (options, callbacks) are arguments of the operations instead.
\<close>

section \<open>Options\<close>

record options =
  magic :: u32
  min_rto :: int
  maxevents :: int
  num_flows :: int
  num_threads :: int
  num_clients :: int
  test_length :: int
  buffer_size :: int
  listen_backlog :: int
  suicide_length :: int
  ipv4 :: bool
  ipv6 :: bool
  client :: bool
  debug :: bool
  dry_run :: bool
  pin_cpu :: bool
  reuseaddr :: bool
  reuseport :: bool
  opt_logtostderr :: bool
  nonblocking :: bool
  interval_secs :: double
  max_pacing_rate :: int
  local_host :: "string option"
  host :: "string option"
  control_port :: string
  port :: string
  all_samples :: "string option"
  script :: "string option"
  enable_read :: bool
  enable_write :: bool
  edge_trigger :: bool
  delay :: nat
  request_size :: int
  response_size :: int
  opt_percentiles :: percentiles

text \<open>\<open>struct options opts = {0}\<close>; NULL for a string that is never read before it is set is the empty one.\<close>

definition options0 :: options where
  "options0 = \<lparr>magic = 0, min_rto = 0, maxevents = 0, num_flows = 0, num_threads = 0, num_clients = 0,
     test_length = 0, buffer_size = 0, listen_backlog = 0, suicide_length = 0, ipv4 = False, ipv6 = False,
     client = False, debug = False, dry_run = False, pin_cpu = False, reuseaddr = False, reuseport = False,
     opt_logtostderr = False, nonblocking = False, interval_secs = Fin 0, max_pacing_rate = 0,
     local_host = None, host = None, control_port = [], port = [], all_samples = None, script = None,
     enable_read = False, enable_write = False, edge_trigger = False, delay = 0, request_size = 0,
     response_size = 0, opt_percentiles = no_percentiles\<rparr>"

section \<open>Flows and samples\<close>

record interval =
  itv_seconds :: double
  itv_last_time :: timespec

record flow =
  f_fd :: fd
  f_id :: int
  f_bytes_read :: int
  f_bytes_to_read :: int
  f_bytes_to_write :: int
  f_transactions :: u64
  f_write_time :: timespec
  f_latency :: "numlist option" \<comment> \<open>\<open>None\<close> for NULL\<close>
  f_itv :: "interval option"

record sample =
  s_tid :: int
  s_flow_id :: int
  s_bytes_read :: int
  s_transactions :: u64
  s_latency :: "numlist option"
  s_timestamp :: timespec
  s_rusage :: rusage

section \<open>Script hooks\<close>

datatype run_mode = CLIENT | SERVER

record script_engine =
  se_function :: "hook_id \<Rightarrow> int option" \<comment> \<open>\<open>hooks[hid].function\<close>, the serialised function; \<open>None\<close> for NULL\<close>
  se_run_mode :: run_mode
  se_collectors :: "nat list" \<comment> \<open>the identities of the registered collectors, newest first\<close>

record script_slave =
  ss_se :: script_engine
  ss_hook_key :: "hook_id \<Rightarrow> bool" \<comment> \<open>\<open>hook_keys[hid]\<close> is set: the hook is loaded\<close>

section \<open>Threads\<close>

record thread =
  t_index :: int
  t_stop_efd :: fd
  t_ai :: addrinfo
  t_samples :: "sample list" \<comment> \<open>the chain through \<open>next\<close>, newest first\<close>
  t_transactions :: u64
  t_next_flow_id :: int
  t_stop :: bool
  t_script :: script_slave
  t_flows :: "ptr \<Rightarrow> flow option"
  t_next_ptr :: ptr

text \<open>A structure fresh from \<open>calloc\<close>.\<close>

definition flow_calloc :: flow where
  "flow_calloc = \<lparr>f_fd = 0, f_id = 0, f_bytes_read = 0, f_bytes_to_read = 0, f_bytes_to_write = 0,
     f_transactions = 0, f_write_time = Timespec 0 0, f_latency = None, f_itv = None\<rparr>"

definition alloc_flow :: "flow \<Rightarrow> thread \<Rightarrow> ptr \<times> thread" where
  "alloc_flow f t = (t_next_ptr t,
     t\<lparr>t_flows := (t_flows t)(t_next_ptr t \<mapsto> f), t_next_ptr := t_next_ptr t + 1\<rparr>)"

definition put_flow :: "ptr \<Rightarrow> flow \<Rightarrow> thread \<Rightarrow> thread" where
  "put_flow p f t = t\<lparr>t_flows := (t_flows t)(p \<mapsto> f)\<rparr>"

definition free_flow :: "ptr \<Rightarrow> thread \<Rightarrow> thread" where
  "free_flow p t = t\<lparr>t_flows := (t_flows t)(p := None)\<rparr>"

text \<open>Dereferencing a flow pointer.\<close>

definition with_flow :: "ptr \<Rightarrow> thread \<Rightarrow> world \<Rightarrow> (flow \<Rightarrow> 'a outcome) \<Rightarrow> 'a outcome" where
  "with_flow p t w k = (case t_flows t p of None \<Rightarrow> Fault w | Some f \<Rightarrow> k f)"

lemma with_flow_Some [simp]: "t_flows t p = Some f \<Longrightarrow> with_flow p t w k = k f"
  by (simp add: with_flow_def)

lemma wp_with_flow: "wp (with_flow p t w k) Q \<longleftrightarrow> (\<exists>f. t_flows t p = Some f \<and> wp (k f) Q)"
  by (simp add: with_flow_def split: option.split)

lemma with_flow_cong [fundef_cong]:
  "p = p' \<Longrightarrow> t = t' \<Longrightarrow> w = w' \<Longrightarrow> (\<And>f. t_flows t' p' = Some f \<Longrightarrow> k f = k' f) \<Longrightarrow>
   with_flow p t w k = with_flow p' t' w' k'"
  by (auto simp: with_flow_def split: option.split)

lemma extends_with_flow [ext_intros]:
  "(\<And>f. t_flows t p = Some f \<Longrightarrow> extends w (final (k f))) \<Longrightarrow> extends w (final (with_flow p t w k))"
  by (auto simp: with_flow_def split: option.split)

lemma put_flow_simps [simp]:
  "t_index (put_flow p f t) = t_index t" "t_stop_efd (put_flow p f t) = t_stop_efd t"
  "t_ai (put_flow p f t) = t_ai t" "t_samples (put_flow p f t) = t_samples t"
  "t_transactions (put_flow p f t) = t_transactions t" "t_stop (put_flow p f t) = t_stop t"
  "t_next_flow_id (put_flow p f t) = t_next_flow_id t" "t_script (put_flow p f t) = t_script t"
  "t_flows (put_flow p f t) = (t_flows t)(p \<mapsto> f)" "t_next_ptr (put_flow p f t) = t_next_ptr t"
  by (simp_all add: put_flow_def)

lemma free_flow_simps [simp]:
  "t_index (free_flow p t) = t_index t" "t_stop_efd (free_flow p t) = t_stop_efd t"
  "t_ai (free_flow p t) = t_ai t" "t_samples (free_flow p t) = t_samples t"
  "t_transactions (free_flow p t) = t_transactions t" "t_stop (free_flow p t) = t_stop t"
  "t_next_flow_id (free_flow p t) = t_next_flow_id t" "t_script (free_flow p t) = t_script t"
  "t_flows (free_flow p t) = (t_flows t)(p := None)" "t_next_ptr (free_flow p t) = t_next_ptr t"
  by (simp_all add: free_flow_def)

section \<open>A concrete thread\<close>

definition slave0 :: script_slave where
  "slave0 = \<lparr>ss_se = \<lparr>se_function = \<lambda>_. None, se_run_mode = CLIENT, se_collectors = []\<rparr>, ss_hook_key = \<lambda>_. False\<rparr>"

definition addrinfo0 :: addrinfo where
  "addrinfo0 = \<lparr>ai_flags = 0, ai_family = AF_INET, ai_socktype = SOCK_STREAM, ai_protocol = IPPROTO_TCP,
     ai_addrlen = 16, ai_addr = \<lparr>sa_family = AF_INET, sa_port = 0, sa_host = []\<rparr>\<rparr>"

definition thread0 :: thread where
  "thread0 = \<lparr>t_index = 0, t_stop_efd = 3, t_ai = addrinfo0, t_samples = [], t_transactions = 0,
     t_next_flow_id = 0, t_stop = False, t_script = slave0, t_flows = Map.empty, t_next_ptr = 0\<rparr>"

end
