(* ===== verification/Script.thy ===== *)
theory Script
  imports State
begin

text \<open>
  \<open>script.c\<close>: registering Lua functions as hooks in the engine, running them from a worker's slave,
  and running the user's script, whose call of \<open>run()\<close> starts the workers. The Lua interpreter is
  outside: checking an argument's type, serialising, loading and calling a function, and emptying and reading
  a collector are calls to the environment whose answers are arbitrary (theory \<open>Serialize\<close> has the code of
  \<open>serialize.c\<close> behind them), and the calls a script makes back are a list.
\<close>

section \<open>Error codes\<close>

definition SCRIPT_HOOK_ERROR_BASE :: int where "SCRIPT_HOOK_ERROR_BASE = 256"

definition EHOOKEMPTY :: int where "EHOOKEMPTY = SCRIPT_HOOK_ERROR_BASE"
definition EHOOKRETVAL :: int where "EHOOKRETVAL = SCRIPT_HOOK_ERROR_BASE + 1"
definition EHOOKRUN :: int where "EHOOKRUN = SCRIPT_HOOK_ERROR_BASE + 2"
definition EHOOKSYNTAX :: int where "EHOOKSYNTAX = SCRIPT_HOOK_ERROR_BASE + 3"
definition EHOOKMEM :: int where "EHOOKMEM = SCRIPT_HOOK_ERROR_BASE + 4"
definition EHOOKERR :: int where "EHOOKERR = SCRIPT_HOOK_ERROR_BASE + 5"

lemmas hook_error_defs = SCRIPT_HOOK_ERROR_BASE_def EHOOKEMPTY_def EHOOKRETVAL_def EHOOKRUN_def
  EHOOKSYNTAX_def EHOOKMEM_def EHOOKERR_def

abbreviation (input) LUA_ERRRUN :: int where "LUA_ERRRUN \<equiv> 2"
abbreviation (input) LUA_ERRSYNTAX :: int where "LUA_ERRSYNTAX \<equiv> 3"
abbreviation (input) LUA_ERRMEM :: int where "LUA_ERRMEM \<equiv> 4"
abbreviation (input) LUA_ERRERR :: int where "LUA_ERRERR \<equiv> 5"

text \<open>The assertion of \<open>errno_lua\<close> is the \<open>None\<close> branch.\<close>

definition errno_lua :: "int \<Rightarrow> int option" where
  "errno_lua err =
     (if err = LUA_ERRRUN \<or> err = LUA_ERRSYNTAX \<or> err = LUA_ERRMEM \<or> err = LUA_ERRERR
      then Some (SCRIPT_HOOK_ERROR_BASE + err) else None)"

definition script_strerror :: "int \<Rightarrow> string" where
  "script_strerror errnum =
     (if errnum = EHOOKEMPTY then ''No hook to invoke''
      else if errnum = EHOOKRETVAL then ''No return value from hook''
      else if errnum = EHOOKRUN then ''Hook runtime error''
      else if errnum = EHOOKSYNTAX then ''Hook syntax error''
      else if errnum = EHOOKMEM then ''Hook memory allocation error''
      else if errnum = EHOOKERR then ''Hook error handler error''
      else ''Unkown script error'')"

section \<open>Registering hooks\<close>

text \<open>
  \<open>luaL_checktype\<close> does not return if the argument has another type: it raises an error in the script, and
  the engine is as it was.
\<close>

definition luaL_checktype :: "string \<Rightarrow> 'a \<Rightarrow> world \<Rightarrow> (world \<Rightarrow> 'a outcome) \<Rightarrow> 'a outcome" where
  "luaL_checktype type unchanged w k =
     obind (sys (CLuaChecktype type) w) (\<lambda>r w. if r_ret r \<noteq> 0 then Ret unchanged w else k w)"

text \<open>
  \<open>serialize_function\<close>: the answer is the serialised function; a value that the code asserts not to find is
  \<open>None\<close>, a function without a dump is fatal.
\<close>

definition serialize_hook :: "hook_id \<Rightarrow> world \<Rightarrow> int outcome" where
  "serialize_hook hid w =
     obind (sys (CLuaSerialize hid) w) (\<lambda>r w.
       if r_ret r \<noteq> 0 then LOG_FATAL ''lua_dump: %s'' w
       else case r_lua r of None \<Rightarrow> Fault w | Some sf \<Rightarrow> Ret sf w)"

definition store_hook :: "script_engine \<Rightarrow> run_mode \<Rightarrow> hook_id \<Rightarrow> world \<Rightarrow> script_engine outcome" where
  "store_hook se mode hid w =
     luaL_checktype ''function'' se w (\<lambda>w.
       if se_run_mode se = mode
       then if se_function se hid \<noteq> None then LOG_FATAL ''hook %s already set'' w
            else obind (serialize_hook hid w) (\<lambda>sf w.
              Ret (se\<lparr>se_function := (se_function se)(hid := Some sf)\<rparr>) w)
       else Ret se w)"

text \<open>The calls a script can make, and the names they are registered under.\<close>

datatype api_call = StoreHook run_mode hook_id | IsClient | IsServer | RegisterCollector nat | RunTest | TidIter

definition client_callbacks :: "(string \<times> api_call) list" where
  "client_callbacks =
    [(''client_socket'', StoreHook CLIENT SCRIPT_HOOK_SOCKET), (''client_close'', StoreHook CLIENT SCRIPT_HOOK_CLOSE),
     (''client_sendmsg'', StoreHook CLIENT SCRIPT_HOOK_SENDMSG), (''client_recvmsg'', StoreHook CLIENT SCRIPT_HOOK_RECVMSG),
     (''client_recverr'', StoreHook CLIENT SCRIPT_HOOK_RECVERR)]"

definition server_callbacks :: "(string \<times> api_call) list" where
  "server_callbacks =
    [(''server_socket'', StoreHook SERVER SCRIPT_HOOK_SOCKET), (''server_close'', StoreHook SERVER SCRIPT_HOOK_CLOSE),
     (''server_sendmsg'', StoreHook SERVER SCRIPT_HOOK_SENDMSG), (''server_recvmsg'', StoreHook SERVER SCRIPT_HOOK_RECVMSG),
     (''server_recverr'', StoreHook SERVER SCRIPT_HOOK_RECVERR)]"

fun hook_index :: "hook_id \<Rightarrow> nat" where
  "hook_index SCRIPT_HOOK_SOCKET = 0"
| "hook_index SCRIPT_HOOK_CLOSE = 1"
| "hook_index SCRIPT_HOOK_SENDMSG = 2"
| "hook_index SCRIPT_HOOK_RECVMSG = 3"
| "hook_index SCRIPT_HOOK_RECVERR = 4"

definition get_hook_name :: "run_mode \<Rightarrow> hook_id \<Rightarrow> string" where
  "get_hook_name mode hid =
     fst ((case mode of CLIENT \<Rightarrow> client_callbacks | SERVER \<Rightarrow> server_callbacks) ! hook_index hid)"

section \<open>The engine and its slaves\<close>

text \<open>
  A prelude that does not load is an error that is logged through \<open>cb\<close>; with a NULL \<open>cb\<close> that is a
  \<open>Fault\<close>. Errors are negative numbers.
\<close>

definition load_prelude :: "bool \<Rightarrow> world \<Rightarrow> int outcome" where
  "load_prelude has_cb w =
     obind (sys (CLuaRun ''require script_prelude'') w) (\<lambda>r w.
       if r_ret r \<noteq> 0
       then if \<not> has_cb then Fault w
            else let w = LOG_ERROR ''require(script_prelude): %s'' w in
              (case errno_lua (r_ret r) of None \<Rightarrow> Fault w | Some e \<Rightarrow> Ret (- e) w)
       else Ret 0 w)"

text \<open>\<open>se->cb\<close> is still NULL when the prelude is loaded.\<close>

definition script_engine_create :: "bool \<Rightarrow> world \<Rightarrow> (int + script_engine) outcome" where
  "script_engine_create is_client w =
     obind (load_prelude False w) (\<lambda>err w.
       if err \<noteq> 0 then Ret (Inl err) w
       else Ret (Inr \<lparr>se_function = (\<lambda>_. None), se_run_mode = (if is_client then CLIENT else SERVER),
         se_collectors = []\<rparr>) w)"

definition script_slave_new :: "script_engine \<Rightarrow> script_slave" where
  "script_slave_new se = \<lparr>ss_se = se, ss_hook_key = (\<lambda>_. False)\<rparr>"

definition script_slave_create :: "script_engine \<Rightarrow> world \<Rightarrow> (int + script_slave) outcome" where
  "script_slave_create se w =
     obind (load_prelude True w) (\<lambda>err w.
       if err \<noteq> 0 then Ret (Inl err) w else Ret (Inr (script_slave_new se)) w)"

section \<open>Running the script\<close>

text \<open>\<open>c\<close> is what \<open>lua_topointer\<close> answers for the argument, a table.\<close>

definition register_collector_cb :: "nat \<Rightarrow> script_engine \<Rightarrow> world \<Rightarrow> script_engine outcome" where
  "register_collector_cb c se w =
     luaL_checktype ''table'' se w (\<lambda>w. Ret (se\<lparr>se_collectors := c # se_collectors se\<rparr>) w)"

text \<open>
  The answer is the length of the table that the registry holds for the collector, \<open>None\<close> if it holds no table; its
  only element is removed. Both assertions of the code are the \<open>Fault\<close>.
\<close>

fun empty_engine_collectors :: "nat list \<Rightarrow> world \<Rightarrow> unit outcome" where
  "empty_engine_collectors [] w = Ret () w"
| "empty_engine_collectors (c # cs) w =
     obind (sys (CLuaEmpty c) w) (\<lambda>r w.
       if r_lua r \<noteq> Some 1 then Fault w else empty_engine_collectors cs w)"

text \<open>\<open>pending\<close> is \<open>se->run_func\<close> being set: the function runs once.\<close>

definition run_cb :: "(script_engine \<Rightarrow> 'c \<Rightarrow> world \<Rightarrow> 'c outcome) \<Rightarrow> script_engine \<times> bool \<times> 'c \<Rightarrow> world \<Rightarrow>
    (script_engine \<times> bool \<times> 'c) outcome" where
  "run_cb run_func st w = (case st of (se, pending, ctx) \<Rightarrow>
     if pending
     then obind (empty_engine_collectors (se_collectors se) w) (\<lambda>_ w.
          obind (run_func se ctx w) (\<lambda>ctx w. Ret (se, False, ctx) w))
     else Ret st w)"

fun script_cb :: "(script_engine \<Rightarrow> 'c \<Rightarrow> world \<Rightarrow> 'c outcome) \<Rightarrow> api_call \<Rightarrow> script_engine \<times> bool \<times> 'c \<Rightarrow> world \<Rightarrow>
    (script_engine \<times> bool \<times> 'c) outcome" where
  "script_cb run_func (StoreHook mode hid) (se, pending, ctx) w =
     obind (store_hook se mode hid w) (\<lambda>se w. Ret (se, pending, ctx) w)"
| "script_cb run_func (RegisterCollector c) (se, pending, ctx) w =
     obind (register_collector_cb c se w) (\<lambda>se w. Ret (se, pending, ctx) w)"
| "script_cb run_func RunTest st w = run_cb run_func st w"
| "script_cb run_func _ st w = Ret st w"

fun script_calls :: "(script_engine \<Rightarrow> 'c \<Rightarrow> world \<Rightarrow> 'c outcome) \<Rightarrow> api_call list \<Rightarrow> script_engine \<times> bool \<times> 'c \<Rightarrow> world \<Rightarrow>
    (script_engine \<times> bool \<times> 'c) outcome" where
  "script_calls run_func [] st w = Ret st w"
| "script_calls run_func (c # cs) st w = obind (script_cb run_func c st w) (\<lambda>st w. script_calls run_func cs st w)"

text \<open>\<open>calls\<close> are what the script calls back before it ends or fails.\<close>

definition lua_failed :: "string \<Rightarrow> int \<Rightarrow> 'a \<Rightarrow> world \<Rightarrow> (int \<times> 'a) outcome" where
  "lua_failed what err x w = (let w = LOG_ERROR what w in
     case errno_lua err of None \<Rightarrow> Fault w | Some e \<Rightarrow> Ret (- e, x) w)"

definition run_script :: "string \<Rightarrow> api_call list \<Rightarrow> (script_engine \<Rightarrow> 'c \<Rightarrow> world \<Rightarrow> 'c outcome) \<Rightarrow>
    script_engine \<Rightarrow> 'c \<Rightarrow> world \<Rightarrow> (int \<times> script_engine \<times> 'c) outcome" where
  "run_script input calls run_func se ctx w =
     obind (sys (CLuaLoadfile input) w) (\<lambda>r w.
       if r_ret r \<noteq> 0 then lua_failed ''luaL_load...: %s'' (r_ret r) (se, ctx) w
       else obind (script_calls run_func calls (se, True, ctx) w) (\<lambda>(se, pending, ctx) w.
         obind (sys (CLuaRun input) w) (\<lambda>r w.
           if r_ret r \<noteq> 0 then lua_failed ''lua_pcall: %s'' (r_ret r) (se, ctx) w
           else obind (run_cb run_func (se, pending, ctx) w) (\<lambda>(se, _, ctx) w. Ret (0, se, ctx) w))))"

section \<open>Collecting values\<close>

text \<open>
  For each collector, \<open>get_collected_value\<close> from the slave and \<open>add_collected_value\<close> to the engine. An answer that is not 0 is one
  of the fatal errors of dumping and loading; \<open>None\<close> is a value that \<open>serialize_value\<close> asserts not to find.
  \<open>pull_data\<close> of \<open>Serialize\<close> is the code behind it.
\<close>

fun pull_collected :: "script_slave \<Rightarrow> nat list \<Rightarrow> world \<Rightarrow> unit outcome" where
  "pull_collected ss [] w = Ret () w"
| "pull_collected ss (c # cs) w =
     obind (sys (CLuaCollect c) w) (\<lambda>r w.
       if r_ret r \<noteq> 0 then LOG_FATAL ''failed to dump or load a collected value: %s'' w
       else if r_lua r = None then Fault w else pull_collected ss cs w)"

definition script_engine_pull_data :: "script_engine \<Rightarrow> script_slave \<Rightarrow> world \<Rightarrow> unit outcome" where
  "script_engine_pull_data se ss w = pull_collected ss (se_collectors se) w"

definition script_engine_push_data :: "script_engine \<Rightarrow> script_slave \<Rightarrow> world \<Rightarrow> unit outcome" where
  "script_engine_push_data se ss w = Ret () w"

section \<open>Running hooks\<close>

text \<open>
  \<open>load_hook\<close> deserialises the function into the slave's interpreter; a byte code error there is
  fatal. \<open>push_hook\<close> does so the first time only.
\<close>

definition load_hook :: "script_slave \<Rightarrow> hook_id \<Rightarrow> world \<Rightarrow> (script_slave \<times> int) outcome" where
  "load_hook ss hid w =
     (case se_function (ss_se ss) hid of
        None \<Rightarrow> Ret (ss, - EHOOKEMPTY) w
      | Some sf \<Rightarrow> obind (sys (CLuaLoad hid sf) w) (\<lambda>r w.
          if r_ret r \<noteq> 0 then LOG_FATAL ''%s: luaL_loadbuffer: %s'' w
          else Ret (ss\<lparr>ss_hook_key := (ss_hook_key ss)(hid := True)\<rparr>, 0) w))"

definition push_hook :: "script_slave \<Rightarrow> hook_id \<Rightarrow> world \<Rightarrow> (script_slave \<times> int) outcome" where
  "push_hook ss hid w = (if \<not> ss_hook_key ss hid then load_hook ss hid w else Ret (ss, 0) w)"

text \<open>The \<open>lua_Integer\<close> of the result is cut down to an \<open>int\<close>.\<close>

definition call_hook :: "script_slave \<Rightarrow> hook_id \<Rightarrow> fd \<Rightarrow> int \<Rightarrow> world \<Rightarrow> int outcome" where
  "call_hook ss hid sockfd flags w =
     obind (sys (CLuaPcall hid sockfd flags) w) (\<lambda>r w.
       if r_ret r \<noteq> 0 then LOG_FATAL ''%s: lua_pcall: %s'' w
       else Ret (case r_lua r of Some n \<Rightarrow> sint (word_of_int n :: 32 word) | None \<Rightarrow> - EHOOKRETVAL) w)"

definition run_socket_hook :: "script_slave \<Rightarrow> hook_id \<Rightarrow> fd \<Rightarrow> world \<Rightarrow> (script_slave \<times> int) outcome" where
  "run_socket_hook ss hid sockfd w =
     obind (push_hook ss hid w) (\<lambda>(ss, err) w.
       if err \<noteq> 0 then Ret (ss, err) w
       else obind (call_hook ss hid sockfd 0 w) (\<lambda>res w. Ret (ss, res) w))"

definition run_packet_hook :: "script_slave \<Rightarrow> hook_id \<Rightarrow> fd \<Rightarrow> int \<Rightarrow> world \<Rightarrow> (script_slave \<times> int) outcome" where
  "run_packet_hook ss hid sockfd flags w =
     obind (push_hook ss hid w) (\<lambda>(ss, err) w.
       if err \<noteq> 0 then Ret (ss, err) w
       else obind (call_hook ss hid sockfd flags w) (\<lambda>res w. Ret (ss, res) w))"

definition script_slave_socket_hook :: "script_slave \<Rightarrow> fd \<Rightarrow> world \<Rightarrow> (script_slave \<times> int) outcome" where
  "script_slave_socket_hook ss sockfd w = run_socket_hook ss SCRIPT_HOOK_SOCKET sockfd w"

definition script_slave_close_hook :: "script_slave \<Rightarrow> fd \<Rightarrow> world \<Rightarrow> (script_slave \<times> int) outcome" where
  "script_slave_close_hook ss sockfd w = run_socket_hook ss SCRIPT_HOOK_CLOSE sockfd w"

definition script_slave_sendmsg_hook :: "script_slave \<Rightarrow> fd \<Rightarrow> int \<Rightarrow> world \<Rightarrow> (script_slave \<times> int) outcome" where
  "script_slave_sendmsg_hook ss sockfd flags w = run_packet_hook ss SCRIPT_HOOK_SENDMSG sockfd flags w"

definition script_slave_recvmsg_hook :: "script_slave \<Rightarrow> fd \<Rightarrow> int \<Rightarrow> world \<Rightarrow> (script_slave \<times> int) outcome" where
  "script_slave_recvmsg_hook ss sockfd flags w = run_packet_hook ss SCRIPT_HOOK_RECVMSG sockfd flags w"

definition script_slave_recverr_hook :: "script_slave \<Rightarrow> fd \<Rightarrow> int \<Rightarrow> world \<Rightarrow> (script_slave \<times> int) outcome" where
  "script_slave_recverr_hook ss sockfd flags w = run_packet_hook ss SCRIPT_HOOK_RECVERR sockfd flags w"

lemmas script_hook_defs = script_slave_socket_hook_def script_slave_close_hook_def
  script_slave_sendmsg_hook_def script_slave_recvmsg_hook_def script_slave_recverr_hook_def

section \<open>Lemmas\<close>

lemma run_socket_hook_packet: "run_socket_hook ss hid sockfd w = run_packet_hook ss hid sockfd 0 w"
  by (simp add: run_socket_hook_def run_packet_hook_def)

lemma quiet_run_packet_hook:
  "quietly w (run_packet_hook ss hid sockfd flags w)"
  by (auto simp: run_packet_hook_def push_hook_def load_hook_def call_hook_def intro!: quiet_intros split: option.split)

lemmas quietly_run_packet_hook [quiet_intros] = quiet_run_packet_hook [THEN quietly_from]

lemma run_packet_hook_engine:
  "run_packet_hook ss hid sockfd flags w = Ret (ss', n) w' \<Longrightarrow> ss_se ss' = ss_se ss"
  by (auto simp: run_packet_hook_def push_hook_def load_hook_def call_hook_def LOG_FATAL_def
      obind_eq_Ret split: if_splits option.splits)

lemma extends_run_packet_hook [ext_intros]:
  "extends w (final (run_packet_hook ss hid sockfd flags w))"
  by (auto simp: run_packet_hook_def push_hook_def load_hook_def call_hook_def intro!: ext_intros split: option.split)

definition no_hooks :: "script_slave \<Rightarrow> bool" where
  "no_hooks ss \<longleftrightarrow> (\<forall>hid. se_function (ss_se ss) hid = None \<and> \<not> ss_hook_key ss hid)"

lemma no_hooks_run [simp]:
  "no_hooks ss \<Longrightarrow> run_packet_hook ss hid sockfd flags w = Ret (ss, - EHOOKEMPTY) w"
  by (simp add: no_hooks_def run_packet_hook_def push_hook_def load_hook_def hook_error_defs)

lemma no_hooks_new: "(\<And>hid. se_function se hid = None) \<Longrightarrow> no_hooks (script_slave_new se)"
  by (simp add: no_hooks_def script_slave_new_def)

end
