(* ===== verification/Common.thy ===== *)
theory Common
  imports Script
begin

text \<open>
  \<open>common.c\<close> and \<open>common.h\<close>: the wrappers around system calls every other part goes through (retry
  on \<open>EINTR\<close>, hooks before transfers, fatal errors), address selection and connecting, and the split
  of the flows over the threads.
\<close>

section \<open>Numbers\<close>

definition timespec_real :: "timespec \<Rightarrow> timespec \<Rightarrow> real" where
  "timespec_real a b = of_int (tv_sec b - tv_sec a) + of_int (tv_nsec b - tv_nsec a) * (1 / 1000000000)"

definition seconds_between :: "timespec \<Rightarrow> timespec \<Rightarrow> double" where
  "seconds_between a b = Fin (timespec_real a b)"

definition flows_in_thread :: "int \<Rightarrow> int \<Rightarrow> int \<Rightarrow> int" where
  "flows_in_thread flows threads tid =
     (let min_flows_per_thread = flows div threads;
          remaining_flows = flows mod threads
      in if tid < remaining_flows then min_flows_per_thread + 1 else min_flows_per_thread)"

section \<open>Single calls\<close>

definition epoll_ctl_or_die :: "fd \<Rightarrow> epoll_op \<Rightarrow> fd \<Rightarrow> epoll_event \<Rightarrow> world \<Rightarrow> unit outcome" where
  "epoll_ctl_or_die epfd op fd ev w =
     obind (sys (CEpollCtl epfd op fd (Some ev)) w) (\<lambda>r w.
       if r_ret r \<noteq> 0 then LOG_FATAL ''epoll_ctl'' w else Ret () w)"

definition epoll_del_or_err :: "fd \<Rightarrow> fd \<Rightarrow> world \<Rightarrow> unit outcome" where
  "epoll_del_or_err epfd fd w =
     obind (sys (CEpollCtl epfd EPOLL_CTL_DEL fd None) w) (\<lambda>r w.
       Ret () (if r_ret r \<noteq> 0 then LOG_ERROR ''epoll_ctl'' w else w))"

text \<open>\<open>setsockopt\<close> failures are logged and otherwise ignored.\<close>

definition setsockopt_or_err :: "fd \<Rightarrow> sockopt \<Rightarrow> u32 \<Rightarrow> string \<Rightarrow> world \<Rightarrow> unit outcome" where
  "setsockopt_or_err fd opt val what w =
     obind (sys (CSetsockopt fd opt val) w) (\<lambda>r w.
       Ret () (if r_ret r \<noteq> 0 then LOG_ERROR what w else w))"

definition set_reuseport :: "fd \<Rightarrow> world \<Rightarrow> unit outcome" where
  "set_reuseport fd w = setsockopt_or_err fd SO_REUSEPORT 1 ''setsockopt(SO_REUSEPORT)'' w"

definition set_reuseaddr :: "fd \<Rightarrow> int \<Rightarrow> world \<Rightarrow> unit outcome" where
  "set_reuseaddr fd on w = setsockopt_or_err fd SO_REUSEADDR (word_of_int on) ''setsockopt(SO_REUSEADDR)'' w"

definition set_max_pacing_rate :: "fd \<Rightarrow> u32 \<Rightarrow> world \<Rightarrow> unit outcome" where
  "set_max_pacing_rate fd rate w =
     setsockopt_or_err fd SO_MAX_PACING_RATE rate ''setsockopt(SO_MAX_PACING_RATE)'' w"

definition int_ok :: "int \<Rightarrow> bool" where \<comment> \<open>a value of C's \<open>int\<close>\<close>
  "int_ok n \<longleftrightarrow> - (2 ^ 31) \<le> n \<and> n < 2 ^ 31"

text \<open>The product in \<open>int\<close>: an overflow is undefined behaviour.\<close>

definition set_min_rto :: "fd \<Rightarrow> int \<Rightarrow> world \<Rightarrow> unit outcome" where
  "set_min_rto fd min_rto_ms w =
     (if \<not> int_ok (min_rto_ms * 1000) \<or> \<not> int_ok (min_rto_ms * 1000 * 1000) then Fault w
      else setsockopt_or_err fd TCP_MIN_RTO (word_of_int (min_rto_ms * 1000 * 1000))
             ''setsockopt(TCP_MIN_RTO)'' w)"

definition set_debug :: "fd \<Rightarrow> int \<Rightarrow> world \<Rightarrow> unit outcome" where
  "set_debug fd onoff w = setsockopt_or_err fd SO_DEBUG (word_of_int onoff) ''setsockopt(SO_DEBUG)'' w"

definition set_nonblocking :: "fd \<Rightarrow> world \<Rightarrow> unit outcome" where
  "set_nonblocking fd w =
     obind (sys (CGetfl fd) w) (\<lambda>r w.
       let flags = (if r_ret r = -1 then 0 else word_of_int (r_ret r))
       in obind (sys (CSetfl fd (flags OR O_NONBLOCK)) w) (\<lambda>r w.
            if r_ret r = -1 then LOG_FATAL ''fcntl'' w else Ret () w))"

function do_close :: "fd \<Rightarrow> world \<Rightarrow> int outcome" where
  "do_close fd w =
     obind (sys (CClose fd) w) (\<lambda>r w.
       if r_ret r = -1 \<and> w_errno w = EINTR then do_close fd w else Ret (r_ret r) w)"
  by pat_completeness auto
termination
  by (relation "measure (\<lambda>(fd, w). length (w_inputs w))") (auto dest: sys_inputs_less)

function do_connect :: "fd \<Rightarrow> sockaddr \<Rightarrow> int \<Rightarrow> world \<Rightarrow> int outcome" where
  "do_connect s addr addr_len w =
     obind (sys (CConnect s addr addr_len) w) (\<lambda>r w.
       if r_ret r = -1 \<and> (w_errno w = EINTR \<or> w_errno w = EALREADY) then do_connect s addr addr_len w
       else if r_ret r = -1 \<and> w_errno w = EISCONN then Ret 0 w
       else Ret (r_ret r) w)"
  by pat_completeness auto
termination
  by (relation "measure (\<lambda>(s, addr, len, w). length (w_inputs w))") (auto dest: sys_inputs_less)

declare do_close.simps [simp del] do_connect.simps [simp del]

section \<open>Filling a buffer\<close>

text \<open>\<open>fill_random\<close> up to the buffer's contents: how much of it was read.\<close>

function fill_random_loop :: "fd \<Rightarrow> int \<Rightarrow> int \<Rightarrow> world \<Rightarrow> int outcome" where
  "fill_random_loop fd sz got w =
     (if got < sz
      then obind (sys (CRead fd (sz - got)) w) (\<lambda>r w.
        if r_ret r \<le> 0 then Ret got w else fill_random_loop fd sz (got + r_ret r) w)
      else Ret got w)"
  by pat_completeness auto
termination
  by (relation "measure (\<lambda>(fd, sz, got, w). length (w_inputs w))") (auto dest: sys_inputs_less)

declare fill_random_loop.simps [simp del]

definition fill_random :: "int \<Rightarrow> world \<Rightarrow> unit outcome" where
  "fill_random sz w =
     obind (sys (COpen ''/dev/urandom'') w) (\<lambda>r w.
       if r_ret r = -1 then Ret () w
       else obind (fill_random_loop (r_ret r) sz 0 w) (\<lambda>_ w.
         obind (sys (CClose (r_ret r)) w) (\<lambda>_ w. Ret () w)))"

section \<open>Transfers\<close>

text \<open>
  A transfer hands out a buffer of \<open>buf_len\<close> bytes together with a length: a length outside the
  buffer is \<open>Fault\<close>. The hook runs first and, when there is one, replaces the system call; its
  negative result becomes \<open>errno\<close>.
\<close>

definition hook_or_call ::
    "(script_slave \<times> int) outcome \<Rightarrow> call \<Rightarrow> (script_slave \<times> int) outcome" where
  "hook_or_call hook c =
     obind hook (\<lambda>(ss, n) w.
       if n = - EHOOKEMPTY
       then obind (sys c w) (\<lambda>r w. Ret (ss, if r_ret r < 0 then -1 else r_ret r) w)
       else let w = (if n < 0 then w\<lparr>w_errno := - n\<rparr> else w)
            in Ret (ss, if n < 0 then -1 else n) w)"

definition do_write :: "script_slave \<Rightarrow> fd \<Rightarrow> int \<Rightarrow> int \<Rightarrow> int \<Rightarrow> world \<Rightarrow> (script_slave \<times> int) outcome" where
  "do_write ss sockfd buf_len len flags w =
     (if len < 0 \<or> buf_len < len then Fault w
      else hook_or_call (script_slave_sendmsg_hook ss sockfd flags w) (CWrite sockfd (Workload len)))"

definition do_read :: "script_slave \<Rightarrow> fd \<Rightarrow> int \<Rightarrow> int \<Rightarrow> int \<Rightarrow> world \<Rightarrow> (script_slave \<times> int) outcome" where
  "do_read ss sockfd buf_len len flags w =
     (if len < 0 \<or> buf_len < len then Fault w
      else hook_or_call (script_slave_recvmsg_hook ss sockfd flags w) (CRead sockfd len))"

definition do_readerr :: "script_slave \<Rightarrow> fd \<Rightarrow> int \<Rightarrow> int \<Rightarrow> int \<Rightarrow> world \<Rightarrow> (script_slave \<times> int) outcome" where
  "do_readerr ss sockfd buf_len len flags w =
     (if len < 0 \<or> buf_len < len then Fault w
      else let flags = or flags MSG_ERRQUEUE
           in hook_or_call (script_slave_recverr_hook ss sockfd flags w) (CRecv sockfd len flags))"

section \<open>Addresses\<close>

definition addrinfo_hints_family :: "int \<Rightarrow> options \<Rightarrow> int" where
  "addrinfo_hints_family flags opts =
     (let family = (if ipv4 opts \<and> \<not> ipv6 opts then AF_INET
                    else if ipv6 opts \<and> \<not> ipv4 opts then AF_INET6 else AF_UNSPEC)
      in if family = AF_UNSPEC \<and> and flags AI_PASSIVE \<noteq> 0 then AF_INET6 else family)"

definition do_getaddrinfo ::
    "string option \<Rightarrow> string option \<Rightarrow> int \<Rightarrow> options \<Rightarrow> world \<Rightarrow> addrinfo list outcome" where
  "do_getaddrinfo node service flags opts w =
     obind (sys (CGetaddrinfo node service (addrinfo_hints_family flags opts) flags)
              (LOG_INFO ''before getaddrinfo'' w)) (\<lambda>r w.
       let w = LOG_INFO ''after getaddrinfo'' w
       in if r_ret r \<noteq> 0 then LOG_FATAL ''getaddrinfo(%s, %s): %s'' w else Ret (r_addrs r) w)"

definition copy_addrinfo :: "addrinfo \<Rightarrow> addrinfo" where
  "copy_addrinfo inp = \<lparr>ai_flags = ai_flags inp, ai_family = ai_family inp,
     ai_socktype = ai_socktype inp, ai_protocol = ai_protocol inp, ai_addrlen = ai_addrlen inp,
     ai_addr = ai_addr inp\<rparr>"

definition atoi :: "string \<Rightarrow> int" where
  "atoi s = (case strtol10 s of (v, _, _) \<Rightarrow> sint (word_of_int v :: 32 word))"

definition reset_port :: "addrinfo \<Rightarrow> int \<Rightarrow> world \<Rightarrow> addrinfo outcome" where
  "reset_port ai p w =
     (if sa_family (ai_addr ai) = AF_INET
      then Ret (ai\<lparr>ai_addr := (ai_addr ai)\<lparr>sa_port := htons (word_of_int p)\<rparr>\<rparr>) w
      else if sa_family (ai_addr ai) = AF_INET6
      then Ret (ai\<lparr>ai_addr := (ai_addr ai)\<lparr>sa_port := htons (word_of_int p)\<rparr>\<rparr>) w
      else LOG_FATAL ''invalid sa_family %d'' w)"

text \<open>
  \<open>set_local_host\<close>: note that a failed \<open>bind\<close> closes the descriptor and the loop goes on with it.
\<close>

fun bind_any :: "fd \<Rightarrow> addrinfo list \<Rightarrow> world \<Rightarrow> unit outcome" where
  "bind_any fd [] w = LOG_FATAL ''Could not bind'' w"
| "bind_any fd (rp # rps) w =
     obind (sys (CBind fd (ai_addr rp) (ai_addrlen rp)) w) (\<lambda>r w.
       if r_ret r = 0 then Ret () w
       else obind (do_close fd (LOG_ERROR ''bind'' w)) (\<lambda>_ w. bind_any fd rps w))"

definition set_local_host :: "fd \<Rightarrow> options \<Rightarrow> world \<Rightarrow> unit outcome" where
  "set_local_host fd opts w =
     obind (do_getaddrinfo (local_host opts) (Some ''0'') 0 opts w) (\<lambda>result w. bind_any fd result w)"

text \<open>\<open>try_connect\<close>: one pass over the addresses, and up to 30 further passes a second apart.\<close>

fun connect_any :: "addrinfo list \<Rightarrow> world \<Rightarrow> (fd \<times> addrinfo) option outcome" where
  "connect_any [] w = Ret None w"
| "connect_any (rp # rps) w =
     obind (sys (CSocket (ai_family rp) (ai_socktype rp) (ai_protocol rp)) w) (\<lambda>r w.
       if r_ret r = -1
       then if w_errno w = EMFILE \<or> w_errno w = ENFILE \<or> w_errno w = ENOBUFS \<or> w_errno w = ENOMEM
            then LOG_FATAL ''socket'' w
            else connect_any rps (LOG_ERROR ''socket'' w)
       else obind (do_connect (r_ret r) (ai_addr rp) (ai_addrlen rp) w) (\<lambda>c w.
         if c = 0 then Ret (Some (r_ret r, rp)) w
         else obind (do_close (r_ret r) (LOG_ERROR ''connect'' w)) (\<lambda>_ w. connect_any rps w)))"

fun connect_rounds :: "addrinfo list \<Rightarrow> nat \<Rightarrow> world \<Rightarrow> (fd \<times> addrinfo) outcome" where
  "connect_rounds result allowed_retry w =
     obind (connect_any result w) (\<lambda>found w.
       case found of
         Some (sfd, rp) \<Rightarrow> Ret (sfd, rp) w
       | None \<Rightarrow> (case allowed_retry of
             0 \<Rightarrow> LOG_FATAL ''Could not connect'' w
           | Suc n \<Rightarrow> obind (sys (CSleep 1) w) (\<lambda>_ w. connect_rounds result n w)))"

declare connect_rounds.simps [simp del]

definition try_connect :: "string option \<Rightarrow> string \<Rightarrow> options \<Rightarrow> world \<Rightarrow> (fd \<times> addrinfo) outcome" where
  "try_connect node service opts w =
     obind (do_getaddrinfo node (Some service) 0 opts w) (\<lambda>result w.
       obind (connect_rounds result 30 w) (\<lambda>(sfd, rp) w. Ret (sfd, copy_addrinfo rp) w))"

section \<open>Every wrapper only makes calls and logs\<close>

lemma quiet_epoll: "quietly w (epoll_del_or_err epfd fd w)"
  by (auto simp: epoll_del_or_err_def intro!: quiet_intros)

lemmas quietly_epoll [quiet_intros] = quiet_epoll [THEN quietly_from]

lemma quiet_setsockopt: "quietly w (setsockopt_or_err fd opt val what w)"
  by (auto simp: setsockopt_or_err_def intro!: quiet_intros)

lemmas quietly_setsockopt [quiet_intros] = quiet_setsockopt [THEN quietly_from]

lemma quiet_setters:
  "quietly w (set_reuseport fd w)" "quietly w (set_reuseaddr fd on w)"
  "quietly w (set_max_pacing_rate fd rate w)" "quietly w (set_debug fd on w)"
  "quietly w (set_nonblocking fd w)"
  by (auto simp: set_reuseport_def set_reuseaddr_def set_max_pacing_rate_def set_debug_def
      set_nonblocking_def Let_def intro!: quiet_intros)

lemmas quietly_setters [quiet_intros] = quiet_setters [THEN quietly_from]

lemma quiet_do_close: "quietly w (do_close fd w)"
proof (induction fd w rule: do_close.induct)
  case (1 fd w)
  then show ?case by (subst do_close.simps) (auto intro!: quiet_intros)
qed

lemmas quietly_do_close [quiet_intros] = quiet_do_close [THEN quietly_from]

lemma quiet_do_connect: "quietly w (do_connect s addr len w)"
proof (induction s addr len w rule: do_connect.induct)
  case (1 s addr len w)
  then show ?case by (subst do_connect.simps) (auto intro!: quiet_intros)
qed

lemmas quietly_do_connect [quiet_intros] = quiet_do_connect [THEN quietly_from]

lemma quietly_hook_or_call [quiet_intros]: "quietly w hook \<Longrightarrow> \<not> watches c \<Longrightarrow> quietly w (hook_or_call hook c)"
  by (auto simp: hook_or_call_def Let_def intro!: quiet_intros)

lemma quietly_transfers [quiet_intros]:
  "0 \<le> len \<Longrightarrow> len \<le> buf_len \<Longrightarrow> quiet w v \<Longrightarrow> quietly w (do_write ss fd buf_len len flags v)"
  "0 \<le> len \<Longrightarrow> len \<le> buf_len \<Longrightarrow> quiet w v \<Longrightarrow> quietly w (do_read ss fd buf_len len flags v)"
  "0 \<le> len \<Longrightarrow> len \<le> buf_len \<Longrightarrow> quiet w v \<Longrightarrow> quietly w (do_readerr ss fd buf_len len flags v)"
  by (auto simp: do_write_def do_read_def do_readerr_def script_hook_defs Let_def intro!: quiet_intros)

lemma quiet_fill_random_loop: "quietly w (fill_random_loop fd sz got w)"
proof (induction fd sz got w rule: fill_random_loop.induct)
  case (1 fd sz got w)
  then show ?case by (subst fill_random_loop.simps) (auto intro!: quiet_intros)
qed

lemma quiet_fill_random: "quietly w (fill_random sz w)"
  by (auto simp: fill_random_def intro!: quiet_intros quiet_fill_random_loop [THEN quietly_from])

lemmas quietly_fill_random [quiet_intros] = quiet_fill_random [THEN quietly_from]

lemma quiet_do_getaddrinfo: "quietly w (do_getaddrinfo h p flags opts w)"
  by (auto simp: do_getaddrinfo_def Let_def intro!: quiet_intros)

lemmas quietly_do_getaddrinfo [quiet_intros] = quiet_do_getaddrinfo [THEN quietly_from]

lemma quiet_reset_port: "quietly w (reset_port ai p w)"
  by (auto simp: reset_port_def intro!: quiet_intros)

lemmas quietly_reset_port [quiet_intros] = quiet_reset_port [THEN quietly_from]

lemma quiet_bind_any: "quietly w (bind_any fd rps w)"
  by (induction rps arbitrary: w) (auto intro!: quiet_intros)

lemmas quietly_bind_any [quiet_intros] = quiet_bind_any [THEN quietly_from]

lemma quiet_set_local_host: "quietly w (set_local_host fd opts w)"
  by (auto simp: set_local_host_def intro!: quiet_intros)

lemmas quietly_set_local_host [quiet_intros] = quiet_set_local_host [THEN quietly_from]

lemma quiet_connect_any: "quietly w (connect_any rps w)"
proof (induction rps arbitrary: w)
  case (Cons rp rps)
  show ?case by (auto intro!: quiet_intros quietly_from [OF Cons.IH])
qed (simp add: quiet_intros)

lemmas quietly_connect_any [quiet_intros] = quiet_connect_any [THEN quietly_from]

lemma quiet_connect_rounds: "quietly w (connect_rounds result n w)"
  by (induction n arbitrary: w)
    (subst connect_rounds.simps, auto intro!: quiet_intros split: option.split)+

lemmas quietly_connect_rounds [quiet_intros] = quiet_connect_rounds [THEN quietly_from]

lemma quiet_try_connect: "quietly w (try_connect h p opts w)"
  by (auto simp: try_connect_def intro!: quiet_intros)

lemmas quietly_try_connect [quiet_intros] = quiet_try_connect [THEN quietly_from]

end
