(* ===== verification/Sample.thy ===== *)
theory Sample
  imports Common
begin

text \<open>
  \<open>sample.c\<close>: a sample is a snapshot of a flow's counters that takes over the flow's latency
  measurements. Samples are kept newest first per thread, sorted by time for the reports, and written
  as a CSV file, whose lines are lists of cells here.
\<close>

section \<open>Taking samples\<close>

definition add_sample :: "int \<Rightarrow> flow \<Rightarrow> timespec \<Rightarrow> sample list \<Rightarrow> world \<Rightarrow> (flow \<times> sample list) outcome" where
  "add_sample tid f ts samples w =
     (let smp = \<lparr>s_tid = tid, s_flow_id = f_id f, s_bytes_read = f_bytes_read f,
                 s_transactions = f_transactions f, s_latency = f_latency f, s_timestamp = ts,
                 s_rusage = rusage0\<rparr>;
          f = f\<lparr>f_latency := Some numlist_create\<rparr>
      in obind (sys (CGetrusage RUSAGE_THREAD) w) (\<lambda>r w.
           Ret (f, smp\<lparr>s_rusage := r_rusage r\<rparr> # samples) w))"

definition compare_samples :: "sample \<Rightarrow> sample \<Rightarrow> int" where
  "compare_samples x y =
     (if tv_sec (s_timestamp x) < tv_sec (s_timestamp y) then -1
      else if tv_sec (s_timestamp x) > tv_sec (s_timestamp y) then 1
      else if tv_nsec (s_timestamp x) < tv_nsec (s_timestamp y) then -1
      else if tv_nsec (s_timestamp x) > tv_nsec (s_timestamp y) then 1
      else 0)"

definition free_samples :: "sample list \<Rightarrow> sample list" where
  "free_samples samples = []"

section \<open>Writing them\<close>

datatype csv_cell = CName string | CPercentile nat | CTime int int | CInt int | CULong u64
  | CDouble double

text \<open>The header line, and the line of a sample (\<open>None\<close> where a NULL or bad list would be read).\<close>

definition print_sample_header :: "percentiles option \<Rightarrow> csv_cell list" where
  "print_sample_header pcts =
     map CName [''time'', ''tid'', ''flow_id'', ''bytes_read'', ''transactions'']
     @ map CName [''latency_min'', ''latency_mean'', ''latency_max''] @ [CName ''latency_stddev'']
     @ (case pcts of None \<Rightarrow> [] | Some p \<Rightarrow> map CPercentile (filter (\<lambda>i. chosen p ! i) [0..<101]))
     @ map CName [''utime'', ''stime'', ''maxrss'', ''minflt'', ''majflt'', ''nvcsw'', ''nivcsw'']"

fun percentile_cells :: "numlist \<Rightarrow> percentiles \<Rightarrow> nat list \<Rightarrow> csv_cell list option" where
  "percentile_cells lst p [] = Some []"
| "percentile_cells lst p (i # is) =
     (if chosen p ! i
      then case numlist_percentile lst (int i) of
             None \<Rightarrow> None
           | Some v \<Rightarrow> map_option ((#) (CDouble v)) (percentile_cells lst p is)
      else percentile_cells lst p is)"

fun timeval_cell :: "timeval \<Rightarrow> csv_cell" where
  "timeval_cell (Timeval s us) = CTime s us"

definition counter_cells :: "sample \<Rightarrow> csv_cell list" where
  "counter_cells smp = [CTime (tv_sec (s_timestamp smp)) (tv_nsec (s_timestamp smp)), CInt (s_tid smp),
     CInt (s_flow_id smp), CInt (s_bytes_read smp), CULong (s_transactions smp)]"

definition latency_cells :: "numlist \<Rightarrow> csv_cell list" where
  "latency_cells lst = map CDouble [numlist_min lst, numlist_mean lst, numlist_max lst, numlist_stddev lst]"

definition rusage_cells :: "rusage \<Rightarrow> csv_cell list" where
  "rusage_cells ru = [timeval_cell (ru_utime ru), timeval_cell (ru_stime ru), CInt (ru_maxrss ru),
     CInt (ru_minflt ru), CInt (ru_majflt ru), CInt (ru_nvcsw ru), CInt (ru_nivcsw ru)]"

definition print_sample_row :: "percentiles option \<Rightarrow> sample \<Rightarrow> csv_cell list option" where
  "print_sample_row pcts smp = (case s_latency smp of
       None \<Rightarrow> None
     | Some lst \<Rightarrow>
         map_option (\<lambda>pcells. counter_cells smp @ latency_cells lst @ pcells @ rusage_cells (s_rusage smp))
           (case pcts of None \<Rightarrow> Some [] | Some p \<Rightarrow> percentile_cells lst p [0..<101]))"

fun print_rows :: "percentiles option \<Rightarrow> sample list \<Rightarrow> csv_cell list list option" where
  "print_rows pcts [] = Some []"
| "print_rows pcts (smp # samples) = (case print_sample_row pcts smp of
       None \<Rightarrow> None
     | Some row \<Rightarrow> map_option ((#) row) (print_rows pcts samples))"

text \<open>\<open>print_samples\<close> returns what was written to the file, \<open>None\<close> when it could not be opened.\<close>

definition print_samples ::
    "percentiles option \<Rightarrow> sample list \<Rightarrow> string \<Rightarrow> world \<Rightarrow> csv_cell list list option outcome" where
  "print_samples pcts samples filename w =
     obind (sys (COpen filename) w) (\<lambda>r w.
       if r_ret r \<noteq> -1
       then let w = LOG_INFO ''successfully opened %s'' w
            in case print_rows pcts samples of
                 None \<Rightarrow> Fault w
               | Some rows \<Rightarrow> obind (sys (CClose (r_ret r)) w) (\<lambda>c w.
                   Ret (Some (print_sample_header pcts # rows))
                     (if r_ret c \<noteq> 0 then LOG_ERROR ''fclose: %s'' w else w))
       else Ret None (LOG_ERROR ''fopen(%s): %s'' w))"

section \<open>Order\<close>

lemma compare_samples_le: "compare_samples x y \<le> 0 \<longleftrightarrow> s_timestamp x \<le> s_timestamp y"
  by (auto simp: compare_samples_def less_eq_timespec_def)

interpretation smp: comparison compare_samples "\<lambda>_. True"
  by unfold_locales (auto simp: compare_samples_le)

lemma sorted_samples: "sorted (map s_timestamp (qsort compare_samples samples))"
  using smp.sorted_qsort [of samples] by (simp add: compare_samples_le sorted_map)

text \<open>
  C13: the samples of all threads, sorted for a report, are a permutation of what was collected, and
  their time stamps increase (seconds first, then nanoseconds); so the first is the earliest and the
  last the latest of all.
\<close>

theorem sorted_report:
  assumes "samples \<noteq> []"
  shows "mset (qsort compare_samples samples) = mset samples
    \<and> sorted (map s_timestamp (qsort compare_samples samples))
    \<and> (\<forall>s\<in>set samples. s_timestamp (hd (qsort compare_samples samples)) \<le> s_timestamp s
         \<and> s_timestamp s \<le> s_timestamp (last (qsort compare_samples samples)))"
proof -
  let ?q = "qsort compare_samples samples"
  have ne: "?q \<noteq> []" using assms by (metis length_0_conv length_qsort)
  have "s_timestamp (hd ?q) \<le> s_timestamp s \<and> s_timestamp s \<le> s_timestamp (last ?q)"
    if s: "s \<in> set samples" for s
  proof -
    from s obtain i where i: "i < length ?q" "?q ! i = s"
      by (metis in_set_conv_nth set_qsort)
    have mono: "s_timestamp (?q ! j) \<le> s_timestamp (?q ! k)" if "j \<le> k" "k < length ?q" for j k
      using sorted_nth_mono [OF sorted_samples, of j k samples] that by simp
    show ?thesis
      using mono [of 0 i] mono [of i "length ?q - 1"] i ne
      by (auto simp: hd_conv_nth last_conv_nth)
  qed
  then show ?thesis by (simp add: sorted_samples)
qed

lemma percentile_cells_eq:
  "percentile_cells lst p is = Some cells \<Longrightarrow>
   map Some cells = map (\<lambda>i. map_option CDouble (numlist_percentile lst (int i))) (filter (\<lambda>i. chosen p ! i) is)"
  by (induction "is" arbitrary: cells) (auto split: if_splits option.splits)

definition chosen_columns :: "percentiles option \<Rightarrow> nat list" where
  "chosen_columns pcts = (case pcts of None \<Rightarrow> [] | Some p \<Rightarrow> filter (\<lambda>i. chosen p ! i) [0..<101])"

text \<open>What a column's heading says is in it.\<close>

definition counter_column :: "string \<Rightarrow> sample \<Rightarrow> csv_cell option" where
  "counter_column c smp =
     (if c = ''time'' then Some (CTime (tv_sec (s_timestamp smp)) (tv_nsec (s_timestamp smp)))
      else if c = ''tid'' then Some (CInt (s_tid smp))
      else if c = ''flow_id'' then Some (CInt (s_flow_id smp))
      else if c = ''bytes_read'' then Some (CInt (s_bytes_read smp))
      else if c = ''transactions'' then Some (CULong (s_transactions smp)) else None)"

definition latency_column :: "string \<Rightarrow> numlist \<Rightarrow> csv_cell option" where
  "latency_column c lst =
     (if c = ''latency_min'' then Some (CDouble (numlist_min lst))
      else if c = ''latency_mean'' then Some (CDouble (numlist_mean lst))
      else if c = ''latency_max'' then Some (CDouble (numlist_max lst))
      else if c = ''latency_stddev'' then Some (CDouble (numlist_stddev lst)) else None)"

definition rusage_column :: "string \<Rightarrow> rusage \<Rightarrow> csv_cell option" where
  "rusage_column c ru =
     (if c = ''utime'' then Some (timeval_cell (ru_utime ru))
      else if c = ''stime'' then Some (timeval_cell (ru_stime ru))
      else if c = ''maxrss'' then Some (CInt (ru_maxrss ru))
      else if c = ''minflt'' then Some (CInt (ru_minflt ru))
      else if c = ''majflt'' then Some (CInt (ru_majflt ru))
      else if c = ''nvcsw'' then Some (CInt (ru_nvcsw ru))
      else if c = ''nivcsw'' then Some (CInt (ru_nivcsw ru)) else None)"

definition column_value :: "sample \<Rightarrow> numlist \<Rightarrow> csv_cell \<Rightarrow> csv_cell option" where
  "column_value smp lst heading = (case heading of
       CPercentile i \<Rightarrow> map_option CDouble (numlist_percentile lst (int i))
     | CName c \<Rightarrow> (case counter_column c smp of
           Some v \<Rightarrow> Some v
         | None \<Rightarrow> (case latency_column c lst of Some v \<Rightarrow> Some v | None \<Rightarrow> rusage_column c (s_rusage smp)))
     | _ \<Rightarrow> None)"

lemmas column_defs = column_value_def counter_column_def latency_column_def rusage_column_def

lemma row_columns:
  assumes "print_sample_row pcts smp = Some row"
  shows "\<exists>lst. s_latency smp = Some lst \<and> map Some row = map (column_value smp lst) (print_sample_header pcts)"
proof -
  from assms obtain lst pcells where lst: "s_latency smp = Some lst"
    and pcells: "(case pcts of None \<Rightarrow> Some [] | Some p \<Rightarrow> percentile_cells lst p [0..<101]) = Some pcells"
    and row: "row = counter_cells smp @ latency_cells lst @ pcells @ rusage_cells (s_rusage smp)"
    by (auto simp: print_sample_row_def split: option.splits)
  have "map Some pcells = map (\<lambda>i. map_option CDouble (numlist_percentile lst (int i))) (chosen_columns pcts)"
    using pcells percentile_cells_eq by (auto simp: chosen_columns_def split: option.splits)
  also have "\<dots> = map (column_value smp lst) (map CPercentile (chosen_columns pcts))"
    by (simp add: column_value_def)
  finally have "map Some pcells = map (column_value smp lst) (case pcts of None \<Rightarrow> [] | Some p \<Rightarrow> map CPercentile (filter (\<lambda>i. chosen p ! i) [0..<101]))"
    by (cases pcts) (simp_all add: chosen_columns_def)
  then have "map Some row = map (column_value smp lst) (print_sample_header pcts)"
    unfolding row print_sample_header_def map_append
    by (simp add: counter_cells_def latency_cells_def rusage_cells_def column_defs)
  with lst show ?thesis by blast
qed

lemma rows_columns:
  "print_rows pcts samples = Some rows \<Longrightarrow>
   list_all2 (\<lambda>smp row. \<exists>lst. s_latency smp = Some lst \<and> map Some row = map (column_value smp lst) (print_sample_header pcts)) samples rows"
  by (induction samples arbitrary: rows) (auto split: option.splits dest: row_columns)

text \<open>
  C14: The CSV file. The first line that is written names the columns: the counters, the statistics of the
  latencies, the chosen percentiles in order and the resource usage. Then there is one line per sample, in
  order, and each cell of a line holds the value of that sample which the heading of its column names.
\<close>

theorem csv_columns:
  assumes "print_samples pcts samples filename w = Ret (Some csv) w'"
  shows "\<exists>header rows. csv = header # rows
    \<and> header = map CName [''time'', ''tid'', ''flow_id'', ''bytes_read'', ''transactions'', ''latency_min'', ''latency_mean'',
          ''latency_max'', ''latency_stddev''] @ map CPercentile (chosen_columns pcts)
        @ map CName [''utime'', ''stime'', ''maxrss'', ''minflt'', ''majflt'', ''nvcsw'', ''nivcsw'']
    \<and> list_all2 (\<lambda>smp row. \<exists>lst. s_latency smp = Some lst \<and> map Some row = map (column_value smp lst) header) samples rows"
proof -
  from assms obtain rows where "print_rows pcts samples = Some rows" "csv = print_sample_header pcts # rows"
    by (auto simp: print_samples_def obind_eq_Ret Let_def split: if_splits option.splits)
  moreover have "print_sample_header pcts = map CName [''time'', ''tid'', ''flow_id'', ''bytes_read'', ''transactions'', ''latency_min'', ''latency_mean'',
          ''latency_max'', ''latency_stddev''] @ map CPercentile (chosen_columns pcts)
        @ map CName [''utime'', ''stime'', ''maxrss'', ''minflt'', ''majflt'', ''nvcsw'', ''nivcsw'']"
    by (simp add: print_sample_header_def chosen_columns_def split: option.split)
  ultimately show ?thesis using rows_columns [of pcts samples rows] by (intro exI conjI) auto
qed

definition example_sample :: "numlist \<Rightarrow> timespec \<Rightarrow> sample" where
  "example_sample lst ts = \<lparr>s_tid = 0, s_flow_id = 0, s_bytes_read = 10, s_transactions = 1,
     s_latency = Some lst, s_timestamp = ts, s_rusage = rusage0\<rparr>"

theorem sorted_report_witness:
  "s_timestamp (hd (qsort compare_samples [example_sample numlist_create (Timespec 5 1),
      example_sample numlist_create (Timespec 4 9)])) \<le> Timespec 4 9"
  using sorted_report [of "[example_sample numlist_create (Timespec 5 1),
      example_sample numlist_create (Timespec 4 9)]"]
  by (simp add: example_sample_def)

text \<open>One sample with one latency of 3, and the percentiles 50 and 99.\<close>

definition latencies3 :: numlist where
  "latencies3 = \<lparr>nl_head = [\<lparr>mb_size = 1, mb_data = (\<lambda>_. NaN)(0 := Fin 3)\<rparr>]\<rparr>"

definition p50_p99 :: percentiles where
  "p50_p99 = \<lparr>chosen = (replicate 101 False)[50 := True, 99 := True]\<rparr>"

lemma chosen_p50_p99: "filter (\<lambda>i. chosen p50_p99 ! i) [0..<101] = [50, 99]"
  by code_simp

lemma latencies3_percentile: "numlist_percentile latencies3 p = Some (Fin 3)"
  by (simp add: latencies3_def numlist_percentile_def numlist_size_def for_each_def for_each_number_def qsort_def percentile_index_def Let_def)

lemma latencies3_cells: "percentile_cells latencies3 p is = Some (map (\<lambda>_. CDouble (Fin 3)) (filter (\<lambda>i. chosen p ! i) is))"
  by (induction "is") (simp_all add: latencies3_percentile)

theorem csv_columns_witness:
  "\<exists>header row w'. print_samples (Some p50_p99) [example_sample latencies3 (Timespec 5 1)] ''s.csv'' (world0 [\<lambda>_ _. resp0, \<lambda>_ _. resp0])
      = Ret (Some [header, row]) w'
    \<and> header ! 9 = CPercentile 50 \<and> row ! 9 = CDouble (Fin 3) \<and> header ! 0 = CName ''time'' \<and> row ! 0 = CTime 5 1 \<and> length row = 18"
proof -
  let ?smp = "example_sample latencies3 (Timespec 5 1)"
  have "\<exists>csv w'. print_samples (Some p50_p99) [?smp] ''s.csv'' (world0 [\<lambda>_ _. resp0, \<lambda>_ _. resp0]) = Ret (Some csv) w'"
    by (simp add: print_samples_def sys_def Let_def resp0_def print_sample_row_def example_sample_def latencies3_cells del: upt_Suc)
  then obtain csv w' where r: "print_samples (Some p50_p99) [?smp] ''s.csv'' (world0 [\<lambda>_ _. resp0, \<lambda>_ _. resp0]) = Ret (Some csv) w'" by blast
  from csv_columns [OF r] obtain header row where f: "csv = [header, row]"
    "header = map CName [''time'', ''tid'', ''flow_id'', ''bytes_read'', ''transactions'', ''latency_min'', ''latency_mean'',
          ''latency_max'', ''latency_stddev''] @ map CPercentile [50, 99]
        @ map CName [''utime'', ''stime'', ''maxrss'', ''minflt'', ''majflt'', ''nvcsw'', ''nivcsw'']"
    "map Some row = map (column_value ?smp latencies3) header"
    by (auto simp: chosen_columns_def chosen_p50_p99 list_all2_Cons1 example_sample_def)
  have len: "length header = 18" "length row = 18" using arg_cong [OF f(3), of length] by (simp_all add: f(2))
  have "Some (row ! i) = column_value ?smp latencies3 (header ! i)" if "i < 18" for i
    using arg_cong [OF f(3), of "\<lambda>xs. xs ! i"] that len by (simp only: nth_map)
  from this [of 0] this [of 9] have "row ! 0 = CTime 5 1" "row ! 9 = CDouble (Fin 3)"
    by (simp_all add: f(2) column_defs latencies3_percentile example_sample_def)
  with r f(1,2) len(2) show ?thesis by auto
qed

end
