(* ===== verification/ControlPlane.thy ===== *)
theory ControlPlane
  imports Common Hexdump
begin

text \<open>
  \<open>control_plane.c\<close>: the control connection between a client and a server. The client connects and
  sends a secret, the server answers with a magic number, and at the end of the test the client sends
  the number back. The loops that retry a call are recursive functions; every round uses up an answer
  of the kernel.
\<close>

section \<open>The magic number\<close>

function recv_magic :: "fd \<Rightarrow> world \<Rightarrow> u32 outcome" where
  "recv_magic fd w =
     obind (sys (CRead fd 4) w) (\<lambda>r w.
       if r_ret r = -1
       then if w_errno w = EINTR \<or> w_errno w = EAGAIN then recv_magic fd w else LOG_FATAL ''%s: read'' w
       else if r_ret r \<noteq> 4 then LOG_FATAL ''%s: Incomplete read %d'' w
       else Ret (ntohl (u32_of_bytes (r_data r))) w)"
  by pat_completeness auto
termination
  by (relation "measure (\<lambda>(fd, w). length (w_inputs w))") (auto dest: sys_inputs_less)

function send_bytes :: "fd \<Rightarrow> byte list \<Rightarrow> world \<Rightarrow> unit outcome" where
  "send_bytes fd bs w =
     obind (sys (CWrite fd (Bytes bs)) w) (\<lambda>r w.
       if r_ret r = -1
       then if w_errno w = EINTR \<or> w_errno w = EAGAIN then send_bytes fd bs w else LOG_FATAL ''%s: write'' w
       else if r_ret r \<noteq> int (length bs) then LOG_FATAL ''%s: Incomplete write %d'' w
       else Ret () w)"
  by pat_completeness auto
termination
  by (relation "measure (\<lambda>(fd, bs, w). length (w_inputs w))") (auto dest: sys_inputs_less)

declare recv_magic.simps [simp del] send_bytes.simps [simp del]

definition send_magic :: "fd \<Rightarrow> u32 \<Rightarrow> world \<Rightarrow> unit outcome" where
  "send_magic fd m w = send_bytes fd (bytes_of_u32 (htonl m)) w"

section \<open>Setting up\<close>

definition control_port_secret :: "byte list" where
  "control_port_secret = map (\<lambda>c. of_nat (of_char c)) ''neper control port secret'' @ [0]"

definition SECRET_SIZE :: nat where "SECRET_SIZE = length control_port_secret"

function write_secret :: "fd \<Rightarrow> world \<Rightarrow> unit outcome" where
  "write_secret fd w =
     obind (sys (CWrite fd (Bytes control_port_secret)) w) (\<lambda>r w.
       if r_ret r = -1
       then if w_errno w = EINTR then write_secret fd w else LOG_FATAL ''write'' w
       else Ret () w)"
  by pat_completeness auto
termination
  by (relation "measure (\<lambda>(fd, w). length (w_inputs w))") (auto dest: sys_inputs_less)

declare write_secret.simps [simp del]

text \<open>What follows \<open>try_connect\<close> on the connection it made.\<close>

definition ctrl_handshake :: "fd \<Rightarrow> options \<Rightarrow> world \<Rightarrow> fd outcome" where
  "ctrl_handshake ctrl_conn opts w =
     obind (setsockopt_or_err ctrl_conn TCP_NODELAY 1 ''setsockopt(TCP_NODELAY)'' w) (\<lambda>_ w.
       obind (write_secret ctrl_conn w) (\<lambda>_ w.
         obind (recv_magic ctrl_conn w) (\<lambda>m w.
           if m \<noteq> magic opts then LOG_FATAL ''magic mismatch: %d != %d'' w else Ret ctrl_conn w)))"

definition ctrl_connect :: "string option \<Rightarrow> string \<Rightarrow> options \<Rightarrow> world \<Rightarrow> (fd \<times> addrinfo) outcome" where
  "ctrl_connect node service opts w =
     obind (try_connect node service opts w) (\<lambda>(ctrl_conn, ai) w.
       obind (ctrl_handshake ctrl_conn opts w) (\<lambda>ctrl_conn w. Ret (ctrl_conn, ai) w))"

fun bind_first :: "addrinfo list \<Rightarrow> world \<Rightarrow> (fd \<times> addrinfo) outcome" where
  "bind_first [] w = LOG_FATAL ''Could not bind'' w"
| "bind_first (rp # rps) w =
     obind (sys (CSocket (ai_family rp) (ai_socktype rp) (ai_protocol rp)) w) (\<lambda>r w.
       if r_ret r = -1 then bind_first rps (LOG_ERROR ''socket'' w)
       else obind (set_reuseport (r_ret r) w) (\<lambda>_ w.
         obind (set_reuseaddr (r_ret r) 1 w) (\<lambda>_ w.
           obind (sys (CBind (r_ret r) (ai_addr rp) (ai_addrlen rp)) w) (\<lambda>b w.
             if r_ret b = 0 then Ret (r_ret r, rp) w
             else obind (do_close (r_ret r) (LOG_ERROR ''bind'' w)) (\<lambda>_ w. bind_first rps w)))))"

definition ctrl_listen :: "string option \<Rightarrow> string \<Rightarrow> options \<Rightarrow> world \<Rightarrow> (fd \<times> addrinfo) outcome" where
  "ctrl_listen node service opts w =
     obind (do_getaddrinfo node (Some service) AI_PASSIVE opts w) (\<lambda>result w.
       obind (bind_first result w) (\<lambda>(fd_listen, rp) w.
         let ai = copy_addrinfo rp
         in obind (sys (CListen fd_listen (listen_backlog opts)) w) (\<lambda>r w.
              if r_ret r \<noteq> 0 then LOG_FATAL ''listen'' w else Ret (fd_listen, ai) w)))"

section \<open>Accepting a client\<close>

function accept_conn :: "fd \<Rightarrow> world \<Rightarrow> fd outcome" where
  "accept_conn ctrl_port w =
     obind (sys (CAccept ctrl_port) w) (\<lambda>r w.
       if r_ret r = -1
       then if w_errno w = EINTR \<or> w_errno w = ECONNABORTED then accept_conn ctrl_port w
            else LOG_FATAL ''accept'' w
       else Ret (r_ret r) w)"
  by pat_completeness auto
termination
  by (relation "measure (\<lambda>(fd, w). length (w_inputs w))") (auto dest: sys_inputs_less)

text \<open>\<open>None\<close> when the read failed and the connection was closed.\<close>

function read_secret :: "fd \<Rightarrow> world \<Rightarrow> byte list option outcome" where
  "read_secret ctrl_conn w =
     obind (sys (CRead ctrl_conn 1024) w) (\<lambda>r w.
       if r_ret r = -1
       then if w_errno w = EINTR then read_secret ctrl_conn w
            else obind (do_close ctrl_conn (LOG_ERROR ''read'' w)) (\<lambda>_ w. Ret None w)
       else Ret (Some (take (nat (r_ret r)) (r_data r))) w)"
  by pat_completeness auto
termination
  by (relation "measure (\<lambda>(fd, w). length (w_inputs w))") (auto dest: sys_inputs_less)

declare accept_conn.simps [simp del] read_secret.simps [simp del]

definition secret_matches :: "byte list \<Rightarrow> bool" where
  "secret_matches buf \<longleftrightarrow> take SECRET_SIZE buf = control_port_secret"

text \<open>The buffer is zeroed before the read; \<open>len\<close> bytes of it are dumped.\<close>

definition reject :: "byte list \<Rightarrow> nat \<Rightarrow> world \<Rightarrow> unit outcome" where
  "reject buf len w = (case hexdump buf len 8192 of
       Done dump \<Rightarrow> Ret () (LOG_WARN (''Invalid secret from %s:%s '' @ dump) w)
     | Null \<Rightarrow> Ret () (LOG_WARN ''Invalid secret from %s:%s'' w)
     | OutOfBounds \<Rightarrow> Fault w)"

lemma extends_loops [ext_intros]:
  "extends w (final (recv_magic fd w))" "extends w (final (send_bytes fd bs w))"
  "extends w (final (write_secret fd w))" "extends w (final (accept_conn fd w))"
  "extends w (final (do_close fd w))" "extends w (final (read_secret fd w))"
proof -
  show "extends w (final (recv_magic fd w))"
    by (induction fd w rule: recv_magic.induct) (subst recv_magic.simps, auto intro!: ext_intros)
  show "extends w (final (send_bytes fd bs w))"
    by (induction fd bs w rule: send_bytes.induct) (subst send_bytes.simps, auto intro!: ext_intros)
  show "extends w (final (write_secret fd w))"
    by (induction fd w rule: write_secret.induct) (subst write_secret.simps, auto intro!: ext_intros)
  show "extends w (final (accept_conn fd w))"
    by (induction fd w rule: accept_conn.induct) (subst accept_conn.simps, auto intro!: ext_intros)
  show close: "extends w (final (do_close fd w))" for fd w
    by (induction fd w rule: do_close.induct) (subst do_close.simps, auto intro!: ext_intros)
  have log: "extends w (final (do_close fd (LOG_ERROR msg w)))" for fd msg w
    using close [of "LOG_ERROR msg w" fd] by simp
  show "extends w (final (read_secret fd w))"
    by (induction fd w rule: read_secret.induct) (subst read_secret.simps, auto intro!: ext_intros log)
qed

lemma loops_le:
  "accept_conn fd w = Ret a w' \<Longrightarrow> length (w_inputs w') \<le> length (w_inputs w)"
  "read_secret fd w = Ret b w' \<Longrightarrow> length (w_inputs w') \<le> length (w_inputs w)"
  "do_close fd w = Ret c w' \<Longrightarrow> length (w_inputs w') \<le> length (w_inputs w)"
  by (auto intro: extends_inputs_length extends_Ret extends_loops)

lemma reject_Ret: "reject buf len w = Ret u w' \<Longrightarrow> w_inputs w' = w_inputs w \<and> w_trace w' = w_trace w"
  by (auto simp: reject_def split: checked.splits)

function ctrl_accept :: "fd \<Rightarrow> int \<Rightarrow> u32 \<Rightarrow> world \<Rightarrow> (fd \<times> int) outcome" where
  "ctrl_accept ctrl_port num_incidents m w =
     obind (accept_conn ctrl_port w) (\<lambda>ctrl_conn w.
     obind (sys CGetnameinfo w) (\<lambda>r w.
     let w = (if r_ret r \<noteq> 0 then LOG_ERROR ''getnameinfo: %s'' w else w) in
     obind (read_secret ctrl_conn w) (\<lambda>got w. case got of
         None \<Rightarrow> ctrl_accept ctrl_port num_incidents m w
       | Some data \<Rightarrow>
           let buf = data @ replicate (1024 - length data) 0 in
           if \<not> secret_matches buf
           then obind (reject buf (length data) w) (\<lambda>_ w.
                obind (do_close ctrl_conn w) (\<lambda>_ w. ctrl_accept ctrl_port (num_incidents + 1) m w))
           else obind (send_magic ctrl_conn m w) (\<lambda>_ w.
                Ret (ctrl_conn, num_incidents) (LOG_INFO ''Control connection established with %s:%s'' w)))))"
  by pat_completeness auto
termination
  by (relation "measure (\<lambda>(fd, n, m, w). length (w_inputs w))")
    (fastforce dest!: loops_le sys_inputs_less reject_Ret split: if_splits)+

declare ctrl_accept.simps [simp del]

section \<open>The control plane\<close>

record control_plane =
  cp_num_incidents :: int
  cp_ctrl_conn :: fd
  cp_ctrl_port :: fd

definition control_plane_create :: control_plane where
  "control_plane_create = \<lparr>cp_num_incidents = 0, cp_ctrl_conn = 0, cp_ctrl_port = 0\<rparr>"

definition control_plane_start :: "options \<Rightarrow> control_plane \<Rightarrow> world \<Rightarrow> (control_plane \<times> addrinfo) outcome" where
  "control_plane_start opts cp w =
     (if client opts
      then obind (ctrl_connect (host opts) (control_port opts) opts w) (\<lambda>(fd, ai) w.
        Ret (cp\<lparr>cp_ctrl_conn := fd\<rparr>, ai) (LOG_INFO ''connected to control port'' w))
      else obind (ctrl_listen None (control_port opts) opts w) (\<lambda>(fd, ai) w.
        Ret (cp\<lparr>cp_ctrl_port := fd\<rparr>, ai) (LOG_INFO ''opened control port'' w)))"

function ctrl_wait_client :: "fd \<Rightarrow> u32 \<Rightarrow> world \<Rightarrow> unit outcome" where
  "ctrl_wait_client ctrl_conn expect w =
     obind (recv_magic ctrl_conn w) (\<lambda>m w.
       if m \<noteq> expect then ctrl_wait_client ctrl_conn expect (LOG_WARN ''Unexpected magic %d'' w) else Ret () w)"
  by pat_completeness auto

text \<open>\<open>recv_magic\<close> makes at least one call, so the wait uses up answers.\<close>

lemma recv_magic_less: "recv_magic fd w = Ret m w' \<Longrightarrow> length (w_inputs w') < length (w_inputs w)"
proof (induction fd w rule: recv_magic.induct)
  case (1 fd w)
  from "1.prems" obtain r w1 where r: "sys (CRead fd 4) w = Ret r w1"
    and c: "(if r_ret r = -1
       then if w_errno w1 = EINTR \<or> w_errno w1 = EAGAIN then recv_magic fd w1 else LOG_FATAL ''%s: read'' w1
       else if r_ret r \<noteq> 4 then LOG_FATAL ''%s: Incomplete read %d'' w1
       else Ret (ntohl (u32_of_bytes (r_data r))) w1) = Ret m w'"
    by (subst (asm) recv_magic.simps) (auto simp: obind_eq_Ret)
  with sys_inputs_less [OF r] "1.IH" [OF r] show ?case by (fastforce simp: LOG_FATAL_def split: if_splits)
qed

termination ctrl_wait_client
  by (relation "measure (\<lambda>(fd, m, w). length (w_inputs w))") (auto dest: recv_magic_less)

declare ctrl_wait_client.simps [simp del]

fun accept_clients :: "fd \<Rightarrow> u32 \<Rightarrow> nat \<Rightarrow> int \<Rightarrow> world \<Rightarrow> (fd list \<times> int) outcome" where
  "accept_clients ctrl_port m 0 num_incidents w = Ret ([], num_incidents) w"
| "accept_clients ctrl_port m (Suc n) num_incidents w =
     obind (ctrl_accept ctrl_port num_incidents m w) (\<lambda>(fd, num_incidents) w.
       obind (accept_clients ctrl_port m n num_incidents (LOG_INFO ''client %d connected'' w)) (\<lambda>(fds, num_incidents) w.
         Ret (fd # fds, num_incidents) w))"

fun for_fds :: "(fd \<Rightarrow> world \<Rightarrow> 'a outcome) \<Rightarrow> fd list \<Rightarrow> world \<Rightarrow> unit outcome" where
  "for_fds act [] w = Ret () w"
| "for_fds act (fd # fds) w = obind (act fd w) (\<lambda>_ w. for_fds act fds w)"

definition control_plane_wait_until_done :: "options \<Rightarrow> control_plane \<Rightarrow> world \<Rightarrow> control_plane outcome" where
  "control_plane_wait_until_done opts cp w =
     (if client opts
      then obind (sys (CSleep (test_length opts)) w) (\<lambda>_ w. Ret cp (LOG_INFO ''finished sleep'' w))
      else if num_clients opts < 0 then LOG_FATAL ''calloc client_fds'' w
      else let n = nat (num_clients opts); w = LOG_INFO ''expecting %d clients'' w in
        obind (accept_clients (cp_ctrl_port cp) (magic opts) n (cp_num_incidents cp) w) (\<lambda>(client_fds, num_incidents) w.
        obind (do_close (cp_ctrl_port cp) w) (\<lambda>_ w.
        obind (for_fds set_nonblocking (if nonblocking opts then client_fds else []) w) (\<lambda>_ w.
        let w = LOG_INFO ''expecting %d notifications'' w in
        obind (for_fds (\<lambda>fd w. obind (ctrl_wait_client fd (magic opts) w) (\<lambda>_ w.
                 Ret () (LOG_INFO ''received notification %d'' w))) client_fds w) (\<lambda>_ w.
        obind (for_fds do_close client_fds w) (\<lambda>_ w.
          Ret (cp\<lparr>cp_num_incidents := num_incidents\<rparr>) w))))))"

definition ctrl_notify_server :: "fd \<Rightarrow> u32 \<Rightarrow> world \<Rightarrow> unit outcome" where
  "ctrl_notify_server ctrl_conn m w =
     obind (send_magic ctrl_conn m w) (\<lambda>_ w.
       obind (sys (CShutdown ctrl_conn) w) (\<lambda>r w.
         Ret () (if r_ret r \<noteq> 0 then LOG_ERROR ''shutdown'' w else w)))"

definition control_plane_stop :: "options \<Rightarrow> control_plane \<Rightarrow> world \<Rightarrow> unit outcome" where
  "control_plane_stop opts cp w =
     (if client opts
      then obind (ctrl_notify_server (cp_ctrl_conn cp) (magic opts) w) (\<lambda>_ w.
        obind (do_close (cp_ctrl_conn cp) (LOG_INFO ''notified server to exit'' w)) (\<lambda>_ w. Ret () w))
      else Ret () w)"

definition control_plane_incidents :: "control_plane \<Rightarrow> int" where
  "control_plane_incidents cp = cp_num_incidents cp"

section \<open>The protocol as a state machine\<close>

text \<open>
  The abstract specification of the accepting side: which calls may follow each other, and what they
  count. A connection is trusted only by a read that delivers the secret.
\<close>

datatype ctrl_state = Listening | Connected fd | Identified fd | Refused fd | Trusted fd | Established fd

definition heard :: "resp \<Rightarrow> byte list" where
  "heard r = (let data = take (nat (r_ret r)) (r_data r) in data @ replicate (1024 - length data) 0)"

inductive ctrl_step :: "fd \<Rightarrow> u32 \<Rightarrow> ctrl_state \<times> int \<Rightarrow> call \<times> resp \<Rightarrow> ctrl_state \<times> int \<Rightarrow> bool" for ctrl_port m where
  accept_again: "r_ret r = -1 \<Longrightarrow> ctrl_step ctrl_port m (Listening, n) (CAccept ctrl_port, r) (Listening, n)"
| accepted: "r_ret r \<noteq> -1 \<Longrightarrow> ctrl_step ctrl_port m (Listening, n) (CAccept ctrl_port, r) (Connected (r_ret r), n)"
| identified: "ctrl_step ctrl_port m (Connected c, n) (CGetnameinfo, r) (Identified c, n)"
| read_interrupted: "r_ret r = -1 \<Longrightarrow> ctrl_step ctrl_port m (Identified c, n) (CRead c 1024, r) (Identified c, n)"
| read_failed: "r_ret r = -1 \<Longrightarrow> ctrl_step ctrl_port m (Identified c, n) (CRead c 1024, r) (Refused c, n)"
| wrong_secret: "r_ret r \<noteq> -1 \<Longrightarrow> \<not> secret_matches (heard r) \<Longrightarrow>
    ctrl_step ctrl_port m (Identified c, n) (CRead c 1024, r) (Refused c, n + 1)"
| right_secret: "r_ret r \<noteq> -1 \<Longrightarrow> secret_matches (heard r) \<Longrightarrow>
    ctrl_step ctrl_port m (Identified c, n) (CRead c 1024, r) (Trusted c, n)"
| close_again: "r_ret r = -1 \<Longrightarrow> ctrl_step ctrl_port m (Refused c, n) (CClose c, r) (Refused c, n)"
| closed: "ctrl_step ctrl_port m (Refused c, n) (CClose c, r) (Listening, n)"
| write_again: "r_ret r = -1 \<Longrightarrow>
    ctrl_step ctrl_port m (Trusted c, n) (CWrite c (Bytes (bytes_of_u32 (htonl m))), r) (Trusted c, n)"
| answered: "r_ret r = 4 \<Longrightarrow>
    ctrl_step ctrl_port m (Trusted c, n) (CWrite c (Bytes (bytes_of_u32 (htonl m))), r) (Established c, n)"

inductive_cases ctrl_stepE: "ctrl_step ctrl_port m s e s'"

inductive ctrl_run :: "fd \<Rightarrow> u32 \<Rightarrow> ctrl_state \<times> int \<Rightarrow> trace \<Rightarrow> ctrl_state \<times> int \<Rightarrow> bool" for ctrl_port m s where
  stop: "ctrl_run ctrl_port m s [] s"
| step: "ctrl_run ctrl_port m s seg s' \<Longrightarrow> ctrl_step ctrl_port m s' e s'' \<Longrightarrow> ctrl_run ctrl_port m s (seg @ [e]) s''"

lemma ctrl_run_append: "ctrl_run p m s' seg' s'' \<Longrightarrow> ctrl_run p m s seg s' \<Longrightarrow> ctrl_run p m s (seg @ seg') s''"
  by (induction rule: ctrl_run.induct) (auto simp flip: append_assoc intro: ctrl_run.step)

text \<open>\<open>reaches\<close>: the calls between two worlds take the machine from one state to another.\<close>

definition reaches :: "fd \<Rightarrow> u32 \<Rightarrow> world \<Rightarrow> ctrl_state \<times> int \<Rightarrow> world \<Rightarrow> ctrl_state \<times> int \<Rightarrow> bool" where
  "reaches p m w s w' s' \<longleftrightarrow> (\<exists>seg. w_trace w' = w_trace w @ seg \<and> ctrl_run p m s seg s')"

lemma reaches_trans: "reaches p m w s w1 s1 \<Longrightarrow> reaches p m w1 s1 w2 s2 \<Longrightarrow> reaches p m w s w2 s2"
  by (auto simp: reaches_def intro: ctrl_run_append)

lemma reaches_refl [simp]: "reaches p m w s w s"
  by (auto simp: reaches_def intro: ctrl_run.stop)

lemma reaches_trace:
  "w_trace v = w_trace w \<Longrightarrow> reaches p m v s w' s' = reaches p m w s w' s'"
  "w_trace v' = w_trace w' \<Longrightarrow> reaches p m w s v' s' = reaches p m w s w' s'"
  by (simp_all add: reaches_def)

lemma reaches_log [simp]:
  "reaches p m (log_msg l msg w) s w' s' = reaches p m w s w' s'"
  "reaches p m w s (log_msg l msg w') s' = reaches p m w s w' s'"
  by (simp_all add: reaches_def)

lemma reaches_sys: "sys c w = Ret r w' \<Longrightarrow> ctrl_step p m s (c, r) s' \<Longrightarrow> reaches p m w s w' s'"
  using ctrl_run.step [OF ctrl_run.stop, of p m s "(c, r)" s'] by (auto simp: reaches_def dest: sys_answer(1))

lemma accept_conn_reaches:
  "accept_conn p w = Ret c w' \<Longrightarrow> reaches p m w (Listening, n) w' (Connected c, n)"
proof (induction p w rule: accept_conn.induct)
  case (1 p w)
  from "1.prems" obtain r w1 where r: "sys (CAccept p) w = Ret r w1"
    and rest: "(if r_ret r = -1
       then if w_errno w1 = EINTR \<or> w_errno w1 = ECONNABORTED then accept_conn p w1 else LOG_FATAL ''accept'' w1
       else Ret (r_ret r) w1) = Ret c w'"
    by (subst (asm) accept_conn.simps) (auto simp: obind_eq_Ret)
  show ?case
  proof (cases "r_ret r = -1")
    case True
    with rest "1.IH" [OF r True] show ?thesis
      using reaches_trans [OF reaches_sys [OF r ctrl_step.accept_again [OF True]]]
      by (auto simp: LOG_FATAL_def split: if_splits)
  next
    case False
    with rest reaches_sys [OF r ctrl_step.accepted [OF False]] show ?thesis by simp
  qed
qed

lemma do_close_reaches:
  "do_close c w = Ret x w' \<Longrightarrow> reaches p m w (Refused c, n) w' (Listening, n)"
proof (induction c w rule: do_close.induct)
  case (1 c w)
  show ?case
    using "1.prems" [unfolded do_close.simps [of c w]] "1.IH"
    by (auto simp: obind_eq_Ret split: if_splits
        intro: reaches_sys ctrl_step.closed reaches_trans [OF reaches_sys [OF _ ctrl_step.close_again]])
qed

lemma read_secret_reaches:
  "read_secret c w = Ret got w' \<Longrightarrow> (case got of None \<Rightarrow> reaches p m w (Identified c, n) w' (Listening, n)
    | Some data \<Rightarrow> reaches p m w (Identified c, n) w'
        (if secret_matches (data @ replicate (1024 - length data) 0) then (Trusted c, n) else (Refused c, n + 1)))"
proof (induction c w rule: read_secret.induct)
  case (1 c w)
  from "1.prems" obtain r w1 where r: "sys (CRead c 1024) w = Ret r w1"
    and rest: "(if r_ret r = -1
       then if w_errno w1 = EINTR then read_secret c w1
            else obind (do_close c (LOG_ERROR ''read'' w1)) (\<lambda>_ w. Ret None w)
       else Ret (Some (take (nat (r_ret r)) (r_data r))) w1) = Ret got w'"
    by (subst (asm) read_secret.simps) (auto simp: obind_eq_Ret)
  show ?case
  proof (cases "r_ret r = -1")
    case True
    note again = reaches_trans [OF reaches_sys [OF r ctrl_step.read_interrupted [OF True]]]
      and failed = reaches_trans [OF reaches_sys [OF r ctrl_step.read_failed [OF True]]]
    show ?thesis
    proof (cases "w_errno w1 = EINTR")
      case True
      with rest \<open>r_ret r = -1\<close> "1.IH" [OF r] show ?thesis
        by (auto split: option.splits intro: again)
    next
      case False
      with rest \<open>r_ret r = -1\<close> show ?thesis
        using do_close_reaches [of c "LOG_ERROR ''read'' w1" _ w' p m n] by (auto simp: obind_eq_Ret intro: failed)
    qed
  next
    case False
    then show ?thesis
      using rest reaches_sys [OF r ctrl_step.right_secret [OF False]] reaches_sys [OF r ctrl_step.wrong_secret [OF False]]
      by (auto simp: heard_def Let_def)
  qed
qed

lemma send_magic_reaches:
  "send_magic c m w = Ret u w' \<Longrightarrow> reaches p m w (Trusted c, n) w' (Established c, n)"
proof -
  have "send_bytes c bs w = Ret u w' \<Longrightarrow> bs = bytes_of_u32 (htonl m) \<Longrightarrow> reaches p m w (Trusted c, n) w' (Established c, n)" for bs
  proof (induction c bs w rule: send_bytes.induct)
    case (1 c bs w)
    show ?case
      using "1.prems"(1) [unfolded send_bytes.simps [of c bs w]] "1.prems"(2) "1.IH"
      by (auto simp: obind_eq_Ret LOG_FATAL_def split: if_splits
          intro: reaches_sys ctrl_step.answered reaches_trans [OF reaches_sys [OF _ ctrl_step.write_again]])
  qed
  then show "send_magic c m w = Ret u w' \<Longrightarrow> reaches p m w (Trusted c, n) w' (Established c, n)"
    by (simp add: send_magic_def)
qed

lemma ctrl_accept_reaches:
  "ctrl_accept p n m w = Ret (c, n') w' \<Longrightarrow> reaches p m w (Listening, n) w' (Established c, n')"
proof (induction p n m w rule: ctrl_accept.induct)
  case (1 p n m w)
  from "1.prems" obtain conn w1 r w2 got w4 where
    a: "accept_conn p w = Ret conn w1" and g: "sys CGetnameinfo w1 = Ret r w2"
    and rd: "read_secret conn (if r_ret r \<noteq> 0 then LOG_ERROR ''getnameinfo: %s'' w2 else w2) = Ret got w4"
    and rest: "(case got of
         None \<Rightarrow> ctrl_accept p n m w4
       | Some data \<Rightarrow>
           let buf = data @ replicate (1024 - length data) 0 in
           if \<not> secret_matches buf
           then obind (reject buf (length data) w4) (\<lambda>_ w.
                obind (do_close conn w) (\<lambda>_ w. ctrl_accept p (n + 1) m w))
           else obind (send_magic conn m w4) (\<lambda>_ w.
                Ret (conn, n) (LOG_INFO ''Control connection established with %s:%s'' w))) = Ret (c, n') w'"
    by (subst (asm) ctrl_accept.simps) (auto simp: obind_eq_Ret Let_def)
  have "reaches p m w (Listening, n) w2 (Identified conn, n)"
    by (rule reaches_trans [OF accept_conn_reaches [OF a] reaches_sys [OF g ctrl_step.identified]])
  with read_secret_reaches [OF rd, of p m n] have
    ident: "case got of None \<Rightarrow> reaches p m w (Listening, n) w4 (Listening, n)
    | Some data \<Rightarrow> reaches p m w (Listening, n) w4
        (if secret_matches (data @ replicate (1024 - length data) 0) then (Trusted conn, n) else (Refused conn, n + 1))"
    by (auto split: option.splits if_splits intro: reaches_trans)
  show ?case
  proof (cases got)
    case None
    with ident rest "1.IH"(1) [OF a g refl rd] show ?thesis by (auto intro: reaches_trans)
  next
    case (Some data)
    let ?buf = "data @ replicate (1024 - length data) 0"
    show ?thesis
    proof (cases "secret_matches ?buf")
      case True
      with ident rest Some send_magic_reaches [of conn m w4 _ _ p n] show ?thesis
        by (auto simp: obind_eq_Ret Let_def dest: reaches_trans)
    next
      case False
      with rest Some obtain u w5 x w6 where rj: "reject ?buf (length data) w4 = Ret u w5"
        and cl: "do_close conn w5 = Ret x w6" and again: "ctrl_accept p (n + 1) m w6 = Ret (c, n') w'"
        by (auto simp: obind_eq_Ret Let_def)
      have "reaches p m w (Listening, n) w5 (Refused conn, n + 1)"
        using ident Some False reject_Ret [OF rj] by (simp add: reaches_trace(2) [of w5 w4])
      from reaches_trans [OF this do_close_reaches [OF cl]]
      show ?thesis
        using "1.IH"(2) [OF a g refl rd Some refl False rj cl again] by (rule reaches_trans)
    qed
  qed
qed

section \<open>What a run of the machine guarantees\<close>

definition is_wrong :: "call \<times> resp \<Rightarrow> bool" where
  "is_wrong e = (case e of (CRead _ _, r) \<Rightarrow> r_ret r \<noteq> -1 \<and> \<not> secret_matches (heard r) | _ \<Rightarrow> False)"

fun current_conn :: "ctrl_state \<Rightarrow> fd option" where
  "current_conn Listening = None"
| "current_conn (Connected c) = Some c"
| "current_conn (Identified c) = Some c"
| "current_conn (Refused c) = Some c"
| "current_conn (Trusted c) = Some c"
| "current_conn (Established c) = Some c"

text \<open>
  Every connection accepted so far is the current one or was closed; one that is trusted has shown
  the secret; one that is established was last sent the number; every wrong secret was counted.
\<close>

definition ctrl_inv :: "fd \<Rightarrow> u32 \<Rightarrow> int \<Rightarrow> trace \<Rightarrow> ctrl_state \<times> int \<Rightarrow> bool" where
  "ctrl_inv ctrl_port m n seg s \<longleftrightarrow>
     snd s = n + int (length (filter is_wrong seg))
     \<and> (\<forall>r. (CAccept ctrl_port, r) \<in> set seg \<longrightarrow> r_ret r \<noteq> -1 \<longrightarrow>
          current_conn (fst s) = Some (r_ret r) \<or> (\<exists>r'. (CClose (r_ret r), r') \<in> set seg))
     \<and> (\<forall>c. fst s = Trusted c \<or> fst s = Established c \<longrightarrow>
          (\<exists>r. (CRead c 1024, r) \<in> set seg \<and> r_ret r \<noteq> -1 \<and> secret_matches (heard r)))
     \<and> (\<forall>c. fst s = Established c \<longrightarrow>
          (\<exists>r. last seg = (CWrite c (Bytes (bytes_of_u32 (htonl m))), r) \<and> r_ret r = 4))"

lemma ctrl_run_inv: "ctrl_run p m s seg s' \<Longrightarrow> s = (Listening, n) \<Longrightarrow> ctrl_inv p m n seg s'"
proof (induction rule: ctrl_run.induct)
  case (step seg s' e s'')
  then have inv: "ctrl_inv p m n seg s'" by simp
  from step.hyps(2) show ?case
    by cases (use inv in \<open>auto simp: ctrl_inv_def is_wrong_def\<close>)
qed (simp add: ctrl_inv_def)

section \<open>Properties\<close>

text \<open>
  C21: Accepting a control connection refines the state machine: the calls \<open>ctrl_accept\<close> makes until it
  returns take the machine from listening to the connection it returns, with the incidents counted.
\<close>

theorem ctrl_accept_refines:
  assumes "ctrl_accept ctrl_port n m w = Ret (c, n') w'"
  shows "\<exists>seg. w_trace w' = w_trace w @ seg \<and> ctrl_run ctrl_port m (Listening, n) seg (Established c, n')"
  using ctrl_accept_reaches [OF assms] by (simp add: reaches_def)

text \<open>
  C22: A connection that \<open>ctrl_accept\<close> returns has sent the secret and was sent the magic number last
  of all; every other connection it accepted was closed, and the count of incidents grew by the
  number of wrong secrets read.
\<close>

theorem ctrl_accept_authenticates:
  assumes "ctrl_accept ctrl_port n m w = Ret (c, n') w'"
  shows "\<exists>seg. w_trace w' = w_trace w @ seg
    \<and> (\<exists>r. (CRead c 1024, r) \<in> set seg \<and> r_ret r \<noteq> -1 \<and> secret_matches (heard r))
    \<and> (\<exists>r. last seg = (CWrite c (Bytes (bytes_of_u32 (htonl m))), r) \<and> r_ret r = 4)
    \<and> (\<forall>r. (CAccept ctrl_port, r) \<in> set seg \<longrightarrow> r_ret r \<noteq> -1 \<longrightarrow> r_ret r = c \<or> (\<exists>r'. (CClose (r_ret r), r') \<in> set seg))
    \<and> n' = n + int (length (filter is_wrong seg))"
proof -
  obtain seg where seg: "w_trace w' = w_trace w @ seg" "ctrl_run ctrl_port m (Listening, n) seg (Established c, n')"
    using ctrl_accept_reaches [OF assms] by (auto simp: reaches_def)
  from ctrl_run_inv [OF seg(2) refl] seg(1) show ?thesis by (auto simp: ctrl_inv_def)
qed

lemma recv_magic_interrupted:
  "\<forall>e\<in>set es. e = EINTR \<or> e = EAGAIN \<Longrightarrow>
   w_inputs w = map (\<lambda>e. answer (CRead fd 4) (resp0\<lparr>r_ret := -1, r_errno := e\<rparr>)) es
     @ answer (CRead fd 4) (resp0\<lparr>r_ret := 4, r_data := bytes_of_u32 (htonl m)\<rparr>) # ks \<Longrightarrow>
   \<exists>w'. recv_magic fd w = Ret m w' \<and> w_inputs w' = ks"
proof (induction es arbitrary: w)
  case Nil
  then show ?case by (subst recv_magic.simps) (simp add: sys_def Let_def resp0_def)
next
  case (Cons e es)
  define w1 where "w1 = w\<lparr>w_inputs := tl (w_inputs w),
    w_trace := w_trace w @ [(CRead fd 4, resp0\<lparr>r_ret := -1, r_errno := e\<rparr>)], w_errno := e\<rparr>"
  have "sys (CRead fd 4) w = Ret (resp0\<lparr>r_ret := -1, r_errno := e\<rparr>) w1"
    using Cons.prems(2) by (simp add: sys_def Let_def w1_def resp0_def)
  then have "recv_magic fd w = recv_magic fd w1"
    using Cons.prems(1) by (subst recv_magic.simps) (auto simp: w1_def resp0_def)
  moreover have "\<exists>w'. recv_magic fd w1 = Ret m w' \<and> w_inputs w' = ks"
    using Cons.prems by (intro Cons.IH) (simp_all add: w1_def)
  ultimately show ?case by simp
qed

text \<open>
  The magic number survives the wire: a reader that is interrupted any number of times and then
  gets the bytes \<open>send_magic\<close> writes returns the number that was sent.
\<close>

theorem magic_roundtrip:
  assumes "send_magic fd m w = Ret u w'" "last (w_trace w') = (CWrite fd (Bytes bs), r)"
    and "\<forall>e\<in>set es. e = EINTR \<or> e = EAGAIN"
    and "w_inputs v = map (\<lambda>e. answer (CRead peer 4) (resp0\<lparr>r_ret := -1, r_errno := e\<rparr>)) es
      @ answer (CRead peer 4) (resp0\<lparr>r_ret := 4, r_data := bs\<rparr>) # ks"
  shows "\<exists>v'. recv_magic peer v = Ret m v' \<and> w_inputs v' = ks"
proof -
  obtain seg where seg: "w_trace w' = w_trace w @ seg" "ctrl_run 0 m (Trusted fd, 0) seg (Established fd, 0)"
    using send_magic_reaches [OF assms(1), of 0 0] by (auto simp: reaches_def)
  have "\<exists>pre r. seg = pre @ [(CWrite fd (Bytes (bytes_of_u32 (htonl m))), r)]"
    using seg(2) by cases (auto elim!: ctrl_stepE)
  with assms(2) seg(1) have "bs = bytes_of_u32 (htonl m)" by auto
  with recv_magic_interrupted [OF assms(3), of v peer m ks] assms(4) show ?thesis by simp
qed

lemma secret_accepted: "secret_matches (heard (resp0\<lparr>r_ret := 26, r_data := control_port_secret\<rparr>))"
proof -
  have "length control_port_secret = 26" by (simp add: control_port_secret_def)
  then show ?thesis by (simp add: secret_matches_def heard_def SECRET_SIZE_def resp0_def)
qed

lemma accept_secret:
  assumes "r_ret ra = c" "c \<noteq> -1"
    and "w_inputs w = [answer (CAccept ctrl_port) ra, answer CGetnameinfo rn,
      answer (CRead c 1024) (resp0\<lparr>r_ret := 26, r_data := control_port_secret\<rparr>),
      answer (CWrite c (Bytes (bytes_of_u32 (htonl m)))) (resp0\<lparr>r_ret := 4\<rparr>)]"
  shows "\<exists>w'. ctrl_accept ctrl_port n m w = Ret (c, n) w'"
proof -
  have len: "length control_port_secret = 26" by (simp add: control_port_secret_def)
  then have "secret_matches (control_port_secret @ replicate 998 0)"
    using secret_accepted by (simp add: heard_def resp0_def)
  with assms len show ?thesis
    by (simp add: ctrl_accept.simps accept_conn.simps read_secret.simps send_magic_def send_bytes.simps
        sys_def Let_def resp0_def)
qed

text \<open>
  C25: The handshake completes: a server whose kernel delivers in one piece what the client writes
  returns the connection without an incident, and the client, given the bytes the server wrote back,
  goes on exactly if both were started with the same magic number, and otherwise exits.
\<close>

theorem handshake_completes:
  assumes "r_ret ra = c" "c \<noteq> -1"
    and "w_inputs w = [answer (CAccept ctrl_port) ra, answer CGetnameinfo rn,
      answer (CRead c 1024) (resp0\<lparr>r_ret := 26, r_data := control_port_secret\<rparr>),
      answer (CWrite c (Bytes (bytes_of_u32 (htonl m)))) (resp0\<lparr>r_ret := 4\<rparr>)]"
    and "w_inputs v = [answer (CSetsockopt fd TCP_NODELAY 1) rs,
      answer (CWrite fd (Bytes control_port_secret)) (resp0\<lparr>r_ret := 26\<rparr>),
      answer (CRead fd 4) (resp0\<lparr>r_ret := 4, r_data := bytes_of_u32 (htonl m)\<rparr>)]"
  shows "(\<exists>w'. ctrl_accept ctrl_port n m w = Ret (c, n) w')
    \<and> (if magic opts = m then \<exists>v'. ctrl_handshake fd opts v = Ret fd v' else \<exists>v'. ctrl_handshake fd opts v = Exit v')"
proof
  show "\<exists>w'. ctrl_accept ctrl_port n m w = Ret (c, n) w'"
    using assms(1-3) by (rule accept_secret)
  show "if magic opts = m then \<exists>v'. ctrl_handshake fd opts v = Ret fd v' else \<exists>v'. ctrl_handshake fd opts v = Exit v'"
    using assms(4)
    by (simp add: ctrl_handshake_def setsockopt_or_err_def write_secret.simps recv_magic.simps sys_def Let_def
        resp0_def LOG_FATAL_def)
qed

text \<open>
  C37: A peer that sends a byte from 128 on within the first 16 bytes of anything but the secret makes
  the server read outside an array: the dump of a refused secret is not safe.
\<close>

theorem ctrl_accept_high_byte:
  assumes "r_ret ra = c" "c \<noteq> -1" "r_ret rd = int (length (r_data rd))"
    and "\<not> secret_matches (heard rd)" "i < length (r_data rd)" "i < 16" "128 \<le> uint (r_data rd ! i)"
    and "w_inputs w = answer (CAccept ctrl_port) ra # answer CGetnameinfo rn # answer (CRead c 1024) rd # ks"
  shows "\<exists>w'. ctrl_accept ctrl_port n m w = Fault w'"
proof -
  have "hexdump (r_data rd @ zs) (length (r_data rd)) 8192 = OutOfBounds" for zs
    using hexdump_high [of i "r_data rd" 8192] assms(5-7) by (simp add: hexdump_prefix WIDTH_def)
  then have "reject (r_data rd @ zs) (length (r_data rd)) u = Fault u" for zs u by (simp add: reject_def)
  moreover have "\<not> secret_matches (r_data rd @ replicate (1024 - length (r_data rd)) 0)"
    using assms(3,4) by (simp add: heard_def Let_def)
  ultimately show ?thesis
    using assms(1-3,8)
    by (simp add: ctrl_accept.simps accept_conn.simps read_secret.simps sys_def Let_def)
qed

section \<open>A concrete handshake\<close>

definition accepting_world :: world where
  "accepting_world = world0 [answer (CAccept 3) (resp0\<lparr>r_ret := 5\<rparr>), answer CGetnameinfo resp0,
     answer (CRead 5 1024) (resp0\<lparr>r_ret := 26, r_data := control_port_secret\<rparr>),
     answer (CWrite 5 (Bytes (bytes_of_u32 (htonl 42)))) (resp0\<lparr>r_ret := 4\<rparr>)]"

lemma accepting_world_accepts: "\<exists>w'. ctrl_accept 3 0 42 accepting_world = Ret (5, 0) w'"
  by (rule accept_secret) (auto simp: accepting_world_def resp0_def)

theorem ctrl_accept_refines_witness:
  "\<exists>seg. ctrl_run 3 42 (Listening, 0) seg (Established 5, 0)"
  using accepting_world_accepts ctrl_accept_refines [of 3 0 42 accepting_world 5 0] by blast

theorem ctrl_accept_authenticates_witness:
  "\<exists>w'. ctrl_accept 3 0 42 accepting_world = Ret (5, 0) w'
     \<and> (\<exists>r. (CRead 5 1024, r) \<in> set (w_trace w') \<and> secret_matches (heard r))"
  using accepting_world_accepts ctrl_accept_authenticates [of 3 0 42 accepting_world 5 0]
  by (fastforce simp: accepting_world_def)

theorem magic_roundtrip_witness:
  "\<exists>v'. recv_magic 7 (world0 [answer (CRead 7 4) (resp0\<lparr>r_ret := -1, r_errno := EINTR\<rparr>),
     answer (CRead 7 4) (resp0\<lparr>r_ret := 4, r_data := bytes_of_u32 (htonl 42)\<rparr>)]) = Ret 42 v'"
proof -
  obtain w' where "send_magic 5 42 (world0 [answer (CWrite 5 (Bytes (bytes_of_u32 (htonl 42)))) (resp0\<lparr>r_ret := 4\<rparr>)]) = Ret () w'"
    "last (w_trace w') = (CWrite 5 (Bytes (bytes_of_u32 (htonl 42))), resp0\<lparr>r_ret := 4\<rparr>)"
    by (simp add: send_magic_def send_bytes.simps sys_def Let_def resp0_def)
  from magic_roundtrip [OF this, of "[EINTR]" "world0 [answer (CRead 7 4) (resp0\<lparr>r_ret := -1, r_errno := EINTR\<rparr>),
     answer (CRead 7 4) (resp0\<lparr>r_ret := 4, r_data := bytes_of_u32 (htonl 42)\<rparr>)]" 7 "[]"] show ?thesis by auto
qed

theorem handshake_completes_witness:
  "\<exists>v'. ctrl_handshake 4 (options0\<lparr>magic := 42\<rparr>) (world0 [answer (CSetsockopt 4 TCP_NODELAY 1) resp0,
      answer (CWrite 4 (Bytes control_port_secret)) (resp0\<lparr>r_ret := 26\<rparr>),
      answer (CRead 4 4) (resp0\<lparr>r_ret := 4, r_data := bytes_of_u32 (htonl 42)\<rparr>)]) = Ret 4 v'"
proof -
  have conn: "r_ret (resp0\<lparr>r_ret := 5\<rparr>) = 5" "(5 :: int) \<noteq> -1" by simp_all
  show ?thesis
    using handshake_completes [OF conn, of accepting_world 3 resp0 42 "world0 [answer (CSetsockopt 4 TCP_NODELAY 1) resp0,
        answer (CWrite 4 (Bytes control_port_secret)) (resp0\<lparr>r_ret := 26\<rparr>),
        answer (CRead 4 4) (resp0\<lparr>r_ret := 4, r_data := bytes_of_u32 (htonl 42)\<rparr>)]" 4 resp0 0 "options0\<lparr>magic := 42\<rparr>"]
    by (simp add: accepting_world_def)
qed

theorem ctrl_accept_high_byte_witness:
  "\<exists>w'. ctrl_accept 3 0 42 (world0 [answer (CAccept 3) (resp0\<lparr>r_ret := 5\<rparr>), answer CGetnameinfo resp0,
     answer (CRead 5 1024) (resp0\<lparr>r_ret := 1, r_data := [255]\<rparr>)]) = Fault w'"
proof (rule ctrl_accept_high_byte [of "resp0\<lparr>r_ret := 5\<rparr>" 5 "resp0\<lparr>r_ret := 1, r_data := [255]\<rparr>" 0])
  have "hd control_port_secret = 110" "SECRET_SIZE = 26" by (simp_all add: control_port_secret_def SECRET_SIZE_def)
  then show "\<not> secret_matches (heard (resp0\<lparr>r_ret := 1, r_data := [255]\<rparr>))"
    by (auto simp: secret_matches_def heard_def Let_def resp0_def dest: arg_cong [of _ _ hd])
qed (simp_all add: resp0_def)

end
