(* ===== verification/Cpuinfo.thy ===== *)
theory Cpuinfo
  imports Percentiles
begin

text \<open>
  \<open>cpuinfo.c\<close>: reading \<open>/proc/cpuinfo\<close>, a text of lines \<open>key : value\<close>, with \<open>fscanf\<close>. The end of a
  processor's block is noticed by the failure to read a value on a line without one, whichever line that is.
\<close>

section \<open>Scanning\<close>

abbreviation newline :: char where "newline \<equiv> CHR 0x0A"

text \<open>
  \<open>fscanf(f, "%m[^:]:%m[^\n]\n", &key, &value)\<close>: key and value if both are found, whether the end of
  the file was met on the way to a failure, and the text not read yet. The final newline of the
  format skips any white space.
\<close>

definition scan_line :: "string \<Rightarrow> (string \<times> string) option \<times> bool \<times> string" where
  "scan_line s =
     (let key = takeWhile (\<lambda>c. c \<noteq> CHR '':'') s in
      if key = [] then (None, s = [], s)
      else case dropWhile (\<lambda>c. c \<noteq> CHR '':'') s of
        [] \<Rightarrow> (None, True, [])
      | _ # t \<Rightarrow>
          let value = takeWhile (\<lambda>c. c \<noteq> newline) t; rest = dropWhile (\<lambda>c. c \<noteq> newline) t
          in if value = [] then (None, rest = [], rest)
             else (Some (key, value), False, dropWhile is_space rest))"

definition ltrim :: "string \<Rightarrow> string" where "ltrim = dropWhile is_space"
definition rtrim :: "string \<Rightarrow> string" where "rtrim s = rev (dropWhile is_space (rev s))"

text \<open>\<open>sscanf(s, "%d", &old)\<close>: without digits the variable keeps its value.\<close>

definition scan_int :: "string \<Rightarrow> int \<Rightarrow> int" where
  "scan_int s old = (case strtol10 s of (v, _, rest) \<Rightarrow> if rest = s then old else sint (word_of_int v :: 32 word))"

section \<open>Processors\<close>

record cpuinfo =
  processor :: int
  physical_id :: int
  siblings :: int
  core_id :: int
  cpu_cores :: int

definition cpuinfo0 :: cpuinfo where
  "cpuinfo0 = \<lparr>processor = 0, physical_id = 0, siblings = 0, core_id = 0, cpu_cores = 0\<rparr>"

definition store_field :: "string \<times> string \<Rightarrow> cpuinfo \<Rightarrow> cpuinfo" where
  "store_field kv cpu = (case kv of (key, value) \<Rightarrow>
     let k = ltrim (rtrim key) in
     if k = ''processor'' then cpu\<lparr>processor := scan_int value (processor cpu)\<rparr>
     else if k = ''physical id'' then cpu\<lparr>physical_id := scan_int value (physical_id cpu)\<rparr>
     else if k = ''siblings'' then cpu\<lparr>siblings := scan_int value (siblings cpu)\<rparr>
     else if k = ''core id'' then cpu\<lparr>core_id := scan_int value (core_id cpu)\<rparr>
     else if k = ''cpu cores'' then cpu\<lparr>cpu_cores := scan_int value (cpu_cores cpu)\<rparr>
     else cpu)"

lemma scan_line_shorter: "scan_line s = (Some kv, eof, rest) \<Longrightarrow> length rest < length s"
proof -
  assume h: "scan_line s = (Some kv, eof, rest)"
  then obtain c t where t: "dropWhile (\<lambda>c. c \<noteq> CHR '':'') s = c # t"
    "rest = dropWhile is_space (dropWhile (\<lambda>c. c \<noteq> newline) t)"
    by (auto simp: scan_line_def Let_def split: if_splits list.splits)
  have "length rest \<le> length t"
    unfolding t(2) using length_dropWhile_le order_trans by blast
  with dropWhile_shorter [OF t(1)] show ?thesis by simp
qed

text \<open>The two loops: \<open>cpu\<close> is the entry being filled, \<open>room\<close> the number of entries left.\<close>

function get_cpus :: "nat \<Rightarrow> cpuinfo \<Rightarrow> string \<Rightarrow> cpuinfo list" where
  "get_cpus room cpu s =
     (if room = 0 then []
      else case scan_line s of
        (Some kv, _, rest) \<Rightarrow> get_cpus room (store_field kv cpu) rest
      | (None, eof, rest) \<Rightarrow> if eof then [] else cpu # get_cpus (room - 1) cpuinfo0 rest)"
  by pat_completeness auto
termination
  by (relation "measures [\<lambda>(room, _, s). room, \<lambda>(_, _, s). length s]") (auto dest: scan_line_shorter [OF sym])

declare get_cpus.simps [simp del]

text \<open>The contents of the file are the data of the answer that opens it; -1 is \<open>None\<close>.\<close>

definition get_cpuinfo :: "nat \<Rightarrow> world \<Rightarrow> cpuinfo list option outcome" where
  "get_cpuinfo max_cpus w =
     obind (sys (COpen ''/proc/cpuinfo'') w) (\<lambda>f w.
       if r_ret f = -1 then Ret None w
       else let cpus = get_cpus max_cpus cpuinfo0 (map (\<lambda>b. char_of (unat b)) (r_data f)) in
         obind (sys (CClose (r_ret f)) w) (\<lambda>_ w. Ret (Some cpus) w))"

section \<open>Reading lines\<close>

definition line_text :: "string \<times> string \<Rightarrow> string" where
  "line_text kv = fst kv @ '':'' @ snd kv @ [newline]"

text \<open>A line; its value may be empty.\<close>

definition line_ok :: "string \<times> string \<Rightarrow> bool" where
  "line_ok kv \<longleftrightarrow> fst kv \<noteq> [] \<and> \<not> is_space (hd (fst kv)) \<and> CHR '':'' \<notin> set (fst kv) \<and> newline \<notin> set (fst kv) \<and> newline \<notin> set (snd kv)"

text \<open>What the kernel prints for a processor: lines, and a blank line.\<close>

definition block_text :: "(string \<times> string) list \<Rightarrow> string" where
  "block_text kvs = concat (map line_text kvs) @ [newline]"

lemma newline_space [simp]: "is_space newline"
  by (simp add: is_space_def char_code_def)

lemma colon_not_space: "\<not> is_space CHR '':''"
  by (simp add: is_space_def char_code_def)

lemma takeWhile_to: "x \<notin> set xs \<Longrightarrow> takeWhile (\<lambda>c. c \<noteq> x) (xs @ x # ys) = xs"
  "x \<notin> set xs \<Longrightarrow> dropWhile (\<lambda>c. c \<noteq> x) (xs @ x # ys) = x # ys"
  by (induction xs) auto

lemma scan_line_text:
  assumes "line_ok (k, v)" "\<forall>c\<in>set ws. is_space c"
  shows "scan_line (ws @ line_text (k, v) @ rest) =
    (if v = [] then (None, False, newline # rest) else (Some (ws @ k, v), False, dropWhile is_space rest))"
proof -
  have "CHR '':'' \<notin> set (ws @ k)" using assms colon_not_space by (auto simp: line_ok_def)
  from takeWhile_to [OF this] takeWhile_to [of newline v] assms(1) show ?thesis
    by (simp add: scan_line_def line_text_def line_ok_def Let_def)
qed

lemma ltrim_spaces: "\<forall>c\<in>set ws. is_space c \<Longrightarrow> k \<noteq> [] \<Longrightarrow> \<not> is_space (hd k) \<Longrightarrow> ltrim (rtrim (ws @ k)) = ltrim (rtrim k)"
proof -
  assume ws: "\<forall>c\<in>set ws. is_space c" and k: "k \<noteq> []" "\<not> is_space (hd k)"
  have "hd k \<in> set (rev k)" using k(1) by simp
  with k(2) have "dropWhile is_space (rev k @ rev ws) = dropWhile is_space (rev k) @ rev ws"
    by (auto simp: dropWhile_append1)
  with ws show ?thesis by (simp add: ltrim_def rtrim_def)
qed

lemma store_field_spaces: "\<forall>c\<in>set ws. is_space c \<Longrightarrow> line_ok (k, v) \<Longrightarrow> store_field (ws @ k, v) = store_field (k, v)"
  by (rule ext) (simp add: store_field_def ltrim_spaces line_ok_def)

fun read_lines :: "cpuinfo \<Rightarrow> (string \<times> string) list \<Rightarrow> cpuinfo list" where
  "read_lines cpu [] = []"
| "read_lines cpu (kv # kvs) =
     (if snd kv = [] then cpu # read_lines cpuinfo0 kvs else read_lines (store_field kv cpu) kvs)"

abbreviation spaced_text :: "((string \<times> string) \<times> string) list \<Rightarrow> string" where
  "spaced_text items \<equiv> concat (map (\<lambda>(kv, blank). line_text kv @ blank) items)"

lemma skip_to_line:
  assumes "\<forall>(kv, blank)\<in>set items. line_ok kv \<and> (\<forall>c\<in>set blank. is_space c)" "\<forall>c\<in>set ws. is_space c"
  shows "dropWhile is_space (ws @ spaced_text items) = spaced_text items"
  using assms by (cases items) (auto simp: line_text_def line_ok_def neq_Nil_conv dropWhile_append3)

lemma get_cpus_spaced:
  "\<forall>(kv, blank)\<in>set items. line_ok kv \<and> (\<forall>c\<in>set blank. is_space c) \<Longrightarrow> \<forall>c\<in>set ws. is_space c \<Longrightarrow>
   get_cpus room cpu (ws @ spaced_text items) = take room (read_lines cpu (map fst items))"
proof (induction items arbitrary: room ws cpu)
  case Nil
  then have all: "takeWhile (\<lambda>c. c \<noteq> CHR '':'') ws = ws" "dropWhile (\<lambda>c. c \<noteq> CHR '':'') ws = []"
    using colon_not_space by (auto simp: takeWhile_eq_all_conv dropWhile_eq_Nil_conv)
  have "scan_line ws = (None, True, if ws = [] then ws else [])"
    unfolding scan_line_def Let_def all by simp
  then show ?case by (simp add: get_cpus.simps [of room cpu ws])
next
  case (Cons item items)
  obtain k v blank where item: "item = ((k, v), blank)" by (metis surj_pair)
  have ok: "line_ok (k, v)" "\<forall>c\<in>set blank. is_space c"
    and rest: "\<forall>(kv, blank)\<in>set items. line_ok kv \<and> (\<forall>c\<in>set blank. is_space c)" using Cons.prems(1) by (auto simp: item)
  have whole: "ws @ spaced_text (item # items) = ws @ line_text (k, v) @ (blank @ spaced_text items)" by (simp add: item)
  show ?case
  proof (cases room)
    case 0
    then show ?thesis by (simp add: get_cpus.simps [of 0])
  next
    case (Suc n)
    show ?thesis
    proof (cases "v = []")
      case True
      have "get_cpus n cpuinfo0 ((newline # blank) @ spaced_text items) = take n (read_lines cpuinfo0 (map fst items))"
        by (rule Cons.IH [OF rest]) (use ok(2) in simp)
      then show ?thesis
        unfolding whole by (subst get_cpus.simps) (simp add: scan_line_text [OF ok(1) Cons.prems(2), unfolded True] True Suc item)
    next
      case False
      have "get_cpus room (store_field (k, v) cpu) ([] @ spaced_text items) = take room (read_lines (store_field (k, v) cpu) (map fst items))"
        by (rule Cons.IH [OF rest]) simp
      then show ?thesis
        unfolding whole
        by (subst get_cpus.simps)
          (simp add: scan_line_text [OF ok(1) Cons.prems(2)] False Suc item skip_to_line [OF rest ok(2)]
            store_field_spaces [OF Cons.prems(2) ok(1)])
    qed
  qed
qed

section \<open>The entries\<close>

text \<open>The lines of an entry: those since the last line without a value, up to the next. Lines after the last such line are lost.\<close>

fun entries :: "(string \<times> string) list \<Rightarrow> (string \<times> string) list \<Rightarrow> (string \<times> string) list list" where
  "entries seen [] = []"
| "entries seen (kv # kvs) = (if snd kv = [] then seen # entries [] kvs else entries (seen @ [kv]) kvs)"

text \<open>The numbers that lines give a field; the last one counts.\<close>

definition number :: "string \<Rightarrow> int option" where
  "number s = (case strtol10 s of (v, _, rest) \<Rightarrow> if rest = s then None else Some (sint (word_of_int v :: 32 word)))"

definition numbers_of :: "string \<Rightarrow> (string \<times> string) list \<Rightarrow> int list" where
  "numbers_of name kvs = concat (map (\<lambda>(k, v). if ltrim (rtrim k) = name then (case number v of None \<Rightarrow> [] | Some n \<Rightarrow> [n]) else []) kvs)"

definition field :: "string \<Rightarrow> (string \<times> string) list \<Rightarrow> int" where
  "field name kvs = last (0 # numbers_of name kvs)"

definition entry :: "(string \<times> string) list \<Rightarrow> cpuinfo" where
  "entry kvs = \<lparr>processor = field ''processor'' kvs, physical_id = field ''physical id'' kvs, siblings = field ''siblings'' kvs,
     core_id = field ''core id'' kvs, cpu_cores = field ''cpu cores'' kvs\<rparr>"

lemma scan_int_number: "scan_int s old = (case number s of None \<Rightarrow> old | Some n \<Rightarrow> n)"
  by (simp add: scan_int_def number_def split: prod.split)

lemma field_snoc: "field name (kvs @ [(k, v)]) = (if ltrim (rtrim k) = name then scan_int v (field name kvs) else field name kvs)"
  by (simp add: field_def numbers_of_def scan_int_number split: option.split)

lemma fold_store_field: "fold store_field kvs cpuinfo0 = entry kvs"
proof (induction kvs rule: rev_induct)
  case Nil
  show ?case by (simp add: entry_def field_def numbers_of_def cpuinfo0_def)
next
  case (snoc kv kvs)
  obtain k v where kv: "kv = (k, v)" by fastforce
  have "store_field (k, v) (entry kvs) = entry (kvs @ [(k, v)])"
    by (simp add: entry_def field_snoc store_field_def Let_def)
  with snoc show ?case by (simp add: kv)
qed

lemma read_lines_entries: "read_lines (fold store_field seen cpuinfo0) kvs = map entry (entries seen kvs)"
proof (induction seen kvs rule: entries.induct)
  case (2 seen kv kvs)
  then show ?case using "2.IH" fold_store_field [of seen] by (cases "snd kv = []") simp_all
qed simp

lemma get_cpus_blocks:
  assumes "\<forall>kvs\<in>set blocks. \<forall>kv\<in>set kvs. line_ok kv"
  shows "get_cpus room cpuinfo0 (concat (map block_text blocks)) = take room (map entry (entries [] (concat blocks)))"
proof -
  have blanks: "\<exists>items ws. concat (map block_text blocks) = ws @ spaced_text items \<and> map fst items = concat blocks
      \<and> (\<forall>(kv, blank)\<in>set items. line_ok kv \<and> (\<forall>c\<in>set blank. is_space c)) \<and> (\<forall>c\<in>set ws. is_space c)"
    using assms
  proof (induction blocks)
    case Nil
    show ?case by (intro exI [of _ "[]"]) simp
  next
    case (Cons kvs blocks)
    then obtain items ws where b: "concat (map block_text blocks) = ws @ spaced_text items" "map fst items = concat blocks"
      "\<forall>(kv, blank)\<in>set items. line_ok kv \<and> (\<forall>c\<in>set blank. is_space c)" "\<forall>c\<in>set ws. is_space c" by auto
    let ?plain = "\<lambda>kvs. map (\<lambda>kv. (kv, [] :: string)) kvs"
    have plain: "spaced_text (?plain xs) = concat (map line_text xs)" "map fst (?plain xs) = xs" for xs
      by (simp_all add: comp_def)
    show ?case
    proof (cases kvs rule: rev_cases)
      case Nil
      with b show ?thesis by (intro exI [of _ items] exI [of _ "newline # ws"]) (simp add: block_text_def [of "[]"])
    next
      case (snoc init kv)
      let ?items = "?plain init @ [(kv, newline # ws)] @ items"
      have "concat (map block_text (kvs # blocks)) = [] @ spaced_text ?items"
        using b(1) plain(1) [of init] by (simp add: block_text_def snoc)
      moreover have "map fst ?items = concat (kvs # blocks)" using b(2) plain(2) [of init] by (simp add: snoc)
      moreover have "\<forall>(kv, blank)\<in>set ?items. line_ok kv \<and> (\<forall>c\<in>set blank. is_space c)"
        using b(3,4) Cons.prems by (auto simp: snoc)
      ultimately show ?thesis by (intro exI [of _ ?items] exI [of _ "[]"]) simp
    qed
  qed
  then obtain items ws where b: "concat (map block_text blocks) = ws @ spaced_text items" "map fst items = concat blocks"
      "\<forall>(kv, blank)\<in>set items. line_ok kv \<and> (\<forall>c\<in>set blank. is_space c)" "\<forall>c\<in>set ws. is_space c" by blast
  have "get_cpus room cpuinfo0 (ws @ spaced_text items) = take room (read_lines cpuinfo0 (concat blocks))"
    using get_cpus_spaced [OF b(3,4)] b(2) by simp
  with b(1) read_lines_entries [of "[]" "concat blocks"] show ?thesis by simp
qed

section \<open>Properties\<close>

text \<open>
  C32: From blocks of lines with any values, some of them maybe empty, \<open>get_cpuinfo\<close> reads one entry for each line without a
  value, up to the room in the caller's array: the fields of the entry are the numbers that the lines since the previous
  such line give under the names processor, physical id, siblings, core id and cpu cores (the last one counts, 0 if there
  is none). So there is one entry for each processor exactly if each block ends with the only line of it that has no
  value, as \<open>power management\<close> on processors without power management flags.
\<close>

theorem cpuinfo_blocks:
  assumes "\<forall>kvs\<in>set blocks. \<forall>kv\<in>set kvs. line_ok kv"
  shows "get_cpus room cpuinfo0 (concat (map block_text blocks))
    = take room (map (\<lambda>kvs. \<lparr>processor = field ''processor'' kvs, physical_id = field ''physical id'' kvs,
        siblings = field ''siblings'' kvs, core_id = field ''core id'' kvs, cpu_cores = field ''cpu cores'' kvs\<rparr>)
      (entries [] (concat blocks)))"
  using get_cpus_blocks [OF assms, of room] by (simp add: entry_def [abs_def])

lemma entries_all_valued: "\<forall>kv\<in>set kvs. snd kv \<noteq> [] \<Longrightarrow> entries seen kvs = []"
  by (induction kvs arbitrary: seen) auto

text \<open>
  From blocks whose lines all have a value (as other architectures print them, and processors of AMD, with power management
  flags) \<open>get_cpuinfo\<close> reads no processor at all, however many there are.
\<close>

theorem cpuinfo_needs_empty_value:
  assumes "\<forall>kvs\<in>set blocks. \<forall>kv\<in>set kvs. line_ok kv \<and> snd kv \<noteq> []"
  shows "get_cpus room cpuinfo0 (concat (map block_text blocks)) = []"
proof -
  have "\<forall>kvs\<in>set blocks. \<forall>kv\<in>set kvs. line_ok kv" using assms by simp
  from get_cpus_blocks [OF this] show ?thesis by (simp add: entries_all_valued assms)
qed

text \<open>Two processors of one core.\<close>

definition two_blocks :: "(string \<times> string) list list" where
  "two_blocks = map (\<lambda>p. [(''processor '', '' '' @ p), (''flags '', '' fpu''), (''physical id '', '' 1''), (''core id '', '' 7''),
       (''power management'', [])])
     [''4'', ''5'']"

lemma strtol_digit: "strtol10 [CHR '' '', CHR ''4''] = (4, False, [])" "strtol10 [CHR '' '', CHR ''5''] = (5, False, [])"
  "strtol10 [CHR '' '', CHR ''1''] = (1, False, [])" "strtol10 [CHR '' '', CHR ''7''] = (7, False, [])"
  by (simp_all add: strtol10_def split_sign_def is_space_def is_digit_def digit_value_def char_code_def LONG_MAX_def LONG_MIN_def)

lemma two_blocks_ok: "\<forall>kvs\<in>set two_blocks. \<forall>kv\<in>set kvs. line_ok kv"
  by (simp add: two_blocks_def line_ok_def is_space_def char_code_def)

theorem cpuinfo_blocks_witness:
  "map (\<lambda>c. (processor c, physical_id c, core_id c)) (get_cpus 1024 cpuinfo0 (concat (map block_text two_blocks)))
     = [(4, 1, 7), (5, 1, 7)]"
  using cpuinfo_blocks [OF two_blocks_ok, of 1024]
  by (simp add: two_blocks_def field_def numbers_of_def number_def strtol_digit ltrim_def rtrim_def is_space_def char_code_def)

theorem cpuinfo_needs_empty_value_witness:
  "get_cpus 1024 cpuinfo0 (concat (map block_text [[(''processor '', '' 0''), (''BogoMIPS '', '' 50'')]])) = []"
  by (rule cpuinfo_needs_empty_value) (simp add: line_ok_def is_space_def char_code_def)

end
