(* ===== verification/Logging.thy ===== *)
theory Logging
  imports World
begin

text \<open>
  \<open>logging.c\<close>: where a message goes and whether a fatal one ends the program. The other theories use
  \<open>log_msg\<close> and \<open>LOG_FATAL\<close> of the world, which are this code when the log file can be opened; the
  theorems here say exactly when that is so. The prefix of a line (time, thread, position) is left out.
\<close>

record logger =
  stdout_lines :: nat
  log_file :: "fd option" \<comment> \<open>\<open>None\<close> for NULL\<close>
  g_logtostderr :: bool

definition logger0 :: logger where
  "logger0 = \<lparr>stdout_lines = 0, log_file = None, g_logtostderr = False\<rparr>"

definition print :: "string \<Rightarrow> pval \<Rightarrow> logger \<Rightarrow> world \<Rightarrow> logger \<times> world" where
  "print key val st w = (st\<lparr>stdout_lines := stdout_lines st + 1\<rparr>, PRINT key val w)"

text \<open>The name of the file is built from the program, the host, the user and the time.\<close>

definition open_log :: "string \<Rightarrow> logger \<Rightarrow> world \<Rightarrow> (logger \<times> bool) outcome" where
  "open_log path st w =
     obind (case log_file st of None \<Rightarrow> Ret () w | Some f \<Rightarrow> obind (sys (CClose f) w) (\<lambda>_ w. Ret () w)) (\<lambda>_ w.
       obind (sys (COpen path) w) (\<lambda>r w.
         if r_ret r = -1 then Ret (st\<lparr>log_file := None\<rparr>, False) w
         else Ret (st\<lparr>log_file := Some (r_ret r)\<rparr>, True) w))"

definition close_log :: "logger \<Rightarrow> world \<Rightarrow> logger outcome" where
  "close_log st w = (case log_file st of
       None \<Rightarrow> Ret st w
     | Some f \<Rightarrow> obind (sys (CClose f) w) (\<lambda>_ w. Ret (st\<lparr>log_file := None\<rparr>) w))"

text \<open>
  The formatted text: a buffer of 4096 holds 4095 characters. A longer result is formatted again
  from the argument list that the first pass has used up, which is undefined (\<open>None\<close>).
\<close>

definition format_msg :: "string \<Rightarrow> string option" where
  "format_msg msg = (if length msg > 4096 then None else Some (take 4095 msg))"

definition emit :: "log_level \<Rightarrow> string \<Rightarrow> logger \<Rightarrow> world \<Rightarrow> logger outcome" where
  "emit level msg st w = (case format_msg msg of
       None \<Rightarrow> Fault w
     | Some m \<Rightarrow>
         let w = log_msg level m w in
         if level = FATAL
         then (case log_file st of
                 None \<Rightarrow> Fault w \<comment> \<open>\<open>fclose(NULL)\<close>\<close>
               | Some f \<Rightarrow> obind (sys (CClose f) w) (\<lambda>_ w. Exit w))
         else Ret st w)"

definition logging :: "string \<Rightarrow> log_level \<Rightarrow> string \<Rightarrow> logger \<Rightarrow> world \<Rightarrow> logger outcome" where
  "logging path level msg st w =
     (if log_file st = None \<and> \<not> g_logtostderr st
      then obind (open_log path st w) (\<lambda>(st, opened) w. if \<not> opened then Ret st w else emit level msg st w)
      else emit level msg st w)"

definition log_fatal :: "string \<Rightarrow> string \<Rightarrow> logger \<Rightarrow> world \<Rightarrow> logger outcome" where
  "log_fatal path msg = logging path FATAL msg"

definition log_error :: "string \<Rightarrow> string \<Rightarrow> logger \<Rightarrow> world \<Rightarrow> logger outcome" where
  "log_error path msg = logging path ERROR msg"

definition log_warn :: "string \<Rightarrow> string \<Rightarrow> logger \<Rightarrow> world \<Rightarrow> logger outcome" where
  "log_warn path msg = logging path WARNING msg"

definition log_info :: "string \<Rightarrow> string \<Rightarrow> logger \<Rightarrow> world \<Rightarrow> logger outcome" where
  "log_info path msg = logging path INFO msg"

definition logtostderr :: "logger \<Rightarrow> logger" where
  "logtostderr st = st\<lparr>g_logtostderr := True\<rparr>"

definition logging_exit :: "logger \<Rightarrow> world \<Rightarrow> logger outcome" where
  "logging_exit = close_log"

section \<open>Properties\<close>

text \<open>
  C33: A fatal message of at most 4096 characters ends the program where a log file is open or can be
  opened; where it cannot, \<open>log_fatal\<close> returns and its caller goes on; and with the log on standard
  error it closes a file that was never opened. A message that is not fatal never ends the program.
\<close>

theorem log_fatal_ends:
  assumes "length msg \<le> 4096" "w_inputs w = k # k' # ks"
  shows "((\<exists>w'. log_fatal path msg st w = Exit w')
      \<longleftrightarrow> log_file st \<noteq> None \<or> \<not> g_logtostderr st \<and> r_ret (k (w_trace w) (COpen path)) \<noteq> -1)
    \<and> ((\<exists>st' w'. log_fatal path msg st w = Ret st' w')
      \<longleftrightarrow> log_file st = None \<and> \<not> g_logtostderr st \<and> r_ret (k (w_trace w) (COpen path)) = -1)
    \<and> ((\<exists>w'. log_fatal path msg st w = Fault w') \<longleftrightarrow> log_file st = None \<and> g_logtostderr st)
    \<and> (level \<noteq> FATAL \<longrightarrow> (\<exists>st' w'. logging path level msg st w = Ret st' w'))"
  using assms
  by (auto simp: log_fatal_def logging_def open_log_def emit_def format_msg_def sys_def Let_def split: option.splits)

text \<open>
  The text that reaches the log is the message when it has fewer than 4096 characters; a message of
  exactly 4096 loses its last one.
\<close>

theorem log_text:
  assumes "length msg \<le> 4096" "log_file st = Some f" "level \<noteq> FATAL"
  shows "\<exists>w'. logging path level msg st w = Ret st w'
    \<and> w_log w' = w_log w @ [(level, if length msg = 4096 then butlast msg else msg)]"
  using assms
  by (auto simp: logging_def emit_def format_msg_def butlast_conv_take Let_def)

definition open_fails :: "kernel list" where
  "open_fails = [\<lambda>_ _. resp0\<lparr>r_ret := -1\<rparr>, \<lambda>_ _. resp0]"

theorem log_fatal_ends_witness:
  "\<exists>st' w'. log_fatal ''a.log'' ''socket'' logger0 (world0 open_fails) = Ret st' w'"
  using log_fatal_ends [of "''socket''" "world0 open_fails" "\<lambda>_ _. resp0\<lparr>r_ret := -1\<rparr>" "\<lambda>_ _. resp0" "[]" "''a.log''" logger0]
  by (simp add: open_fails_def logger0_def)

theorem log_text_witness:
  "\<exists>w'. logging ''a.log'' INFO (replicate 4096 CHR ''x'') (logger0\<lparr>log_file := Some 3\<rparr>) (world0 [])
      = Ret (logger0\<lparr>log_file := Some 3\<rparr>) w' \<and> w_log w' = [(INFO, replicate 4095 CHR ''x'')]"
proof -
  have b: "butlast (replicate 4096 CHR ''x'') = replicate 4095 CHR ''x''"
    by (simp add: butlast_conv_take)
  show ?thesis
    using log_text [of "replicate 4096 CHR ''x''" "logger0\<lparr>log_file := Some 3\<rparr>" 3 INFO "''a.log''" "world0 []"]
    unfolding b by simp
qed

end
