(* ===== verification/Flow.thy ===== *)
theory Flow
  imports Sample
begin

text \<open>
  \<open>interval.c\<close> and \<open>flow.c\<close>: per-flow measurement intervals and the flow objects. The start of the
  measurement is shared by all threads of the process and set by whichever flow is measured first;
  the pthread mutex around that is not needed in the model, where one operation runs at a time.
\<close>

section \<open>Measurement intervals\<close>

definition is_uninitialized :: "timespec \<Rightarrow> bool" where
  "is_uninitialized ts \<longleftrightarrow> tv_sec ts = 0 \<and> tv_nsec ts = 0"

definition interval_create :: "double \<Rightarrow> interval" where
  "interval_create interval_in_seconds = \<lparr>itv_seconds = interval_in_seconds, itv_last_time = Timespec 0 0\<rparr>"

definition ensure_initialized :: "interval \<Rightarrow> timespec \<Rightarrow> world \<Rightarrow> interval outcome" where
  "ensure_initialized itv now w =
     (if is_uninitialized (itv_last_time itv)
      then if is_uninitialized (w_time_start w)
           then obind (sys (CGetrusage RUSAGE_SELF) w) (\<lambda>r w.
             Ret (itv\<lparr>itv_last_time := now\<rparr>) (w\<lparr>w_rusage_start := r_rusage r, w_time_start := now\<rparr>))
           else Ret (itv\<lparr>itv_last_time := w_time_start w\<rparr>) w
      else Ret itv w)"

definition ts_real :: "timespec \<Rightarrow> real" where
  "ts_real a = of_int (tv_sec a) + of_int (tv_nsec a) * (1 / 1000000000)"

definition to_seconds :: "timespec \<Rightarrow> double" where
  "to_seconds a = Fin (ts_real a)"

fun dfloor :: "double \<Rightarrow> double" where
  "dfloor (Fin r) = Fin (of_int \<lfloor>r\<rfloor>)"
| "dfloor d = d"

definition trunc :: "real \<Rightarrow> int" where
  "trunc r = (if 0 \<le> r then \<lfloor>r\<rfloor> else \<lceil>r\<rceil>)"

text \<open>Converting a double to \<open>time_t\<close> is undefined behaviour if its integer part is no \<open>long\<close>.\<close>

definition get_next_time :: "interval \<Rightarrow> double \<Rightarrow> interval option" where
  "get_next_time itv duration =
     (case dadd (to_seconds (itv_last_time itv))
              (dmul (dfloor (ddiv duration (itv_seconds itv))) (itv_seconds itv)) of
        Fin new_time \<Rightarrow>
          let int_part = trunc new_time; frac_part = new_time - of_int int_part
          in if - (2 ^ 63) \<le> int_part \<and> int_part < 2 ^ 63
             then Some (itv\<lparr>itv_last_time := Timespec int_part (trunc (frac_part * 1000000000))\<rparr>) else None
      | _ \<Rightarrow> None)"

definition interval_collect :: "flow \<Rightarrow> thread \<Rightarrow> world \<Rightarrow> (flow \<times> thread) outcome" where
  "interval_collect f t w = (case f_itv f of
       None \<Rightarrow> Fault w
     | Some itv \<Rightarrow>
         obind (sys CClockGettime w) (\<lambda>r w.
           let now = r_time r
           in obind (ensure_initialized itv now w) (\<lambda>itv w.
             let f = f\<lparr>f_itv := Some itv\<rparr>;
                 duration = seconds_between (itv_last_time itv) now
             in if dlt duration (itv_seconds itv) then Ret (f, t) w
                else obind (add_sample (t_index t) f now (t_samples t) w) (\<lambda>(f, samples) w.
                  case get_next_time itv duration of
                    None \<Rightarrow> Fault w
                  | Some itv \<Rightarrow> Ret (f\<lparr>f_itv := Some itv\<rparr>, t\<lparr>t_samples := samples\<rparr>) w))))"

section \<open>Flows\<close>

definition addflow_lite :: "fd \<Rightarrow> fd \<Rightarrow> u32 \<Rightarrow> thread \<Rightarrow> world \<Rightarrow> (ptr \<times> thread) outcome" where
  "addflow_lite epfd fd events t w =
     (case alloc_flow (flow_calloc\<lparr>f_fd := fd\<rparr>) t of (p, t) \<Rightarrow>
        obind (epoll_ctl_or_die epfd EPOLL_CTL_ADD fd \<lparr>ev_events = events, ev_ptr = p\<rparr> w) (\<lambda>_ w.
          Ret (p, t) w))"

definition addflow :: "fd \<Rightarrow> fd \<Rightarrow> int \<Rightarrow> u32 \<Rightarrow> thread \<Rightarrow> world \<Rightarrow> (ptr \<times> thread) outcome" where
  "addflow epfd fd flow_id events t w =
     obind (set_nonblocking fd w) (\<lambda>_ w.
       case alloc_flow (flow_calloc\<lparr>f_fd := fd, f_id := flow_id, f_latency := Some numlist_create\<rparr>) t of
         (p, t) \<Rightarrow>
           obind (epoll_ctl_or_die epfd EPOLL_CTL_ADD fd
                    \<lparr>ev_events = EPOLLRDHUP OR events, ev_ptr = p\<rparr> w) (\<lambda>_ w.
             Ret (p, t) (LOG_INFO ''tid=%d, flow_id=%d'' w)))"

text \<open>The latency list is destroyed through its pointer; \<open>interval_destroy\<close> accepts NULL.\<close>

definition delflow :: "fd \<Rightarrow> ptr \<Rightarrow> thread \<Rightarrow> world \<Rightarrow> thread outcome" where
  "delflow epfd p t w = with_flow p t w (\<lambda>f.
     if f_latency f = None then Fault w
     else obind (epoll_del_or_err epfd (f_fd f) w) (\<lambda>_ w.
       obind (do_close (f_fd f) w) (\<lambda>_ w.
         Ret (free_flow p t) (LOG_INFO ''tid=%d, flow_id=%d'' w))))"

section \<open>Lemmas\<close>

lemma extends_ensure_initialized [ext_intros]: "extends w (final (ensure_initialized itv now w))"
  by (auto simp: ensure_initialized_def sys_def Let_def extends_def split: list.split)

lemma extends_add_sample [ext_intros]: "extends w (final (add_sample tid f ts samples w))"
  by (auto simp: add_sample_def Let_def intro!: ext_intros)

lemma extends_interval_collect [ext_intros]: "extends w (final (interval_collect f t w))"
  by (auto simp: interval_collect_def Let_def intro!: ext_intros split: option.split prod.split)

lemma timespec_real_diff: "timespec_real a b = ts_real b - ts_real a"
  by (simp add: timespec_real_def ts_real_def algebra_simps diff_divide_distrib)

definition normalized :: "timespec \<Rightarrow> bool" where
  "normalized ts \<longleftrightarrow> 0 \<le> tv_sec ts \<and> tv_sec ts < 2 ^ 63 \<and> 0 \<le> tv_nsec ts \<and> tv_nsec ts < 1000000000"

lemma normalized_nonneg: "normalized ts \<Longrightarrow> 0 \<le> ts_real ts"
  by (simp add: normalized_def ts_real_def)

lemma normalized_below: 
  assumes "normalized ts" "x \<le> ts_real ts"
  shows "\<lfloor>x\<rfloor> < 2 ^ 63"
proof -
  have "real_of_int (tv_sec ts) + 1 \<le> 2 ^ 63"
    using assms(1) unfolding normalized_def by (metis add1_zle_eq of_int_1 of_int_add of_int_le_iff of_int_numeral of_int_power)
  moreover have "real_of_int (tv_nsec ts) * (1 / 1000000000) < 1" using assms(1) by (simp add: normalized_def)
  ultimately have "x < of_int (2 ^ 63)" using assms(2) by (simp add: ts_real_def)
  then show ?thesis by (simp only: floor_less_iff)
qed

text \<open>Splitting a point in time into seconds and nanoseconds loses less than a nanosecond.\<close>

lemma split_time:
  assumes "0 \<le> x" "\<lfloor>x\<rfloor> < 2 ^ 63"
  shows "normalized (Timespec (trunc x) (trunc ((x - of_int (trunc x)) * 1000000000)))"
    "ts_real (Timespec (trunc x) (trunc ((x - of_int (trunc x)) * 1000000000))) \<le> x"
    "x < ts_real (Timespec (trunc x) (trunc ((x - of_int (trunc x)) * 1000000000))) + 1 / 1000000000"
proof -
  let ?i = "\<lfloor>x\<rfloor>"
  let ?y = "(x - of_int ?i) * 1000000000"
  have y0: "0 \<le> ?y" by simp
  have "x - of_int ?i < 1" by linarith
  then have y1: "?y < 1000000000" by simp
  note y = y0 y1
  have tx: "trunc x = ?i" "trunc ?y = \<lfloor>?y\<rfloor>" using assms(1) y(1) by (simp_all only: trunc_def if_True)
  have f0: "0 \<le> \<lfloor>?y\<rfloor>" using y0 by (simp only: zero_le_floor)
  have f1: "\<lfloor>?y\<rfloor> < 1000000000" using y1 by (simp only: floor_less_iff of_int_numeral)
  have fl: "of_int \<lfloor>?y\<rfloor> \<le> ?y" "?y < of_int \<lfloor>?y\<rfloor> + 1" by linarith+
  show "normalized (Timespec (trunc x) (trunc ((x - of_int (trunc x)) * 1000000000)))"
    using assms f0 f1 by (simp only: tx normalized_def timespec.sel zero_le_floor simp_thms)
  show "ts_real (Timespec (trunc x) (trunc ((x - of_int (trunc x)) * 1000000000))) \<le> x"
    "x < ts_real (Timespec (trunc x) (trunc ((x - of_int (trunc x)) * 1000000000))) + 1 / 1000000000"
    unfolding ts_real_def timespec.sel tx using fl by (simp_all add: field_simps)
qed

text \<open>
  The grid of the intervals of length \<open>s\<close> from a time \<open>t0\<close>: \<open>k\<close> is the number of whole intervals until \<open>t\<close>, and the
  end of the last of them is the point \<open>t0 + k * s\<close> up to the nanosecond that is cut off.
\<close>

definition on_grid :: "real \<Rightarrow> real \<Rightarrow> real \<Rightarrow> int \<Rightarrow> bool" where
  "on_grid s t0 t k \<longleftrightarrow> 1 \<le> k \<and> t0 + of_int k * s \<le> t \<and> t < t0 + of_int (k + 1) * s"

definition boundary :: "real \<Rightarrow> real \<Rightarrow> int \<Rightarrow> real \<Rightarrow> bool" where
  "boundary s t0 k t \<longleftrightarrow> t0 + of_int k * s - 1 / 1000000000 < t \<and> t \<le> t0 + of_int k * s"

lemma get_next_time_spec:
  assumes "itv_seconds itv = Fin s" "0 < s" "normalized (itv_last_time itv)" "normalized now"
    and "d = ts_real now - ts_real (itv_last_time itv)" "s \<le> d"
  shows "\<exists>last k. get_next_time itv (Fin d) = Some (itv\<lparr>itv_last_time := last\<rparr>) \<and> normalized last
    \<and> on_grid s (ts_real (itv_last_time itv)) (ts_real now) k \<and> boundary s (ts_real (itv_last_time itv)) k (ts_real last)"
proof -
  let ?n = "ts_real (itv_last_time itv) + of_int \<lfloor>d / s\<rfloor> * s"
  have k: "1 \<le> \<lfloor>d / s\<rfloor>" using assms(2,6) by (simp add: le_floor_iff)
  have up: "of_int \<lfloor>d / s\<rfloor> * s \<le> d"
    using mult_right_mono [OF of_int_floor_le [of "d / s"], of s] assms(2) by simp
  have "d / s < of_int \<lfloor>d / s\<rfloor> + 1" by linarith
  then have lo: "d < of_int \<lfloor>d / s\<rfloor> * s + s"
    using assms(2) by (simp add: pos_divide_less_eq algebra_simps)
  have ge: "s \<le> of_int \<lfloor>d / s\<rfloor> * s" using k assms(2) by simp
  have pos: "0 \<le> ?n" using normalized_nonneg [OF assms(3)] ge assms(2) by linarith
  have small: "\<lfloor>?n\<rfloor> < 2 ^ 63" by (rule normalized_below [OF assms(4)]) (use up assms(5) in linarith)
  have tn: "- (2 ^ 63) \<le> trunc ?n \<and> trunc ?n < 2 ^ 63"
    using pos small zero_le_floor [of ?n] by (simp add: trunc_def del: zero_le_floor)
  have "get_next_time itv (Fin d)
    = Some (itv\<lparr>itv_last_time := Timespec (trunc ?n) (trunc ((?n - of_int (trunc ?n)) * 1000000000))\<rparr>)"
    using assms(1,2) tn by (simp add: get_next_time_def to_seconds_def Let_def)
  moreover define last where "last = Timespec (trunc ?n) (trunc ((?n - of_int (trunc ?n)) * 1000000000))"
  moreover have "normalized last" "ts_real last \<le> ?n" "?n < ts_real last + 1 / 1000000000"
    unfolding last_def by (rule split_time [OF pos small])+
  moreover from this have "boundary s (ts_real (itv_last_time itv)) \<lfloor>d / s\<rfloor> (ts_real last)"
    by (simp add: boundary_def)
  moreover have "on_grid s (ts_real (itv_last_time itv)) (ts_real now) \<lfloor>d / s\<rfloor>"
    using k up lo assms(5) by (simp add: on_grid_def distrib_right)
  ultimately show ?thesis by blast
qed

text \<open>
  A flow under measurement: its interval has a positive length \<open>s\<close>, maybe infinite, and a meaningful last time. The
  counters are everything but the latency list and the interval.
\<close>

definition measured :: "double \<Rightarrow> flow \<Rightarrow> bool" where
  "measured s f \<longleftrightarrow> dlt (Fin 0) s \<and> (\<exists>itv. f_itv f = Some itv \<and> itv_seconds itv = s \<and> normalized (itv_last_time itv))"

definition last_time :: "flow \<Rightarrow> timespec" where
  "last_time f = itv_last_time (the (f_itv f))"

definition same_counters :: "flow \<Rightarrow> flow \<Rightarrow> bool" where
  "same_counters f g \<longleftrightarrow> g\<lparr>f_latency := f_latency f, f_itv := f_itv f\<rparr> = f"

definition sample_of :: "int \<Rightarrow> flow \<Rightarrow> timespec \<Rightarrow> sample \<Rightarrow> bool" where
  "sample_of tid f now smp \<longleftrightarrow> s_tid smp = tid \<and> s_flow_id smp = f_id f
     \<and> s_bytes_read smp = f_bytes_read f \<and> s_transactions smp = f_transactions f
     \<and> s_latency smp = f_latency f \<and> s_timestamp smp = now"

lemma same_counters_refl [simp]: "same_counters f f" and
  same_counters_itv [simp]: "same_counters f (f\<lparr>f_itv := i\<rparr>)"
  "same_counters f (f\<lparr>f_latency := l, f_itv := i\<rparr>)"
  by (simp_all add: same_counters_def)

lemma same_counters_fields:
  "same_counters f g \<Longrightarrow> f_fd g = f_fd f \<and> f_id g = f_id f \<and> f_bytes_read g = f_bytes_read f
     \<and> f_bytes_to_read g = f_bytes_to_read f \<and> f_bytes_to_write g = f_bytes_to_write f
     \<and> f_transactions g = f_transactions f \<and> f_write_time g = f_write_time f"
  unfolding same_counters_def by (cases f; cases g) simp

text \<open>The time interval a collection starts from, once it has been initialised.\<close>

definition start_time :: "flow \<Rightarrow> timespec \<Rightarrow> world \<Rightarrow> timespec" where
  "start_time f now w =
     (if is_uninitialized (last_time f) then if is_uninitialized (w_time_start w) then now else w_time_start w
      else last_time f)"

lemma ensure_initialized_wp:
  "wp (ensure_initialized itv now w) (\<lambda>itv' w'. calm w w'
     \<and> itv' = itv\<lparr>itv_last_time := (if is_uninitialized (itv_last_time itv)
         then if is_uninitialized (w_time_start w) then now else w_time_start w else itv_last_time itv)\<rparr>
     \<and> w_time_start w' = (if is_uninitialized (itv_last_time itv) \<and> is_uninitialized (w_time_start w)
         then now else w_time_start w))"
  by (auto simp: ensure_initialized_def quiet_def intro!: wp_quiet_sys)

lemma add_sample_wp:
  "wp (add_sample tid f ts samples w) (\<lambda>(f', samples') w'. calm w w' \<and> w_time_start w' = w_time_start w
     \<and> f' = f\<lparr>f_latency := Some numlist_create\<rparr> \<and> (\<exists>smp. samples' = smp # samples \<and> sample_of tid f ts smp))"
  by (auto simp: add_sample_def sample_of_def Let_def quiet_def intro!: wp_quiet_sys)

text \<open>
  What one collection does with a flow whose current interval began at \<open>t0\<close>: too early, nothing; or
  a sample of the counters, a fresh latency list, and an interval that begins on the grid from \<open>t0\<close>.
\<close>

definition collected :: "double \<Rightarrow> real \<Rightarrow> timespec \<Rightarrow> flow \<Rightarrow> thread \<Rightarrow> flow \<Rightarrow> thread \<Rightarrow> bool" where
  "collected s t0 now f t f' t' \<longleftrightarrow> same_counters f f' \<and> measured s f' \<and>
     (if dlt (Fin (ts_real now - t0)) s
      then t' = t \<and> f_latency f' = f_latency f \<and> ts_real (last_time f') = t0
      else (\<exists>smp. t' = t\<lparr>t_samples := smp # t_samples t\<rparr> \<and> sample_of (t_index t) f now smp)
        \<and> f_latency f' = Some numlist_create
        \<and> (\<exists>r k. s = Fin r \<and> on_grid r t0 (ts_real now) k \<and> boundary r t0 k (ts_real (last_time f'))))"

definition lat_ok :: "flow \<Rightarrow> bool" where
  "lat_ok f \<longleftrightarrow> (\<exists>lat. f_latency f = Some lat \<and> numlist_ok lat)"

lemma collected_lat_ok: "collected s t0 now f t f' t' \<Longrightarrow> lat_ok f \<Longrightarrow> lat_ok f'"
  by (auto simp: collected_def lat_ok_def split: if_splits)

lemma sample_of_itv [simp]: "sample_of tid (f\<lparr>f_itv := i\<rparr>) now smp = sample_of tid f now smp"
  by (simp add: sample_of_def)

lemma collect_step_wp:
  fixes now :: timespec
  assumes itv: "itv_seconds itv = s" "dlt (Fin 0) s" "normalized (itv_last_time itv)" "normalized now"
  defines "d \<equiv> seconds_between (itv_last_time itv) now"
  shows "wp (if dlt d (itv_seconds itv) then Ret (f\<lparr>f_itv := Some itv\<rparr>, t) w
           else obind (add_sample (t_index t) (f\<lparr>f_itv := Some itv\<rparr>) now (t_samples t) w)
             (\<lambda>(f, samples) w. case get_next_time itv d of
                None \<Rightarrow> Fault w | Some itv \<Rightarrow> Ret (f\<lparr>f_itv := Some itv\<rparr>, t\<lparr>t_samples := samples\<rparr>) w))
     (\<lambda>(f', t') w'. calm w w' \<and> w_time_start w' = w_time_start w
        \<and> collected s (ts_real (itv_last_time itv)) now f t f' t')"
proof -
  have d: "d = Fin (ts_real now - ts_real (itv_last_time itv))"
    by (simp add: d_def seconds_between_def timespec_real_diff)
  show ?thesis
  proof (cases "dlt d s")
    case True
    with itv show ?thesis by (simp add: d collected_def last_time_def measured_def)
  next
    case False
    then obtain r where r: "s = Fin r" "0 < r" "r \<le> ts_real now - ts_real (itv_last_time itv)"
      using itv(2) by (cases s) (auto simp: d)
    from get_next_time_spec [OF itv(1) [unfolded r(1)] r(2) itv(3,4) refl r(3), folded d] obtain last k where
      n: "get_next_time itv d = Some (itv\<lparr>itv_last_time := last\<rparr>)" "normalized last"
      and l: "on_grid r (ts_real (itv_last_time itv)) (ts_real now) k" "boundary r (ts_real (itv_last_time itv)) k (ts_real last)"
      by blast
    have nlt: "\<not> dlt d (itv_seconds itv)" using False itv(1) by simp
    show ?thesis
      unfolding if_not_P [OF nlt] wp_obind n option.case
      by (rule wp_mono [OF add_sample_wp])
        (use False itv(1,2) n(2) l r(1) d in
          \<open>auto simp: collected_def last_time_def measured_def same_counters_def\<close>)
  qed
qed

lemma interval_collect_wp:
  assumes ok: "answers_ok posix_ok w" and f: "measured s f" and st: "normalized (w_time_start w)"
  shows "wp (interval_collect f t w) (\<lambda>(f', t') w'. calm w w' \<and> normalized (w_time_start w')
    \<and> (\<exists>r. (CClockGettime, r) \<in> set (w_trace w')
        \<and> collected s (ts_real (start_time f (r_time r) w)) (r_time r) f t f' t'))"
proof -
  from f obtain itv where itv: "f_itv f = Some itv" "itv_seconds itv = s" "dlt (Fin 0) s"
    "normalized (itv_last_time itv)" by (auto simp: measured_def)
  have "wp (ensure_initialized itv now w1) (\<lambda>itv' w'. itv_seconds itv' = s \<and> normalized (itv_last_time itv')
      \<and> normalized (w_time_start w') \<and> itv_last_time itv' = start_time f now w \<and> calm w1 w')"
    if "normalized now" "w_time_start w1 = w_time_start w" for now w1
    by (rule wp_mono [OF ensure_initialized_wp]) (use that st itv in \<open>auto simp: start_time_def last_time_def\<close>)
  note init = this
  show ?thesis
    unfolding interval_collect_def itv(1) option.case Let_def wp_obind
  proof (rule wp_sys_ok [OF ok], simp)
    fix r w1 assume r: "posix_ok (w_trace w) CClockGettime r" "quiet w w1" "w_trace w1 = w_trace w @ [(CClockGettime, r)]"
    have fin: "calm w w3 \<and> (CClockGettime, r) \<in> set (w_trace w3)" if "calm w1 w2" "calm w2 w3" for w2 w3
      using calm_trans [OF quiet_calm [OF r(2)] calm_trans [OF that]]
        extends_trace_prefix [OF calm_extends [OF calm_trans [OF that]]] r(3) by auto
    show "wp (ensure_initialized itv (r_time r) w1) (\<lambda>itv w2. wp
        (if dlt (seconds_between (itv_last_time itv) (r_time r)) (itv_seconds itv)
         then Ret (f\<lparr>f_itv := Some itv\<rparr>, t) w2
         else obind (add_sample (t_index t) (f\<lparr>f_itv := Some itv\<rparr>) (r_time r) (t_samples t) w2)
           (\<lambda>(f, samples) w. case get_next_time itv (seconds_between (itv_last_time itv) (r_time r)) of
              None \<Rightarrow> Fault w | Some itv \<Rightarrow> Ret (f\<lparr>f_itv := Some itv\<rparr>, t\<lparr>t_samples := samples\<rparr>) w))
        (\<lambda>(f', t') w'. calm w w' \<and> normalized (w_time_start w')
          \<and> (\<exists>r. (CClockGettime, r) \<in> set (w_trace w')
              \<and> collected s (ts_real (start_time f (r_time r) w)) (r_time r) f t f' t')))"
    proof (rule wp_mono [OF init], goal_cases)
      case (3 itv1 w2)
      have "normalized (r_time r)" using r(1) by (simp add: normalized_def)
      then show ?case
        by (intro wp_mono [OF collect_step_wp]) (use 3 fin itv in fastforce)+
    qed (use r in \<open>auto simp: normalized_def quiet_def\<close>)
  qed
qed

section \<open>Properties\<close>

text \<open>
  C11: One collection on a flow under measurement neither faults nor touches the flow's counters. Before
  the interval has elapsed (counted from the flow's last boundary, or from the start the threads
  share) it records nothing; afterwards it records exactly one sample, with the flow's counters, its
  latency list and the clock reading, replaces the latency list by an empty one, and moves the
  boundary to the grid of intervals from the old one: to the last grid point that is not in the future, less at most the
  nanosecond that truncation cuts off (computed exactly; doubles add their rounding). With an infinite interval it never records anything.
\<close>

theorem collect_once:
  assumes "answers_ok posix_ok w" "measured s f" "normalized (w_time_start w)"
  shows "wp (interval_collect f t w) (\<lambda>(f', t') w'. normalized (w_time_start w')
    \<and> (\<exists>r. (CClockGettime, r) \<in> set (w_trace w')
        \<and> collected s (ts_real (start_time f (r_time r) w)) (r_time r) f t f' t'))"
  by (rule wp_mono [OF interval_collect_wp [OF assms]]) auto

definition clock :: "int \<Rightarrow> kernel" where
  "clock sec = answer CClockGettime (resp0\<lparr>r_time := Timespec sec 0\<rparr>)"

lemma clock_ok: "0 \<le> sec \<Longrightarrow> sec < 2 ^ 63 \<Longrightarrow> posix_ok tr c (clock sec tr c)"
  by (auto simp: clock_def intro!: answer_posix_ok)

definition itv_flow :: "int \<Rightarrow> flow" where
  "itv_flow sec = flow_calloc\<lparr>f_itv := Some (interval_create (Fin 1)\<lparr>itv_last_time := Timespec sec 0\<rparr>)\<rparr>"

lemma collect_once_witness:
  "wp (interval_collect (itv_flow 1) thread0 (world0 [clock 5, clock 5]))
     (\<lambda>(f', t') w'. normalized (w_time_start w') \<and> (\<exists>r. (CClockGettime, r) \<in> set (w_trace w')
        \<and> collected (Fin 1) (ts_real (start_time (itv_flow 1) (r_time r) (world0 [clock 5, clock 5]))) (r_time r)
             (itv_flow 1) thread0 f' t'))"
  by (rule collect_once) (auto simp: answers_ok_def clock_ok itv_flow_def measured_def normalized_def interval_create_def)

text \<open>A series of collections on a flow whose counters the test changes in between.\<close>

primrec collect_rounds :: "(flow \<Rightarrow> flow) list \<Rightarrow> flow \<Rightarrow> thread \<Rightarrow> world \<Rightarrow> (flow \<times> thread) outcome" where
  "collect_rounds [] f t w = Ret (f, t) w"
| "collect_rounds (u # us) f t w =
     obind (interval_collect (u f) t w) (\<lambda>(f, t) w. collect_rounds us f t w)"

definition running :: "real \<Rightarrow> flow \<Rightarrow> bool" where
  "running s f \<longleftrightarrow> measured (Fin s) f \<and> 1 / 1000000000 \<le> s \<and> 0 < ts_real (last_time f)"

lemma running_start: "running s f \<Longrightarrow> start_time f now w = last_time f"
  by (auto simp: running_def start_time_def is_uninitialized_def ts_real_def)

lemma running_update: "running s f \<Longrightarrow> f_itv (u f) = f_itv f \<Longrightarrow> running s (u f) \<and> last_time (u f) = last_time f"
  by (simp add: running_def measured_def last_time_def)

lemma grid_bounds:
  assumes "on_grid s t0 t k" "boundary s t0 k t'" "0 < s"
  shows "t' \<le> t" "t0 + s - 1 / 1000000000 < t'"
proof -
  have "1 * s \<le> of_int k * s" using assms(1,3) unfolding on_grid_def by (intro mult_right_mono) auto
  with assms(1,2) show "t' \<le> t" "t0 + s - 1 / 1000000000 < t'" by (auto simp: on_grid_def boundary_def)
qed

lemma collected_running:
  assumes "collected (Fin s) (ts_real (last_time f)) now f t f' t'" "running s f"
  shows "running s f' \<and> (\<exists>new. t_samples t' = new @ t_samples t \<and> (new \<noteq> [] \<longrightarrow> ts_real (last_time f') \<le> ts_real now)
    \<and> real (length new) * (s - 1 / 1000000000) \<le> ts_real (last_time f') - ts_real (last_time f)
    \<and> (new = [] \<longrightarrow> ts_real (last_time f') = ts_real (last_time f)))"
proof (cases "ts_real now - ts_real (last_time f) < s")
  case True
  with assms show ?thesis by (auto simp: collected_def running_def)
next
  case False
  with assms(1) obtain smp k where *: "t' = t\<lparr>t_samples := smp # t_samples t\<rparr>" "measured (Fin s) f'"
      "on_grid s (ts_real (last_time f)) (ts_real now) k" "boundary s (ts_real (last_time f)) k (ts_real (last_time f'))"
    by (auto simp: collected_def)
  moreover have "0 < s" using assms(2) by (simp add: running_def measured_def)
  note grid_bounds [OF *(3,4) this]
  ultimately show ?thesis using assms(2) by (auto simp: running_def intro!: exI [of _ "[smp]"])
qed

lemma collect_rounds_wp:
  assumes "answers_ok posix_ok w" "normalized (w_time_start w)" "running s f"
    and "\<forall>u\<in>set us. \<forall>f. f_itv (u f) = f_itv f"
  shows "wp (collect_rounds us f t w) (\<lambda>(f', t') w'. calm w w' \<and> running s f' \<and> (\<exists>new. t_samples t' = new @ t_samples t
    \<and> real (length new) * (s - 1 / 1000000000) \<le> ts_real (last_time f') - ts_real (last_time f)
    \<and> (new = [] \<longrightarrow> ts_real (last_time f') = ts_real (last_time f))
    \<and> (new \<noteq> [] \<longrightarrow> (\<exists>r. (CClockGettime, r) \<in> set (w_trace w') \<and> ts_real (last_time f') \<le> ts_real (r_time r)))))"
  using assms
proof (induction us arbitrary: f t w)
  case Nil
  then show ?case by simp
next
  case (Cons u us)
  note up = running_update [OF Cons.prems(3), of u]
  with Cons.prems(3,4) have u: "running s (u f)" "last_time (u f) = last_time f" "measured (Fin s) (u f)"
    by (auto simp: running_def)
  show ?case
    unfolding collect_rounds.simps wp_obind
  proof (rule wp_mono [OF interval_collect_wp [OF Cons.prems(1) u(3) Cons.prems(2)]], clarsimp, goal_cases)
    case (1 f1 t1 w1 r)
    then have c: "collected (Fin s) (ts_real (last_time (u f))) (r_time r) (u f) t f1 t1"
      by (simp add: running_start [OF u(1)])
    from collected_running [OF c u(1), unfolded u(2)] obtain new where
      new: "running s f1" "t_samples t1 = new @ t_samples t" "new \<noteq> [] \<longrightarrow> ts_real (last_time f1) \<le> ts_real (r_time r)"
        "real (length new) * (s - 1 / 1000000000) \<le> ts_real (last_time f1) - ts_real (last_time f)"
        "new = [] \<longrightarrow> ts_real (last_time f1) = ts_real (last_time f)"
      by blast
    have IH: "wp (collect_rounds us f1 t1 w1) (\<lambda>(f', t') w'. calm w1 w' \<and> running s f' \<and> (\<exists>new. t_samples t' = new @ t_samples t1
      \<and> real (length new) * (s - 1 / 1000000000) \<le> ts_real (last_time f') - ts_real (last_time f1)
      \<and> (new = [] \<longrightarrow> ts_real (last_time f') = ts_real (last_time f1))
      \<and> (new \<noteq> [] \<longrightarrow> (\<exists>r. (CClockGettime, r) \<in> set (w_trace w') \<and> ts_real (last_time f') \<le> ts_real (r_time r)))))"
      using Cons.prems 1 new(1) by (intro Cons.IH) (auto intro: answers_ok_extends calm_extends)
    show ?case
    proof (rule wp_mono [OF IH], clarsimp, intro conjI, goal_cases)
      case (1 f2 t2 w2 new2)
      then show ?case using \<open>calm w w1\<close> by (auto intro: calm_trans)
    next
      case (2 f2 t2 w2 new2)
      have "(CClockGettime, r) \<in> set (w_trace w2)"
        using extends_trace_prefix [OF calm_extends [OF 2(1)]] \<open>(CClockGettime, r) \<in> set (w_trace w1)\<close> by auto
      moreover have "real (length (new2 @ new)) * (s - 1 / 1000000000)
          \<le> ts_real (last_time f2) - ts_real (last_time f)"
        using 2(4) new(4) unfolding length_append of_nat_add distrib_right by linarith
      ultimately show ?case
        using 2 new by (intro exI [of _ "new2 @ new"]) auto
    qed
  qed
qed

text \<open>
  C12: Over any series of collections on a running flow, whatever the test does to its counters in
  between, the number of samples times the interval (less a nanosecond) is at most the time from the
  flow's first boundary to the last clock reading: no interval ever yields two samples.
\<close>

theorem collect_rate:
  assumes "answers_ok posix_ok w" "normalized (w_time_start w)" "running s f"
    and "\<forall>u\<in>set us. \<forall>f. f_itv (u f) = f_itv f"
  shows "wp (collect_rounds us f t w) (\<lambda>(f', t') w'. \<exists>new. t_samples t' = new @ t_samples t
    \<and> (new \<noteq> [] \<longrightarrow> (\<exists>r. (CClockGettime, r) \<in> set (w_trace w')
          \<and> real (length new) * (s - 1 / 1000000000) \<le> ts_real (r_time r) - ts_real (last_time f))))"
  by (rule wp_mono [OF collect_rounds_wp [OF assms]]) fastforce


lemma collect_rate_witness:
  "wp (collect_rounds [\<lambda>f. f, \<lambda>f. f\<lparr>f_transactions := 3\<rparr>] (itv_flow 1) thread0 (world0 [clock 5, clock 5, clock 6, clock 6]))
     (\<lambda>(f', t') w'. \<exists>new. t_samples t' = new @ t_samples thread0
       \<and> (new \<noteq> [] \<longrightarrow> (\<exists>r. (CClockGettime, r) \<in> set (w_trace w')
            \<and> real (length new) * (1 - 1 / 1000000000) \<le> ts_real (r_time r) - ts_real (last_time (itv_flow 1)))))"
  by (rule collect_rate) (auto simp: answers_ok_def clock_ok itv_flow_def measured_def normalized_def running_def
    last_time_def ts_real_def interval_create_def)

end
