(* ===== verification/Workload.thy ===== *)
theory Workload
  imports Flow
begin

text \<open>
  \<open>workload.c\<close>, first half: the table of socket operations, opening and connecting sockets, and the
  main loops \<open>run_client\<close> and \<open>run_server\<close> of a worker thread, for any test that provides the
  processing of one event. The contract between the loops and the tests is the locale
  \<open>event_handler\<close>; the one with the socket operations is \<open>socket_provider\<close>.
\<close>

section \<open>Socket operations\<close>

text \<open>The optional operations of \<open>struct socket_ops\<close> are \<open>None\<close> for NULL.\<close>

record socket_ops =
  so_open :: "addrinfo \<Rightarrow> world \<Rightarrow> int outcome"
  so_bind :: "(fd \<Rightarrow> sockaddr \<Rightarrow> int \<Rightarrow> world \<Rightarrow> int outcome) option"
  so_listen :: "(fd \<Rightarrow> int \<Rightarrow> world \<Rightarrow> int outcome) option"
  so_accept :: "(fd \<Rightarrow> world \<Rightarrow> int outcome) option"
  so_connect :: "(fd \<Rightarrow> sockaddr \<Rightarrow> int \<Rightarrow> world \<Rightarrow> int outcome) option"
  so_close :: "(fd \<Rightarrow> world \<Rightarrow> int outcome) option"
  so_epoll_wait :: "(fd \<Rightarrow> int \<Rightarrow> int \<Rightarrow> world \<Rightarrow> resp outcome) option"

definition sys_ret :: "call \<Rightarrow> world \<Rightarrow> int outcome" where
  "sys_ret c w = obind (sys c w) (\<lambda>r w. Ret (r_ret r) w)"

definition tcp_socket_open :: "addrinfo \<Rightarrow> world \<Rightarrow> int outcome" where
  "tcp_socket_open hints w = sys_ret (CSocket (ai_family hints) SOCK_STREAM IPPROTO_TCP) w"

definition udp_socket_open :: "addrinfo \<Rightarrow> world \<Rightarrow> int outcome" where
  "udp_socket_open hints w = sys_ret (CSocket (ai_family hints) SOCK_DGRAM IPPROTO_UDP) w"

definition socket_bind :: "socket_ops \<Rightarrow> fd \<Rightarrow> sockaddr \<Rightarrow> int \<Rightarrow> world \<Rightarrow> int outcome" where
  "socket_bind ops sockfd addr addrlen w =
     (case so_bind ops of Some op \<Rightarrow> op sockfd addr addrlen w | None \<Rightarrow> Ret 0 w)"

definition socket_listen :: "socket_ops \<Rightarrow> fd \<Rightarrow> int \<Rightarrow> world \<Rightarrow> int outcome" where
  "socket_listen ops sockfd backlog w =
     (case so_listen ops of Some op \<Rightarrow> op sockfd backlog w | None \<Rightarrow> Ret 0 w)"

definition socket_connect :: "socket_ops \<Rightarrow> fd \<Rightarrow> sockaddr \<Rightarrow> int \<Rightarrow> world \<Rightarrow> int outcome" where
  "socket_connect ops sockfd addr addrlen w =
     (case so_connect ops of Some op \<Rightarrow> op sockfd addr addrlen w | None \<Rightarrow> Ret 0 w)"

definition socket_close :: "socket_ops \<Rightarrow> fd \<Rightarrow> world \<Rightarrow> int outcome" where
  "socket_close ops sockfd w = (case so_close ops of Some op \<Rightarrow> op sockfd w | None \<Rightarrow> Ret 0 w)"

definition do_epoll_wait :: "socket_ops \<Rightarrow> fd \<Rightarrow> int \<Rightarrow> int \<Rightarrow> world \<Rightarrow> resp outcome" where
  "do_epoll_wait ops epfd maxev timeout w =
     (case so_epoll_wait ops of
        Some op \<Rightarrow> op epfd maxev timeout w
      | None \<Rightarrow> sys (CEpollWait epfd maxev timeout) w)"

definition hook_failed :: "int \<Rightarrow> bool" where
  "hook_failed r \<longleftrightarrow> r < 0 \<and> r \<noteq> - EHOOKEMPTY \<and> r \<noteq> - EHOOKRETVAL"

definition do_socket_open :: "socket_ops \<Rightarrow> script_slave \<Rightarrow> addrinfo \<Rightarrow> world \<Rightarrow> (script_slave \<times> int) outcome" where
  "do_socket_open ops ss ai w =
     obind (so_open ops ai w) (\<lambda>fd w.
       if fd = -1 then Ret (ss, -1) w
       else obind (script_slave_socket_hook ss fd w) (\<lambda>(ss, r) w.
         if hook_failed r
         then obind (socket_close ops fd w) (\<lambda>_ w. Ret (ss, -1) (w\<lparr>w_errno := - r\<rparr>))
         else Ret (ss, fd) w))"

definition do_socket_close :: "socket_ops \<Rightarrow> script_slave \<Rightarrow> fd \<Rightarrow> world \<Rightarrow> (script_slave \<times> int) outcome" where
  "do_socket_close ops ss sockfd w =
     obind (script_slave_close_hook ss sockfd w) (\<lambda>(ss, r) w.
       if hook_failed r then Ret (ss, -1) (w\<lparr>w_errno := - r\<rparr>)
       else obind (socket_close ops sockfd w) (\<lambda>r w. Ret (ss, r) w))"

definition tcp_socket_ops :: socket_ops where
  "tcp_socket_ops = \<lparr>so_open = tcp_socket_open,
     so_bind = Some (\<lambda>fd addr len. sys_ret (CBind fd addr len)),
     so_listen = Some (\<lambda>fd backlog. sys_ret (CListen fd backlog)),
     so_accept = Some (\<lambda>fd. sys_ret (CAccept fd)),
     so_connect = Some do_connect, so_close = Some do_close, so_epoll_wait = None\<rparr>"

definition udp_socket_ops :: socket_ops where
  "udp_socket_ops = \<lparr>so_open = udp_socket_open,
     so_bind = Some (\<lambda>fd addr len. sys_ret (CBind fd addr len)),
     so_listen = None, so_accept = None, so_connect = Some do_connect, so_close = None,
     so_epoll_wait = None\<rparr>"

section \<open>Preparing a worker\<close>

text \<open>
  The length of the buffer \<open>buf_alloc\<close> returns: the sizes are \<open>int\<close>s compared as \<open>size_t\<close>. The
  allocation itself is assumed to succeed.
\<close>

definition buf_size :: "options \<Rightarrow> u64" where
  "buf_size opts =
     (let alloc_size = word_of_int (request_size opts) :: u64;
          alloc_size = (if alloc_size < word_of_int (response_size opts)
                        then word_of_int (response_size opts) else alloc_size)
      in if alloc_size = 0 \<or> word_of_int (buffer_size opts) < alloc_size
         then word_of_int (buffer_size opts) else alloc_size)"

definition buf_alloc :: "options \<Rightarrow> world \<Rightarrow> int outcome" where
  "buf_alloc opts w =
     (if enable_write opts
      then obind (fill_random (sint (ucast (buf_size opts) :: 32 word)) w) (\<lambda>_ w. Ret (uint (buf_size opts)) w)
      else Ret (uint (buf_size opts)) w)"

definition only_if :: "bool \<Rightarrow> (world \<Rightarrow> unit outcome) \<Rightarrow> world \<Rightarrow> unit outcome" where
  "only_if b act w = (if b then act w else Ret () w)"

definition client_connect :: "options \<Rightarrow> socket_ops \<Rightarrow> thread \<Rightarrow> world \<Rightarrow> (fd \<times> thread) outcome" where
  "client_connect opts ops t w =
     obind (do_socket_open ops (t_script t) (t_ai t) w) (\<lambda>(ss, fd) w.
       if fd = -1 then LOG_FATAL ''socket'' w
       else obind (only_if (min_rto opts \<noteq> 0) (set_min_rto fd (min_rto opts)) w) (\<lambda>_ w.
         obind (only_if (debug opts) (set_debug fd 1) w) (\<lambda>_ w.
           obind (only_if (local_host opts \<noteq> None) (set_local_host fd opts) w) (\<lambda>_ w.
             obind (socket_connect ops fd (ai_addr (t_ai t)) (ai_addrlen (t_ai t)) w) (\<lambda>r w.
               if r \<noteq> 0 then LOG_FATAL ''socket_connect'' w
               else Ret (fd, t\<lparr>t_script := ss\<rparr>) w)))))"

definition epoll_events :: "options \<Rightarrow> u32" where
  "epoll_events opts =
     (let events = 0;
          events = (if enable_write opts then events OR EPOLLOUT else events);
          events = (if enable_read opts then events OR EPOLLIN else events)
      in if edge_trigger opts then events OR EPOLLET else events)"

definition setup_connected_socket :: "fd \<Rightarrow> options \<Rightarrow> world \<Rightarrow> unit outcome" where
  "setup_connected_socket fd opts w =
     obind (only_if (debug opts) (set_debug fd 1) w) (\<lambda>_ w.
       obind (only_if (max_pacing_rate opts \<noteq> 0)
                (set_max_pacing_rate fd (word_of_int (max_pacing_rate opts))) w) (\<lambda>_ w.
         only_if (reuseaddr opts) (set_reuseaddr fd 1) w))"

section \<open>The main loops\<close>

text \<open>
  \<open>process_events\<close> of a test. All of them walk over the events the same way: a stop event ends the
  walk, any other is processed with the flow its pointer leads to. A test provides the processing of
  one event, given the options, the epoll descriptor, the listening descriptor, the length of the
  buffer, and the flow.
\<close>

type_synonym event_step =
  "options \<Rightarrow> fd \<Rightarrow> fd \<Rightarrow> int \<Rightarrow> flow \<Rightarrow> epoll_event \<Rightarrow> thread \<Rightarrow> world \<Rightarrow> thread outcome"

fun for_events :: "(flow \<Rightarrow> epoll_event \<Rightarrow> thread \<Rightarrow> world \<Rightarrow> thread outcome) \<Rightarrow>
    epoll_event list \<Rightarrow> thread \<Rightarrow> world \<Rightarrow> thread outcome" where
  "for_events step [] t w = Ret t w"
| "for_events step (e # es) t w = with_flow (ev_ptr e) t w (\<lambda>flow.
     if f_fd flow = t_stop_efd t then Ret (t\<lparr>t_stop := True\<rparr>) w
     else obind (step flow e t w) (\<lambda>t w. for_events step es t w))"

text \<open>
  The loop around \<open>epoll_wait\<close>. The fuel is only there to make the recursion structural: every round
  takes one answer of the kernel, so more rounds than answers are never needed (running out is a
  \<open>Fault\<close>, which the safety theorems exclude).
\<close>

fun event_loop :: "nat \<Rightarrow> options \<Rightarrow> socket_ops \<Rightarrow> event_step \<Rightarrow> fd \<Rightarrow> fd \<Rightarrow> int \<Rightarrow> thread \<Rightarrow> world \<Rightarrow> thread outcome" where
  "event_loop 0 opts ops step epfd listen_fd buf_len t w = Fault w"
| "event_loop (Suc n) opts ops step epfd listen_fd buf_len t w =
     (if t_stop t then Ret t w
      else obind (do_epoll_wait ops epfd (maxevents opts) (if nonblocking opts then 10 else -1) w) (\<lambda>r w.
        if r_ret r = -1
        then if w_errno w = EINTR then event_loop n opts ops step epfd listen_fd buf_len t w
             else LOG_FATAL ''epoll_wait'' w
        else obind (for_events (step opts epfd listen_fd buf_len) (take (nat (r_ret r)) (r_events r)) t w)
               (\<lambda>t w. event_loop n opts ops step epfd listen_fd buf_len t w)))"

definition run_events :: "options \<Rightarrow> socket_ops \<Rightarrow> event_step \<Rightarrow> fd \<Rightarrow> fd \<Rightarrow> int \<Rightarrow> thread \<Rightarrow> world \<Rightarrow> thread outcome" where
  "run_events opts ops step epfd listen_fd buf_len t w =
     obind (sys CBarrierWait w) (\<lambda>_ w.
       event_loop (Suc (length (w_inputs w))) opts ops step epfd listen_fd buf_len t w)"

definition new_client_flow :: "options \<Rightarrow> flow \<Rightarrow> flow" where
  "new_client_flow opts f = f\<lparr>f_bytes_to_write := request_size opts,
     f_itv := Some (interval_create (interval_secs opts))\<rparr>"

definition new_flow :: "options \<Rightarrow> flow \<Rightarrow> flow" where
  "new_flow opts f = f\<lparr>f_itv := Some (interval_create (interval_secs opts))\<rparr>"

fun open_flows :: "options \<Rightarrow> socket_ops \<Rightarrow> fd \<Rightarrow> int \<Rightarrow> nat \<Rightarrow> thread \<Rightarrow> world \<Rightarrow> (fd list \<times> thread) outcome" where
  "open_flows opts ops epfd i 0 t w = Ret ([], t) w"
| "open_flows opts ops epfd i (Suc n) t w =
     obind (client_connect opts ops t w) (\<lambda>(fd, t) w.
       obind (setup_connected_socket fd opts w) (\<lambda>_ w.
         obind (addflow epfd fd i (epoll_events opts) t w) (\<lambda>(p, t) w.
           with_flow p t w (\<lambda>f.
             obind (open_flows opts ops epfd (i + 1) n (put_flow p (new_client_flow opts f) t) w)
               (\<lambda>(client_fds, t) w. Ret (fd # client_fds, t) w)))))"

fun close_flows :: "socket_ops \<Rightarrow> fd list \<Rightarrow> thread \<Rightarrow> world \<Rightarrow> thread outcome" where
  "close_flows ops [] t w = Ret t w"
| "close_flows ops (fd # fds) t w =
     obind (do_socket_close ops (t_script t) fd w) (\<lambda>(ss, r) w.
       close_flows ops fds (t\<lparr>t_script := ss\<rparr>) w)" \<comment> \<open>the error is ignored\<close>

definition run_client :: "options \<Rightarrow> socket_ops \<Rightarrow> event_step \<Rightarrow> thread \<Rightarrow> world \<Rightarrow> thread outcome" where
  "run_client opts ops step t w =
     (let flows_in_this_thread = flows_in_thread (num_flows opts) (num_threads opts) (t_index t);
          w = LOG_INFO ''flows_in_this_thread=%d'' w
      in obind (sys CEpollCreate w) (\<lambda>r w.
        if r_ret r = -1 then LOG_FATAL ''epoll_create1'' w
        else let epfd = r_ret r in
          obind (addflow_lite epfd (t_stop_efd t) EPOLLIN t w) (\<lambda>(stop_fl, t) w.
            obind (open_flows opts ops epfd 0 (nat flows_in_this_thread) t w) (\<lambda>(client_fds, t) w.
              obind (buf_alloc opts w) (\<lambda>buf w.
                obind (run_events opts ops step epfd (-1) buf t w) (\<lambda>t w.
                  obind (close_flows ops client_fds t w) (\<lambda>t w.
                    obind (do_close epfd w) (\<lambda>_ w. Ret (free_flow stop_fl t) w))))))))"

definition run_server :: "options \<Rightarrow> socket_ops \<Rightarrow> event_step \<Rightarrow> thread \<Rightarrow> world \<Rightarrow> thread outcome" where
  "run_server opts ops step t w =
     obind (do_socket_open ops (t_script t) (t_ai t) w) (\<lambda>(ss, fd_listen) w.
       if fd_listen = -1 then LOG_FATAL ''socket'' w
       else let t = t\<lparr>t_script := ss\<rparr> in
        obind (only_if (reuseport opts) (set_reuseport fd_listen) w) (\<lambda>_ w.
        obind (set_reuseaddr fd_listen 1 w) (\<lambda>_ w.
        obind (socket_bind ops fd_listen (ai_addr (t_ai t)) (ai_addrlen (t_ai t)) w) (\<lambda>r w.
        if r \<noteq> 0 then LOG_FATAL ''bind'' w
        else obind (only_if (min_rto opts \<noteq> 0) (set_min_rto fd_listen (min_rto opts)) w) (\<lambda>_ w.
        obind (socket_listen ops fd_listen (listen_backlog opts) w) (\<lambda>r w.
        if r \<noteq> 0 then LOG_FATAL ''listen'' w
        else obind (sys CEpollCreate w) (\<lambda>r w.
        if r_ret r = -1 then LOG_FATAL ''epoll_create1'' w
        else let epfd = r_ret r in
          obind (addflow epfd fd_listen (t_next_flow_id t) EPOLLIN
                   (t\<lparr>t_next_flow_id := t_next_flow_id t + 1\<rparr>) w) (\<lambda>(listen_fl, t) w.
          with_flow listen_fl t w (\<lambda>f.
            obind (addflow_lite epfd (t_stop_efd t) EPOLLIN (put_flow listen_fl (new_flow opts f) t) w)
              (\<lambda>(stop_fl, t) w.
              obind (buf_alloc opts w) (\<lambda>buf w.
              obind (run_events opts ops step epfd fd_listen buf t w) (\<lambda>t w.
              obind (do_socket_close ops (t_script t) fd_listen w) (\<lambda>(ss, r) w.
              if r < 0 then LOG_FATAL ''close'' w
              else obind (delflow epfd listen_fl (t\<lparr>t_script := ss\<rparr>) w) (\<lambda>t w.
              obind (do_close epfd w) (\<lambda>_ w. Ret (free_flow stop_fl t) w)))))))))))))))"

section \<open>The invariant of a worker\<close>

text \<open>
  What a worker maintains: the kernel keeps its contract; pointers not yet allocated lead nowhere;
  every descriptor the epoll instance watches belongs to a live flow with that descriptor, which is
  under measurement and satisfies the test's condition \<open>ok\<close> on the watched mask and the counters,
  unless it is the stop event's flow or one of the flows \<open>X\<close> in the middle of an update; and every
  sample satisfies the test's \<open>sk\<close>. \<open>plain\<close> is set for runs without a script.
\<close>

definition entry_ok :: "(u32 \<Rightarrow> flow \<Rightarrow> bool) \<Rightarrow> double \<Rightarrow> ptr set \<Rightarrow> thread \<Rightarrow> fd \<times> ptr \<times> u32 \<Rightarrow> bool" where
  "entry_ok ok s X t e = (case e of (fd, p, m) \<Rightarrow>
     \<exists>f. t_flows t p = Some f \<and> f_fd f = fd
       \<and> (fd \<noteq> t_stop_efd t \<longrightarrow> p \<notin> X \<longrightarrow> measured s f \<and> ok m f))"

definition winv :: "(u32 \<Rightarrow> flow \<Rightarrow> bool) \<Rightarrow> (sample \<Rightarrow> bool) \<Rightarrow> double \<Rightarrow> bool \<Rightarrow> fd \<Rightarrow> ptr set \<Rightarrow> thread \<Rightarrow> world \<Rightarrow> bool" where
  "winv ok sk s plain epfd X t w \<longleftrightarrow> answers_ok posix_ok w \<and> normalized (w_time_start w)
     \<and> (plain \<longrightarrow> no_hooks (t_script t)) \<and> (\<forall>p\<ge>t_next_ptr t. t_flows t p = None) \<and> 0 \<le> t_next_flow_id t
     \<and> (\<forall>e\<in>set (watched epfd (w_trace w)). entry_ok ok s X t e)
     \<and> (\<forall>smp\<in>set (t_samples t). s_tid smp = t_index t \<and> sk smp)"

lemma winv_calm:
  assumes "winv ok sk s plain epfd X t w" "calm w w'" "normalized (w_time_start w')"
  shows "winv ok sk s plain epfd X t w'"
  using assms by (auto simp: winv_def intro: answers_ok_extends calm_extends dest: calm_watched)

lemma winv_quiet: "winv ok sk s plain epfd X t w \<Longrightarrow> quiet w w' \<Longrightarrow> winv ok sk s plain epfd X t w'"
  by (rule winv_calm) (auto simp: quiet_def winv_def)

lemma winv_weaken: "winv ok sk s plain epfd X t w \<Longrightarrow> X \<subseteq> Y \<Longrightarrow> winv ok sk s plain epfd Y t w"
  by (force simp: winv_def entry_ok_def)

lemma winv_put:
  assumes "winv ok sk s plain epfd X t w" "p \<in> X" "t_flows t p = Some f" "f_fd f' = f_fd f"
  shows "winv ok sk s plain epfd X (put_flow p f' t) w"
  using assms by (fastforce simp: winv_def entry_ok_def)

lemma winv_script:
  "winv ok sk s plain epfd X t w \<Longrightarrow> (plain \<Longrightarrow> no_hooks ss) \<Longrightarrow>
   winv ok sk s plain epfd X (t\<lparr>t_script := ss\<rparr>) w"
  by (auto simp: winv_def entry_ok_def)

lemma winv_frame [simp]:
  "winv ok sk s plain epfd X (t\<lparr>t_transactions := n\<rparr>) w = winv ok sk s plain epfd X t w"
  "winv ok sk s plain epfd X (t\<lparr>t_stop := b\<rparr>) w = winv ok sk s plain epfd X t w"
  "winv ok sk s plain epfd X t (log_msg l msg w) = winv ok sk s plain epfd X t w"
  "winv ok sk s plain epfd X t (w\<lparr>w_errno := en\<rparr>) = winv ok sk s plain epfd X t w"
  by (auto simp: winv_def entry_ok_def answers_ok_def)

lemma winv_next_id: "winv ok sk s plain epfd X t w \<Longrightarrow>
    winv ok sk s plain epfd X (t\<lparr>t_next_flow_id := t_next_flow_id t + 1\<rparr>) w"
  by (auto simp: winv_def entry_ok_def)

lemma winv_live:
  "winv ok sk s plain epfd X t w \<Longrightarrow> (fd, p, m) \<in> set (watched epfd (w_trace w)) \<Longrightarrow>
   \<exists>f. t_flows t p = Some f \<and> f_fd f = fd"
  by (auto simp: winv_def entry_ok_def)

lemma winv_samples:
  "winv ok sk s plain epfd X t w \<Longrightarrow> \<forall>smp\<in>set (t_samples t). s_tid smp = t_index t \<and> sk smp"
  by (simp add: winv_def)

text \<open>An update is complete when the flow satisfies its condition for the mask now watched.\<close>

lemma winv_complete:
  assumes "winv ok sk s plain epfd (insert p X) t w" "t_flows t p = Some f"
    and "\<And>m. (f_fd f, p, m) \<in> set (watched epfd (w_trace w)) \<Longrightarrow> measured s f \<and> ok m f"
  shows "winv ok sk s plain epfd X t w"
  using assms by (fastforce simp: winv_def entry_ok_def)

lemma winv_sys:
  assumes "winv ok sk s plain epfd X t w" "\<not> watches c"
    and "\<And>r w'. posix_ok (w_trace w) c r \<Longrightarrow> winv ok sk s plain epfd X t w' \<Longrightarrow> quiet w w' \<Longrightarrow> Q r w'"
  shows "wp (sys c w) Q"
proof (rule wp_sys_ok)
  show "answers_ok posix_ok w" using assms(1) by (simp add: winv_def)
  show "\<not> watches c" by fact
  show "Q r w'" if "posix_ok (w_trace w) c r" "quiet w w'" for r w'
    by (rule assms(3) [OF that(1) winv_quiet [OF assms(1) that(2)] that(2)])
qed

lemma winv_quietly:
  assumes "winv ok sk s plain epfd X t w" "quietly w m"
    and "\<And>a w'. winv ok sk s plain epfd X t w' \<Longrightarrow> quiet w w' \<Longrightarrow> Q a w'"
  shows "wp m Q"
  by (rule quietly_wp [OF assms(2)]) (use assms winv_quiet in auto)

text \<open>
  \<open>epoll_ctl\<close>: a failed call changes nothing; a successful \<open>EPOLL_CTL_MOD\<close> of the flow's descriptor
  completes an update, if the flow (as it will be) satisfies its condition for the new mask.
\<close>

lemma winv_mod:
  assumes inv: "winv ok sk s plain epfd {p} t w" and f: "t_flows t p = Some f"
    and f': "f_fd f' = f_fd f" "measured s f'" "ok m f'"
    and Q: "\<And>r w'. winv ok sk s plain epfd {p} t w' \<Longrightarrow> extends w w' \<Longrightarrow>
      (r_ret r = 0 \<Longrightarrow> winv ok sk s plain epfd {} (put_flow p f' t) w') \<Longrightarrow> Q r w'"
  shows "wp (sys (CEpollCtl epfd EPOLL_CTL_MOD (f_fd f) (Some \<lparr>ev_events = m, ev_ptr = p\<rparr>)) w) Q"
proof (cases "w_inputs w")
  case (Cons k ks)
  let ?c = "CEpollCtl epfd EPOLL_CTL_MOD (f_fd f) (Some \<lparr>ev_events = m, ev_ptr = p\<rparr>)"
  let ?r = "k (w_trace w) ?c"
  let ?w = "w\<lparr>w_inputs := ks, w_trace := w_trace w @ [(?c, ?r)],
    w_errno := (if r_ret ?r = -1 then r_errno ?r else w_errno w)\<rparr>"
  have ans: "answers_ok posix_ok ?w" using inv Cons by (simp add: winv_def answers_ok_def)
  have ext: "extends w ?w" using Cons by (simp add: extends_def)
  have "winv ok sk s plain epfd {p} t ?w"
    using inv ans f by (auto simp: winv_def entry_ok_def)
  moreover have "winv ok sk s plain epfd {} (put_flow p f' t) ?w" if "r_ret ?r = 0"
    using inv ans f f' that unfolding winv_def by (force simp: entry_ok_def)
  ultimately have "Q ?r ?w" using Q ext by blast
  with Cons show ?thesis by (simp add: wp_sys)
qed (simp add: wp_sys)

lemma winv_add:
  assumes inv: "winv ok sk s plain epfd {} t w" and p: "p = t_next_ptr t" and f: "f_fd f = fd"
    and Q: "\<And>w' t'. winv ok sk s plain epfd {p} t' w' \<Longrightarrow> extends w w' \<Longrightarrow> t' = snd (alloc_flow f t) \<Longrightarrow>
      (fd = t_stop_efd t \<Longrightarrow> winv ok sk s plain epfd {} t' w') \<Longrightarrow>
      (\<forall>m'. (fd, p, m') \<in> set (watched epfd (w_trace w')) \<longrightarrow> m' = m) \<Longrightarrow> Q () w'"
  shows "wp (epoll_ctl_or_die epfd EPOLL_CTL_ADD fd \<lparr>ev_events = m, ev_ptr = p\<rparr> w) Q"
proof (cases "w_inputs w")
  case (Cons k ks)
  let ?c = "CEpollCtl epfd EPOLL_CTL_ADD fd (Some \<lparr>ev_events = m, ev_ptr = p\<rparr>)"
  let ?r = "k (w_trace w) ?c"
  let ?w = "w\<lparr>w_inputs := ks, w_trace := w_trace w @ [(?c, ?r)],
    w_errno := (if r_ret ?r = -1 then r_errno ?r else w_errno w)\<rparr>"
  let ?t = "snd (alloc_flow f t)"
  have ans: "answers_ok posix_ok ?w" using inv Cons by (simp add: winv_def answers_ok_def)
  have ext: "extends w ?w" using Cons by (simp add: extends_def)
  have old: "entry_ok ok s {} ?t e" if "e \<in> set (watched epfd (w_trace w))" for e
  proof -
    obtain fd' q m' where e: "e = (fd', q, m')" by (cases e)
    from inv that have "entry_ok ok s {} t e" by (simp add: winv_def)
    moreover from winv_live [OF inv that [unfolded e]] inv have "q \<noteq> t_next_ptr t"
      by (auto simp: winv_def)
    ultimately show ?thesis by (auto simp: entry_ok_def alloc_flow_def e)
  qed
  have new: "entry_ok ok s {p} ?t (fd, p, m)" using f by (simp add: entry_ok_def alloc_flow_def p)
  have new': "entry_ok ok s {} ?t (fd, p, m)" if "fd = t_stop_efd t"
    using f that by (simp add: entry_ok_def alloc_flow_def p)
  have weak: "entry_ok ok s {p} ?t e" if "entry_ok ok s {} ?t e" for e
    using that by (force simp: entry_ok_def)
  have rest: "normalized (w_time_start ?w)" "plain \<longrightarrow> no_hooks (t_script ?t)"
    "\<forall>p\<ge>t_next_ptr ?t. t_flows ?t p = None" "0 \<le> t_next_flow_id ?t" "\<forall>smp\<in>set (t_samples ?t). s_tid smp = t_index ?t \<and> sk smp"
    using inv by (auto simp: winv_def alloc_flow_def)
  have "winv ok sk s plain epfd {p} ?t ?w"
    using ans rest new old weak unfolding winv_def by auto
  moreover have "winv ok sk s plain epfd {} ?t ?w" if "fd = t_stop_efd t"
    using ans rest new' [OF that] old unfolding winv_def by auto
  moreover have "\<forall>m'. (fd, p, m') \<in> set (watched epfd (w_trace ?w)) \<longrightarrow> m' = m" if "r_ret ?r = 0"
    using that by auto
  ultimately have "r_ret ?r = 0 \<longrightarrow> Q () ?w" using Q ext by blast
  with Cons show ?thesis by (simp add: epoll_ctl_or_die_def wp_sys)
qed (simp add: epoll_ctl_or_die_def wp_sys)

lemma winv_addflow:
  assumes inv: "winv ok sk s plain epfd {} t w"
    and Q: "\<And>w' t' f. winv ok sk s plain epfd {t_next_ptr t} t' w' \<Longrightarrow> extends w w' \<Longrightarrow>
      f = flow_calloc\<lparr>f_fd := fd, f_id := flow_id, f_latency := Some numlist_create\<rparr> \<Longrightarrow>
      t' = snd (alloc_flow f t) \<Longrightarrow>
      (\<forall>m. (fd, t_next_ptr t, m) \<in> set (watched epfd (w_trace w')) \<longrightarrow> m = EPOLLRDHUP OR events) \<Longrightarrow>
      Q (t_next_ptr t, t') w'"
  shows "wp (addflow epfd fd flow_id events t w) Q"
  unfolding addflow_def wp_obind
proof (rule winv_quietly [OF inv])
  show "quietly w (set_nonblocking fd w)" by (intro quiet_intros) auto
  let ?f = "flow_calloc\<lparr>f_fd := fd, f_id := flow_id, f_latency := Some numlist_create\<rparr>"
  fix a w1 assume 1: "winv ok sk s plain epfd {} t w1" "quiet w w1"
  have "wp (epoll_ctl_or_die epfd EPOLL_CTL_ADD fd \<lparr>ev_events = EPOLLRDHUP OR events, ev_ptr = t_next_ptr t\<rparr> w1)
    (\<lambda>_ w2. Q (t_next_ptr t, snd (alloc_flow ?f t)) (LOG_INFO ''tid=%d, flow_id=%d'' w2))"
    by (rule winv_add [OF 1(1) refl, where f = ?f], simp)
      (rule Q, auto intro: extends_trans [OF quiet_extends [OF 1(2)]])
  then show "wp (case alloc_flow ?f t of (p, t) \<Rightarrow>
      obind (epoll_ctl_or_die epfd EPOLL_CTL_ADD fd \<lparr>ev_events = EPOLLRDHUP OR events, ev_ptr = p\<rparr> w1)
       (\<lambda>_ w. Ret (p, t) (LOG_INFO ''tid=%d, flow_id=%d'' w))) Q"
    by (simp add: alloc_flow_def)
qed

lemma do_close_unwatches:
  "wp (do_close fd w) (\<lambda>_ w'. quiet w w' \<and> (\<forall>e\<in>set (watched epfd (w_trace w')). fst e \<noteq> fd))"
proof (induction fd w rule: do_close.induct)
  case (1 fd w)
  show ?case
  proof (cases "w_inputs w")
    case (Cons k ks)
    then obtain w1 where w1: "sys (CClose fd) w = Ret (k (w_trace w) (CClose fd)) w1"
      "w_trace w1 = w_trace w @ [(CClose fd, k (w_trace w) (CClose fd))]"
      by (simp add: sys_def Let_def)
    have q: "quiet w w1" by (rule quietly_Ret_quiet [OF quiet_sys w1(1)]) simp
    have "wp (do_close fd w1) (\<lambda>_ w'. quiet w1 w' \<and> (\<forall>e\<in>set (watched epfd (w_trace w')). fst e \<noteq> fd))"
      if "r_ret (k (w_trace w) (CClose fd)) = -1 \<and> w_errno w1 = EINTR"
      using 1 [OF w1(1) that] .
    then have "wp (do_close fd w1) (\<lambda>_ w'. quiet w w' \<and> (\<forall>e\<in>set (watched epfd (w_trace w')). fst e \<noteq> fd))"
      if "r_ret (k (w_trace w) (CClose fd)) = -1 \<and> w_errno w1 = EINTR"
      using that by (auto elim!: wp_mono intro: quiet_trans [OF q])
    then show ?thesis
      using q w1 by (subst do_close.simps) simp
  qed (subst do_close.simps, simp add: sys_def)
qed

lemma winv_delflow:
  assumes inv: "winv ok sk s plain epfd {p} t w" and f: "t_flows t p = Some f" "f_latency f \<noteq> None"
    and Q: "\<And>w'. winv ok sk s plain epfd {} (free_flow p t) w' \<Longrightarrow> extends w w' \<Longrightarrow> Q (free_flow p t) w'"
  shows "wp (delflow epfd p t w) Q"
  unfolding delflow_def with_flow_Some [of t, OF f(1)] if_not_P [OF f(2)] wp_obind
proof (rule winv_quietly [OF inv quiet_epoll], rule wp_mono [OF do_close_unwatches [where epfd = epfd]], clarify)
  fix a w1 b w2 assume 1: "winv ok sk s plain epfd {p} t w1" "quiet w w1" "quiet w1 w2"
    and un: "\<forall>e\<in>set (watched epfd (w_trace w2)). fst e \<noteq> f_fd f"
  from winv_quiet [OF 1(1,3)] have 2: "winv ok sk s plain epfd {p} t w2" .
  have "entry_ok ok s {} (free_flow p t) e" if "e \<in> set (watched epfd (w_trace w2))" for e
  proof -
    from 2 that have e: "entry_ok ok s {p} t e" by (simp add: winv_def)
    with un that f have "fst (snd e) \<noteq> p" by (auto simp: entry_ok_def)
    with e show ?thesis by (auto simp: entry_ok_def)
  qed
  with 2 have "winv ok sk s plain epfd {} (free_flow p t) w2" by (simp add: winv_def)
  then show "wp (Ret (free_flow p t) (LOG_INFO ''tid=%d, flow_id=%d'' w2)) Q"
    using Q extends_trans [OF quiet_extends [OF 1(2)] quiet_extends [OF 1(3)]] by simp
qed

text \<open>Transfers: at least -1 is returned, and without a script no more than was asked for.\<close>

lemma hook_or_call_wp:
  assumes inv: "winv ok sk s plain epfd X t w" and ss: "t_script t = ss"
    and c: "\<And>tr r. posix_ok tr c r \<Longrightarrow> r_ret r \<le> n" "\<not> watches c" and n: "-1 \<le> n"
    and Q: "\<And>ss' k w'. winv ok sk s plain epfd X (t\<lparr>t_script := ss'\<rparr>) w' \<Longrightarrow> quiet w w' \<Longrightarrow> -1 \<le> k \<Longrightarrow>
      (plain \<Longrightarrow> k \<le> n) \<Longrightarrow> Q (ss', k) w'"
  shows "wp (hook_or_call (run_packet_hook ss hid fd flags w) c) Q"
proof -
  have plain: "plain \<Longrightarrow> no_hooks ss" using inv ss by (simp add: winv_def)
  have hook: "wp (run_packet_hook ss hid fd flags w) (\<lambda>(ss', k) w1. quiet w w1
      \<and> (plain \<longrightarrow> no_hooks ss' \<and> k = - EHOOKEMPTY))"
    by (rule quietly_wp [OF quiet_run_packet_hook]) (auto dest: plain)
  show ?thesis
    unfolding hook_or_call_def wp_obind
  proof (rule wp_mono [OF hook], clarsimp, goal_cases)
    case (1 ss' k w1)
    have inv1: "winv ok sk s plain epfd X (t\<lparr>t_script := ss'\<rparr>) w1"
      by (rule winv_script) (use 1 winv_quiet [OF inv] in auto)
    show ?case
    proof (cases "k = - EHOOKEMPTY")
      case True
      then show ?thesis
        using n by (auto intro!: winv_sys [OF inv1 c(2)] Q intro: quiet_trans [OF 1(1)] c(1))
    next
      case False
      then show ?thesis using 1 inv1 by (auto simp: Let_def intro!: Q)
    qed
  qed
qed

lemma transfers_wp:
  assumes inv: "winv ok sk s plain epfd X t w" and len: "0 \<le> len" "len \<le> buf_len"
    and Q: "\<And>ss' k w'. winv ok sk s plain epfd X (t\<lparr>t_script := ss'\<rparr>) w' \<Longrightarrow> quiet w w' \<Longrightarrow> -1 \<le> k \<Longrightarrow>
      (plain \<Longrightarrow> k \<le> len) \<Longrightarrow> Q (ss', k) w'"
  shows "wp (do_read (t_script t) fd buf_len len flags w) Q"
    "wp (do_write (t_script t) fd buf_len len flags w) Q"
    "wp (do_readerr (t_script t) fd buf_len len flags w) Q"
  unfolding do_read_def do_write_def do_readerr_def script_hook_defs Let_def
  using len by (auto intro!: hook_or_call_wp [OF inv refl, where n = len] Q)

lemma winv_collect:
  assumes inv: "winv ok sk s plain epfd {p} t w" and f: "measured s f" "t_flows t p = Some g" "f_fd g = f_fd f"
    and sk: "\<And>now smp. sample_of (t_index t) f now smp \<Longrightarrow> sk smp"
    and Q: "\<And>f' t' w'. winv ok sk s plain epfd {p} t' w' \<Longrightarrow> calm w w' \<Longrightarrow> measured s f' \<Longrightarrow>
      same_counters f f' \<Longrightarrow> (lat_ok f \<Longrightarrow> lat_ok f') \<Longrightarrow>
      (\<exists>smps. t' = t\<lparr>t_samples := smps\<rparr>) \<Longrightarrow> Q (f', t') w'"
  shows "wp (interval_collect f t w) Q"
proof -
  have w: "answers_ok posix_ok w" "normalized (w_time_start w)" using inv by (auto simp: winv_def)
  show ?thesis
  proof (rule wp_mono [OF interval_collect_wp [OF w(1) f(1) w(2)]], clarsimp, goal_cases)
    case (1 f' t' w' r)
    let ?now = "r_time r"
    obtain smps where t': "t' = t\<lparr>t_samples := smps\<rparr>" and smps: "\<forall>smp\<in>set smps. s_tid smp = t_index t \<and> sk smp"
    proof (cases "t' = t")
      case True
      then show ?thesis using that [of "t_samples t"] winv_samples [OF inv] by simp
    next
      case False
      with 1 obtain smp where "t' = t\<lparr>t_samples := smp # t_samples t\<rparr>" "sample_of (t_index t) f ?now smp"
        by (auto simp: collected_def split: if_splits)
      then show ?thesis
        using that winv_samples [OF inv] sk by (auto simp: sample_of_def)
    qed
    have sc: "same_counters f f'" "measured s f'" "lat_ok f \<Longrightarrow> lat_ok f'"
      using 1 collected_lat_ok by (auto simp: collected_def)
    have "winv ok sk s plain epfd {p} t w'" by (rule winv_calm [OF inv]) (use 1 in auto)
    then have "winv ok sk s plain epfd {p} t' w'"
      using smps by (simp add: t' winv_def entry_ok_def)
    then show ?case using Q 1 sc t' by blast
  qed
qed

text \<open>An update that keeps the mask is complete when it keeps the condition for every mask.\<close>

lemma step_done:
  assumes old: "winv ok sk s plain epfd {} t w" "t_flows t p = Some f" "f_fd f \<noteq> t_stop_efd t"
    and new: "winv ok sk s plain epfd {p} t' w'" "calm w w'" "t_flows t' p = Some f'" "f_fd f' = f_fd f"
    "measured s f'" "\<And>m. ok m f \<Longrightarrow> ok m f'"
  shows "winv ok sk s plain epfd {} t' w'"
proof (rule winv_complete [OF new(1) new(3)], rule conjI [OF new(5) new(6)])
  fix m assume "(f_fd f', p, m) \<in> set (watched epfd (w_trace w'))"
  with new(2,4) have "(f_fd f, p, m) \<in> set (watched epfd (w_trace w))" by (simp add: calm_watched)
  with old(1) have "entry_ok ok s {} t (f_fd f, p, m)" by (simp add: winv_def)
  with old(2,3) show "ok m f" by (simp add: entry_ok_def)
qed

section \<open>The socket operations\<close>

definition rto_ok :: "options \<Rightarrow> bool" where
  "rto_ok opts \<longleftrightarrow> 0 \<le> min_rto opts \<and> min_rto opts < 2147"

lemma quiet_set_min_rto: "rto_ok opts \<Longrightarrow> quietly w (set_min_rto fd (min_rto opts) w)"
  by (auto simp: set_min_rto_def int_ok_def rto_ok_def intro!: quiet_intros)

lemmas quietly_set_min_rto [quiet_intros] = quiet_set_min_rto [THEN quietly_from]

lemma quietly_only_if [quiet_intros]: "(b \<Longrightarrow> quietly w (act v)) \<Longrightarrow> quiet w v \<Longrightarrow> quietly w (only_if b act v)"
  by (auto simp: only_if_def intro!: quiet_intros)

lemma quiet_setup_connected_socket: "quietly w (setup_connected_socket fd opts w)"
  by (auto simp: setup_connected_socket_def intro!: quiet_intros)

lemmas quietly_setup_connected_socket [quiet_intros] = quiet_setup_connected_socket [THEN quietly_from]

lemma quietly_buf_alloc: "quietly w (buf_alloc opts w)"
  by (auto simp: buf_alloc_def intro!: quiet_intros)

lemma buf_alloc_len: "buf_alloc opts w = Ret len w' \<Longrightarrow> len = uint (buf_size opts)"
  by (auto simp: buf_alloc_def obind_eq_Ret split: if_splits)

text \<open>What the main loops rely on: every operation is quiet, and \<open>epoll_wait\<close> is the kernel's.\<close>

locale socket_provider =
  fixes ops :: socket_ops
  assumes open_quiet: "\<And>ai w. quietly w (so_open ops ai w)"
    and bind_quiet: "\<And>op fd addr n w. so_bind ops = Some op \<Longrightarrow> quietly w (op fd addr n w)"
    and listen_quiet: "\<And>op fd n w. so_listen ops = Some op \<Longrightarrow> quietly w (op fd n w)"
    and connect_quiet: "\<And>op fd addr n w. so_connect ops = Some op \<Longrightarrow> quietly w (op fd addr n w)"
    and close_quiet: "\<And>op fd w. so_close ops = Some op \<Longrightarrow> quietly w (op fd w)"
    and kernel_wait: "so_epoll_wait ops = None"
begin

lemma quiet_socket_ops:
  "quietly w (socket_bind ops fd addr n w)" "quietly w (socket_listen ops fd b w)"
  "quietly w (socket_connect ops fd addr n w)" "quietly w (socket_close ops fd w)"
  by (auto simp: socket_bind_def socket_listen_def socket_connect_def socket_close_def
      split: option.split intro: quiet_intros bind_quiet listen_quiet connect_quiet close_quiet)

lemmas socket_intros = quiet_intros quiet_socket_ops [THEN quietly_from] open_quiet [THEN quietly_from]

lemma do_socket_open_wp:
  assumes inv: "winv ok sk s plain epfd X t w" and ss: "t_script t = ss"
    and Q: "\<And>ss' fd w'. winv ok sk s plain epfd X (t\<lparr>t_script := ss'\<rparr>) w' \<Longrightarrow> quiet w w' \<Longrightarrow> Q (ss', fd) w'"
  shows "wp (do_socket_open ops ss ai w) Q"
proof -
  have "quietly w (do_socket_open ops ss ai w)"
    by (auto simp: do_socket_open_def script_hook_defs run_socket_hook_packet intro!: socket_intros)
  moreover have "no_hooks ss \<Longrightarrow> do_socket_open ops ss ai w = Ret (ss', fd) w' \<Longrightarrow> no_hooks ss'" for ss' fd w'
    by (auto simp: do_socket_open_def script_hook_defs run_socket_hook_packet obind_eq_Ret split: if_splits)
  ultimately show ?thesis
    by (auto intro!: quietly_wp Q winv_script winv_quiet [OF inv]) (use inv ss in \<open>auto simp: winv_def\<close>)
qed

lemma do_socket_close_wp:
  assumes inv: "winv ok sk s plain epfd X t w" and ss: "t_script t = ss"
    and Q: "\<And>ss' r w'. winv ok sk s plain epfd X (t\<lparr>t_script := ss'\<rparr>) w' \<Longrightarrow> quiet w w' \<Longrightarrow> Q (ss', r) w'"
  shows "wp (do_socket_close ops ss fd w) Q"
proof -
  have "quietly w (do_socket_close ops ss fd w)"
    by (auto simp: do_socket_close_def script_hook_defs run_socket_hook_packet intro!: socket_intros)
  moreover have "no_hooks ss \<Longrightarrow> do_socket_close ops ss fd w = Ret (ss', r) w' \<Longrightarrow> no_hooks ss'" for ss' r w'
    by (auto simp: do_socket_close_def script_hook_defs run_socket_hook_packet obind_eq_Ret split: if_splits)
  ultimately show ?thesis
    by (auto intro!: quietly_wp Q winv_script winv_quiet [OF inv]) (use inv ss in \<open>auto simp: winv_def\<close>)
qed

lemma client_connect_wp:
  assumes inv: "winv ok sk s plain epfd X t w" and opts: "rto_ok opts"
    and Q: "\<And>ss' fd w'. winv ok sk s plain epfd X (t\<lparr>t_script := ss'\<rparr>) w' \<Longrightarrow> quiet w w' \<Longrightarrow>
      Q (fd, t\<lparr>t_script := ss'\<rparr>) w'"
  shows "wp (client_connect opts ops t w) Q"
  unfolding client_connect_def wp_obind
proof (rule do_socket_open_wp [OF inv refl], clarsimp, goal_cases)
  case (1 ss' fd w1)
  let ?t = "t\<lparr>t_script := ss'\<rparr>"
  have "quietly w1 (obind (only_if (min_rto opts \<noteq> 0) (set_min_rto fd (min_rto opts)) w1) (\<lambda>_ w.
         obind (only_if (debug opts) (set_debug fd 1) w) (\<lambda>_ w.
           obind (only_if (local_host opts \<noteq> None) (set_local_host fd opts) w) (\<lambda>_ w.
             obind (socket_connect ops fd (ai_addr (t_ai t)) (ai_addrlen (t_ai t)) w) (\<lambda>r w.
               if r \<noteq> 0 then LOG_FATAL ''socket_connect'' w
               else Ret (fd, ?t) w)))))" (is "quietly _ ?m")
    using opts by (auto intro!: socket_intros)
  then have "wp ?m Q"
    by (rule quietly_wp)
      (auto simp: obind_eq_Ret LOG_FATAL_def split: if_splits
        intro!: Q winv_quiet [OF 1(1)] quiet_trans [OF 1(2)])
  then show ?case by (simp add: wp_if)
qed

lemma epoll_wait_sys: "do_epoll_wait ops epfd n ms w = sys (CEpollWait epfd n ms) w"
  by (simp add: do_epoll_wait_def kernel_wait)

end

interpretation tcp: socket_provider tcp_socket_ops
  by unfold_locales (auto simp: tcp_socket_ops_def tcp_socket_open_def sys_ret_def intro!: quiet_intros)

interpretation udp: socket_provider udp_socket_ops
  by unfold_locales (auto simp: udp_socket_ops_def udp_socket_open_def sys_ret_def intro!: quiet_intros)

section \<open>The contract of a test\<close>

definition worker_opts :: "double \<Rightarrow> options \<Rightarrow> bool" where
  "worker_opts s opts \<longleftrightarrow> interval_secs opts = s \<and> dlt (Fin 0) s \<and> rto_ok opts"

definition masked :: "u32 \<Rightarrow> epoll_event \<Rightarrow> bool" where
  "masked m e \<longleftrightarrow> (has_event (ev_events e) EPOLLIN \<longrightarrow> has_event m EPOLLIN)
     \<and> (has_event (ev_events e) EPOLLOUT \<longrightarrow> has_event m EPOLLOUT)"

definition made_flow :: "fd \<Rightarrow> int \<Rightarrow> flow" where \<comment> \<open>what \<open>addflow\<close> allocates\<close>
  "made_flow fd i = flow_calloc\<lparr>f_fd := fd, f_id := i, f_latency := Some numlist_create\<rparr>"

text \<open>Processing an event for one flow leaves the other flows alone and never drops the listener.\<close>

definition kept :: "fd \<Rightarrow> ptr \<Rightarrow> thread \<Rightarrow> thread \<Rightarrow> bool" where
  "kept listen p t t' \<longleftrightarrow> t_stop_efd t' = t_stop_efd t \<and> t_index t' = t_index t
     \<and> (\<forall>q. q \<noteq> p \<longrightarrow> t_flows t q \<noteq> None \<longrightarrow> t_flows t' q = t_flows t q)
     \<and> (\<forall>f. listen \<noteq> -1 \<longrightarrow> t_flows t p = Some f \<longrightarrow> f_fd f = listen \<longrightarrow> f_latency f \<noteq> None \<longrightarrow>
           (\<exists>f'. t_flows t' p = Some f' \<and> f_fd f' = listen \<and> f_latency f' \<noteq> None))"

definition keeps_listener :: "fd \<Rightarrow> thread \<Rightarrow> thread \<Rightarrow> bool" where
  "keeps_listener listen t t' \<longleftrightarrow> t_stop_efd t' = t_stop_efd t \<and> t_index t' = t_index t
     \<and> (\<forall>q f. listen \<noteq> -1 \<longrightarrow> t_flows t q = Some f \<longrightarrow> f_fd f = listen \<longrightarrow> f_latency f \<noteq> None \<longrightarrow>
           (\<exists>f'. t_flows t' q = Some f' \<and> f_fd f' = listen \<and> f_latency f' \<noteq> None))"

lemma keeps_refl [simp]: "keeps_listener listen t t"
  by (simp add: keeps_listener_def)

lemma keeps_trans: "keeps_listener l t u \<Longrightarrow> keeps_listener l u v \<Longrightarrow> keeps_listener l t v"
  unfolding keeps_listener_def by metis

lemma kept_keeps: "kept l p t u \<Longrightarrow> keeps_listener l t u"
  unfolding kept_def keeps_listener_def by (metis option.distinct(1))

text \<open>Events not yet processed lead to live flows, ready for what the event reports.\<close>

definition pending :: "(u32 \<Rightarrow> flow \<Rightarrow> bool) \<Rightarrow> double \<Rightarrow> thread \<Rightarrow> epoll_event \<Rightarrow> bool" where
  "pending ok s t e \<longleftrightarrow> (\<exists>f m. t_flows t (ev_ptr e) = Some f
     \<and> (f_fd f \<noteq> t_stop_efd t \<longrightarrow> measured s f \<and> ok m f \<and> masked m e))"

lemma pending_kept: "pending ok s t e \<Longrightarrow> kept l p t t' \<Longrightarrow> ev_ptr e \<noteq> p \<Longrightarrow> pending ok s t' e"
  unfolding pending_def kept_def by (metis option.distinct(1))

lemma distinct_count_list: "(\<forall>x\<in>set xs. count_list xs x \<le> 1) \<longleftrightarrow> distinct xs"
  by (induction xs) (auto simp: count_list_0_iff)

lemma watched_ptrs_distinct:
  assumes "winv ok sk s plain epfd X t w"
  shows "distinct (map (fst \<circ> snd) (watched epfd (w_trace w)))"
proof -
  have *: "distinct (map (fst \<circ> snd) ws)" if "distinct (map fst ws)"
    "\<forall>e\<in>set ws. \<forall>e'\<in>set ws. fst (snd e) = fst (snd e') \<longrightarrow> fst e = fst e'" for ws :: "(fd \<times> ptr \<times> u32) list"
  proof -
    have "inj_on (fst \<circ> snd) (set ws)"
      using that by (intro inj_onI) (metis comp_apply distinct_map inj_onD)
    with that(1) show ?thesis by (simp add: distinct_map)
  qed
  show ?thesis
  proof (rule *[OF distinct_watched], intro ballI impI)
    fix e e' assume e: "e \<in> set (watched epfd (w_trace w))" "e' \<in> set (watched epfd (w_trace w))"
      "fst (snd e) = fst (snd e')"
    obtain fd p m fd' p' m' where "e = (fd, p, m)" "e' = (fd', p', m')" by (cases e, cases e')
    with e winv_live [OF assms, of fd p m] winv_live [OF assms, of fd' p' m'] show "fst e = fst e'" by auto
  qed
qed

lemma pending_events:
  assumes inv: "winv ok sk s plain epfd {} t w" and es: "events_ok (watched epfd (w_trace w)) es"
  shows "distinct (map ev_ptr es)" "\<forall>e\<in>set es. pending ok s t e"
proof -
  let ?ps = "map (fst \<circ> snd) (watched epfd (w_trace w))"
  have "count_list ?ps p \<le> 1" for p
    using watched_ptrs_distinct [OF inv] unfolding distinct_count_list [symmetric]
    by (metis count_list_0_iff zero_le)
  then have "\<forall>p\<in>set (map ev_ptr es). count_list (map ev_ptr es) p \<le> 1"
    using es by (auto simp: events_ok_def intro: order_trans)
  then show "distinct (map ev_ptr es)" by (simp only: distinct_count_list)
  have "pending ok s t e" if e: "event_ok (watched epfd (w_trace w)) e" for e
  proof -
    from e obtain fd m where m: "(fd, ev_ptr e, m) \<in> set (watched epfd (w_trace w))" "masked m e"
      by (auto simp: event_ok_def masked_def)
    with inv have "entry_ok ok s {} t (fd, ev_ptr e, m)" by (simp add: winv_def)
    with m(2) show ?thesis by (auto simp: pending_def entry_ok_def)
  qed
  then show "\<forall>e\<in>set es. pending ok s t e" using es by (auto simp: events_ok_def list_all_iff)
qed

lemma measured_simps [simp]:
  "measured s (f\<lparr>f_bytes_read := a\<rparr>) = measured s f" "measured s (f\<lparr>f_bytes_to_read := a\<rparr>) = measured s f"
  "measured s (f\<lparr>f_bytes_to_write := a\<rparr>) = measured s f" "measured s (f\<lparr>f_transactions := n\<rparr>) = measured s f"
  "measured s (f\<lparr>f_write_time := ts\<rparr>) = measured s f" "measured s (f\<lparr>f_latency := l\<rparr>) = measured s f"
  by (simp_all add: measured_def)

lemma made_flow_simps [simp]:
  "f_fd (made_flow fd i) = fd" "f_id (made_flow fd i) = i" "f_bytes_read (made_flow fd i) = 0"
  "f_bytes_to_read (made_flow fd i) = 0" "f_bytes_to_write (made_flow fd i) = 0"
  "f_transactions (made_flow fd i) = 0" "f_latency (made_flow fd i) = Some numlist_create"
  by (simp_all add: made_flow_def flow_calloc_def)

lemma measured_new: "worker_opts s opts \<Longrightarrow> f_itv f = Some (interval_create (interval_secs opts)) \<Longrightarrow> measured s f"
  by (simp add: measured_def worker_opts_def interval_create_def normalized_def)

text \<open>
  The situation in which a test processes an event for the flow \<open>f\<close> at \<open>p\<close>, and what it has to
  leave behind. In between, \<open>aside p t t'\<close>: only the flow at \<open>p\<close> (and fields no other flow depends on)
  changed.
\<close>

definition at_event :: "(u32 \<Rightarrow> flow \<Rightarrow> bool) \<Rightarrow> (sample \<Rightarrow> bool) \<Rightarrow> double \<Rightarrow> bool \<Rightarrow> fd \<Rightarrow> ptr \<Rightarrow> flow \<Rightarrow> u32 \<Rightarrow> thread \<Rightarrow> world \<Rightarrow> bool" where
  "at_event ok sk s plain epfd p f m t w \<longleftrightarrow> winv ok sk s plain epfd {} t w \<and> t_flows t p = Some f
     \<and> f_fd f \<noteq> t_stop_efd t \<and> measured s f \<and> ok m f \<and> lat_ok f"

definition step_post :: "(u32 \<Rightarrow> flow \<Rightarrow> bool) \<Rightarrow> (sample \<Rightarrow> bool) \<Rightarrow> double \<Rightarrow> bool \<Rightarrow> fd \<Rightarrow> fd \<Rightarrow> ptr \<Rightarrow> thread \<Rightarrow> world \<Rightarrow> thread \<Rightarrow> world \<Rightarrow> bool" where
  "step_post ok sk s plain epfd listen p t w t' w' \<longleftrightarrow>
     winv ok sk s plain epfd {} t' w' \<and> kept listen p t t' \<and> extends w w'"

lemma step_post_log [simp]:
  "step_post ok sk s plain epfd listen p t w t' (log_msg l msg w') = step_post ok sk s plain epfd listen p t w t' w'"
  by (simp add: step_post_def)

definition aside :: "ptr \<Rightarrow> flow \<Rightarrow> thread \<Rightarrow> thread \<Rightarrow> bool" where
  "aside p f t t' \<longleftrightarrow> t_stop_efd t' = t_stop_efd t \<and> t_index t' = t_index t \<and> (\<forall>q. q \<noteq> p \<longrightarrow> t_flows t' q = t_flows t q)
     \<and> (\<exists>f'. t_flows t' p = Some f' \<and> f_fd f' = f_fd f \<and> f_latency f' \<noteq> None)"

lemma aside_refl: "t_flows t p = Some f \<Longrightarrow> lat_ok f \<Longrightarrow> aside p f t t"
  by (auto simp: aside_def lat_ok_def)

lemma aside_frame [simp]:
  "aside p f t (t'\<lparr>t_script := ss\<rparr>) = aside p f t t'" "aside p f t (t'\<lparr>t_transactions := n\<rparr>) = aside p f t t'"
  "aside p f t (t'\<lparr>t_samples := smps\<rparr>) = aside p f t t'"
  by (simp_all add: aside_def)

lemma aside_put: "aside p f t t' \<Longrightarrow> f_fd g = f_fd f \<Longrightarrow> lat_ok g \<Longrightarrow> aside p f t (put_flow p g t')"
  by (auto simp: aside_def lat_ok_def)

lemma aside_kept: "aside p f t t' \<Longrightarrow> t_flows t p = Some f \<Longrightarrow> kept listen p t t'"
  by (auto simp: aside_def kept_def)

text \<open>A step ends by storing the flow under the mask it had, by deleting it, or under a new mask.\<close>

lemma step_stay:
  assumes at: "at_event ok sk s plain epfd p f m t w" and new: "winv ok sk s plain epfd {} t' w'" "extends w w'"
    and "aside p f t t'"
  shows "step_post ok sk s plain epfd listen p t w t' w'"
  using assms by (auto simp: step_post_def at_event_def intro: aside_kept)

lemma step_same:
  assumes at: "at_event ok sk s plain epfd p f m t w" and new: "winv ok sk s plain epfd {p} t' w'" "calm w w'"
    and t': "aside p f t t'" "t_flows t' p = Some f"
  shows "step_post ok sk s plain epfd listen p t w t' w'"
proof (rule step_stay [OF at _ calm_extends [OF new(2)] t'(1)])
  show "winv ok sk s plain epfd {} t' w'"
    using at by (intro step_done [OF _ _ _ new t'(2)]) (auto simp: at_event_def)
qed

lemma step_put:
  assumes at: "at_event ok sk s plain epfd p f m t w"
    and new: "winv ok sk s plain epfd {p} t' w'" "calm w w'" "aside p f t t'"
    and g: "f_fd g = f_fd f" "measured s g" "lat_ok g" "\<And>m. ok m f \<Longrightarrow> ok m g"
  shows "step_post ok sk s plain epfd listen p t w (put_flow p g t') w'"
proof -
  from at have f: "winv ok sk s plain epfd {} t w" "t_flows t p = Some f" "f_fd f \<noteq> t_stop_efd t"
    by (auto simp: at_event_def)
  from new(3) obtain f' where f': "t_flows t' p = Some f'" "f_fd f' = f_fd f" by (auto simp: aside_def)
  have "winv ok sk s plain epfd {} (put_flow p g t') w'"
    by (rule step_done [OF f winv_put [OF new(1), where f = f'] new(2), where f' = g]) (use f' g in auto)
  moreover have "kept listen p t (put_flow p g t')" by (rule aside_kept [OF aside_put [OF new(3) g(1,3)] f(2)])
  ultimately show ?thesis using new(2) by (simp add: step_post_def calm_extends)
qed

lemma step_del:
  assumes at: "at_event ok sk s plain epfd p f m t w" and listen: "listen = -1 \<or> f_fd f \<noteq> listen"
    and new: "winv ok sk s plain epfd {p} t' w'" "extends w w'" "aside p f t t'"
  shows "wp (delflow epfd p t' w') (step_post ok sk s plain epfd listen p t w)"
proof -
  from new(3) obtain f' where f': "t_flows t' p = Some f'" "f_latency f' \<noteq> None" by (auto simp: aside_def)
  have "kept listen p t (free_flow p t')" using at new(3) listen by (auto simp: at_event_def aside_def kept_def)
  then show ?thesis
    by (intro winv_delflow [OF new(1) f']) (auto simp: step_post_def intro: extends_trans [OF new(2)])
qed

lemma step_mod:
  assumes at: "at_event ok sk s plain epfd p f m t w"
    and new: "winv ok sk s plain epfd {p} t' w'" "extends w w'" "aside p f t t'"
    and g: "f_fd g = f_fd f" "measured s g" "lat_ok g" "ok m' g" and fd: "fd = f_fd f"
    and Q: "\<And>r w''. winv ok sk s plain epfd {p} t' w'' \<Longrightarrow> extends w w'' \<Longrightarrow>
      (r_ret r = 0 \<Longrightarrow> step_post ok sk s plain epfd listen p t w (put_flow p g t') w'') \<Longrightarrow> Q r w''"
  shows "wp (sys (CEpollCtl epfd EPOLL_CTL_MOD fd (Some \<lparr>ev_events = m', ev_ptr = p\<rparr>)) w') Q"
proof -
  from new(3) obtain f' where f': "t_flows t' p = Some f'" "f_fd f' = f_fd f" by (auto simp: aside_def)
  have k: "kept listen p t (put_flow p g t')"
    using at by (intro aside_kept [OF aside_put [OF new(3) g(1,3)]]) (simp add: at_event_def)
  show ?thesis
    unfolding fd f'(2) [symmetric]
    by (rule winv_mod [OF new(1) f'(1), of g]) (use g f' k in
      \<open>auto simp: step_post_def intro!: Q intro: extends_trans [OF new(2)]\<close>)
qed

text \<open>Accepting a connection: a new flow next to the ones there are.\<close>

lemma new_flow_wp:
  assumes inv: "winv ok sk s plain epfd {} t w"
    and upd: "\<And>g. f_fd (upd g) = f_fd g"
    and g: "\<And>i. 0 \<le> i \<Longrightarrow> measured s (upd (made_flow fd i)) \<and> ok (EPOLLRDHUP OR events) (upd (made_flow fd i))"
  shows "wp (obind (addflow epfd fd (t_next_flow_id t) events (t\<lparr>t_next_flow_id := t_next_flow_id t + 1\<rparr>) w)
      (\<lambda>(p, t) w. with_flow p t w (\<lambda>f. Ret (put_flow p (upd f) t) w)))
    (\<lambda>t' w'. winv ok sk s plain epfd {} t' w' \<and> extends w w' \<and> t_stop_efd t' = t_stop_efd t
      \<and> t_index t' = t_index t \<and> (\<forall>q. t_flows t q \<noteq> None \<longrightarrow> t_flows t' q = t_flows t q))"
  unfolding wp_obind
proof (rule winv_addflow [OF winv_next_id [OF inv]], goal_cases)
  case (1 w2 t2 f)
  let ?p = "t_next_ptr t" and ?g = "upd f"
  have f: "f = made_flow fd (t_next_flow_id t)" using 1 by (simp add: made_flow_def)
  have id: "0 \<le> t_next_flow_id t" and fresh: "t_flows t ?p = None" using inv by (auto simp: winv_def)
  have t2: "t_flows t2 = (t_flows t)(?p \<mapsto> f)" "t_stop_efd t2 = t_stop_efd t" "t_index t2 = t_index t"
    using 1 by (simp_all add: alloc_flow_def)
  have "winv ok sk s plain epfd {?p} (put_flow ?p ?g t2) w2"
    by (rule winv_put [where f = f]) (use 1 t2 upd in auto)
  then have "winv ok sk s plain epfd {} (put_flow ?p ?g t2) w2"
  proof (rule winv_complete)
    fix m assume "(f_fd ?g, ?p, m) \<in> set (watched epfd (w_trace w2))"
    then have "m = EPOLLRDHUP OR events" using 1 by (simp add: f upd made_flow_def)
    then show "measured s ?g \<and> ok m ?g" using g [OF id] by (simp add: f)
  qed simp
  with 1(2) t2 fresh show ?case by auto
qed

lemma step_accept:
  assumes at: "at_event ok sk s plain epfd p f m t w"
    and new: "winv ok sk s plain epfd {} t' w'" "extends w w'" "t_stop_efd t' = t_stop_efd t"
      "t_index t' = t_index t" "\<forall>q. t_flows t q \<noteq> None \<longrightarrow> t_flows t' q = t_flows t q"
  shows "step_post ok sk s plain epfd listen p t w t' w'"
  using assms by (auto simp: step_post_def kept_def at_event_def)

text \<open>A test also says which listening descriptors it is run with (a client has none, -1).\<close>

locale event_handler =
  fixes step :: event_step
    and role :: "fd \<Rightarrow> bool"
    and valid :: "options \<Rightarrow> bool"
    and ok :: "options \<Rightarrow> bool \<Rightarrow> u32 \<Rightarrow> flow \<Rightarrow> bool"
    and sk :: "options \<Rightarrow> bool \<Rightarrow> sample \<Rightarrow> bool"
  assumes step_wp: "\<And>opts s plain epfd listen t w e f m.
      role listen \<Longrightarrow> valid opts \<Longrightarrow> worker_opts s opts \<Longrightarrow>
      at_event (ok opts plain) (sk opts plain) s plain epfd (ev_ptr e) f m t w \<Longrightarrow> masked m e \<Longrightarrow>
      wp (step opts epfd listen (uint (buf_size opts)) f e t w)
        (step_post (ok opts plain) (sk opts plain) s plain epfd listen (ev_ptr e) t w)"
    and ok_lat: "\<And>opts plain m f. ok opts plain m f \<Longrightarrow> lat_ok f"
    and ok_client: "\<And>opts plain fd i. role (-1) \<Longrightarrow> valid opts \<Longrightarrow> 0 \<le> i \<Longrightarrow>
      ok opts plain (EPOLLRDHUP OR epoll_events opts) (new_client_flow opts (made_flow fd i))"
    and ok_listener: "\<And>opts plain fd i listen. role listen \<Longrightarrow> listen \<noteq> -1 \<Longrightarrow> valid opts \<Longrightarrow> 0 \<le> i \<Longrightarrow>
      ok opts plain (EPOLLRDHUP OR EPOLLIN) (new_flow opts (made_flow fd i))"
begin

lemma for_events_wp:
  assumes role: "role listen"
    and "valid opts" "worker_opts s opts"
    and "winv (ok opts plain) (sk opts plain) s plain epfd {} t w"
    and "distinct (map ev_ptr es)" "\<forall>e\<in>set es. pending (ok opts plain) s t e"
  shows "wp (for_events (step opts epfd listen (uint (buf_size opts))) es t w) (\<lambda>t' w'.
    winv (ok opts plain) (sk opts plain) s plain epfd {} t' w' \<and> keeps_listener listen t t' \<and> extends w w')"
  using assms(4-)
proof (induction es arbitrary: t w)
  case (Cons e es)
  then obtain f m where f: "t_flows t (ev_ptr e) = Some f"
    "f_fd f \<noteq> t_stop_efd t \<Longrightarrow> measured s f \<and> ok opts plain m f \<and> masked m e"
    by (auto simp: pending_def)
  show ?case
  proof (cases "f_fd f = t_stop_efd t")
    case True
    with f Cons.prems(1) show ?thesis by (simp add: keeps_listener_def)
  next
    case False
    have "wp (step opts epfd listen (uint (buf_size opts)) f e t w) (\<lambda>t' w'.
        winv (ok opts plain) (sk opts plain) s plain epfd {} t' w' \<and> kept listen (ev_ptr e) t t' \<and> extends w w')"
      unfolding step_post_def [symmetric]
      using f Cons.prems(1) False ok_lat by (intro step_wp [OF assms(1-3), where m = m]) (auto simp: at_event_def)
    moreover have "wp (for_events (step opts epfd listen (uint (buf_size opts))) es t' w') (\<lambda>t'' w''.
        winv (ok opts plain) (sk opts plain) s plain epfd {} t'' w'' \<and> keeps_listener listen t t'' \<and> extends w w'')"
      if "winv (ok opts plain) (sk opts plain) s plain epfd {} t' w'" "kept listen (ev_ptr e) t t'" "extends w w'"
      for t' w'
    proof -
      have "\<forall>e\<in>set es. pending (ok opts plain) s t' e"
        using Cons.prems(2,3) pending_kept [OF _ that(2)] by (auto simp: image_iff)
      then have "wp (for_events (step opts epfd listen (uint (buf_size opts))) es t' w') (\<lambda>t'' w''.
        winv (ok opts plain) (sk opts plain) s plain epfd {} t'' w'' \<and> keeps_listener listen t' t'' \<and> extends w' w'')"
        using Cons.prems(2) by (intro Cons.IH that(1)) auto
      then show ?thesis
        by (rule wp_mono) (auto intro: keeps_trans [OF kept_keeps [OF that(2)]] extends_trans [OF that(3)])
    qed
    ultimately show ?thesis using f(1) False by (auto elim!: wp_mono)
  qed
qed simp

lemma event_loop_wp:
  assumes role: "role listen"
    and opts: "valid opts" "worker_opts s opts" and ops: "socket_provider ops"
    and "winv (ok opts plain) (sk opts plain) s plain epfd {} t w" "length (w_inputs w) < n"
  shows "wp (event_loop n opts ops step epfd listen (uint (buf_size opts)) t w) (\<lambda>t' w'.
    winv (ok opts plain) (sk opts plain) s plain epfd {} t' w' \<and> keeps_listener listen t t' \<and> extends w w')"
  using assms(5-)
proof (induction n arbitrary: t w)
  case (Suc n)
  let ?loop = "event_loop n opts ops step epfd listen (uint (buf_size opts))"
  let ?Q = "\<lambda>w t t' w'. winv (ok opts plain) (sk opts plain) s plain epfd {} t' w' \<and> keeps_listener listen t t' \<and> extends w w'"
  show ?case
  proof (cases "t_stop t")
    case True
    with Suc.prems show ?thesis by simp
  next
    case False
    let ?c = "CEpollWait epfd (maxevents opts) (if nonblocking opts then 10 else -1)"
    have "wp (sys ?c w) (\<lambda>r w1. wp
       (if r_ret r = -1 then if w_errno w1 = EINTR then ?loop t w1 else LOG_FATAL ''epoll_wait'' w1
        else obind (for_events (step opts epfd listen (uint (buf_size opts))) (take (nat (r_ret r)) (r_events r)) t w1)
               ?loop) (?Q w t))"
    proof (cases "sys ?c w")
      case (Ret r w1)
      from Suc.prems(1) have "answers_ok posix_ok w" by (simp add: winv_def)
      with sys_answer(2) [OF Ret] have r: "posix_ok (w_trace w) ?c r" by blast
      have q: "quiet w w1" by (rule quietly_Ret_quiet [OF quiet_sys Ret]) simp
      note inv1 = winv_quiet [OF Suc.prems(1) q]
      have len: "length (w_inputs w1) < n" using sys_inputs_less [OF Ret] Suc.prems(2) by simp
      have same: "watched epfd (w_trace w1) = watched epfd (w_trace w)"
        by (simp add: sys_answer(1) [OF Ret])
      have IH: "wp (?loop t' w') (?Q w t)"
        if "winv (ok opts plain) (sk opts plain) s plain epfd {} t' w'" "keeps_listener listen t t'" "extends w1 w'" for t' w'
      proof -
        have "wp (?loop t' w') (?Q w' t')"
          using extends_inputs_length [OF that(3)] len by (intro Suc.IH that(1)) simp
        then show ?thesis
          by (rule wp_mono)
            (auto intro: keeps_trans [OF that(2)] extends_trans [OF extends_trans [OF quiet_extends [OF q] that(3)]])
      qed
      have "wp (for_events (step opts epfd listen (uint (buf_size opts))) (take (nat (r_ret r)) (r_events r)) t w1)
          (?Q w1 t)" if "r_ret r \<noteq> -1"
      proof -
        from r that have n: "nat (r_ret r) = length (r_events r)" and
          ev: "events_ok (watched epfd (w_trace w1)) (r_events r)" by (auto simp: same)
        show ?thesis
          unfolding n take_all_iff [THEN iffD2, OF order_refl]
          by (rule for_events_wp [OF role opts inv1 pending_events [OF inv1 ev]])
      qed
      then show ?thesis using Ret IH [OF inv1] by (auto elim!: wp_mono intro: IH)
    qed (auto simp: sys_def Let_def split: list.splits)
    with False show ?thesis by (simp add: socket_provider.epoll_wait_sys [OF ops])
  qed
qed simp

lemma run_events_wp:
  assumes role: "role listen"
    and opts: "valid opts" "worker_opts s opts" and ops: "socket_provider ops"
    and inv: "winv (ok opts plain) (sk opts plain) s plain epfd {} t w"
  shows "wp (run_events opts ops step epfd listen (uint (buf_size opts)) t w) (\<lambda>t' w'.
    winv (ok opts plain) (sk opts plain) s plain epfd {} t' w' \<and> keeps_listener listen t t' \<and> extends w w')"
  unfolding run_events_def wp_obind
proof (rule winv_sys [OF inv], simp)
  fix r w1 assume 1: "winv (ok opts plain) (sk opts plain) s plain epfd {} t w1" "quiet w w1"
  show "wp (event_loop (Suc (length (w_inputs w1))) opts ops step epfd listen (uint (buf_size opts)) t w1)
    (\<lambda>t' w'. winv (ok opts plain) (sk opts plain) s plain epfd {} t' w' \<and> keeps_listener listen t t' \<and> extends w w')"
    by (rule wp_mono [OF event_loop_wp [OF role opts ops 1(1)]])
      (use 1(2) in \<open>auto intro: extends_trans quiet_extends\<close>)
qed

lemma open_flows_wp:
  assumes role: "role (-1)" and opts: "valid opts" "worker_opts s opts" and ops: "socket_provider ops"
    and "winv (ok opts plain) (sk opts plain) s plain epfd {} t w" "0 \<le> i"
  shows "wp (open_flows opts ops epfd i n t w) (\<lambda>(fds, t') w'.
    winv (ok opts plain) (sk opts plain) s plain epfd {} t' w' \<and> t_stop_efd t' = t_stop_efd t
    \<and> t_index t' = t_index t)"
  using assms(5-)
proof (induction n arbitrary: i t w)
  case (Suc n)
  note W = winv_def [of "ok opts plain" "sk opts plain" s plain epfd]
  have rto: "rto_ok opts" using opts by (simp add: worker_opts_def)
  show ?case
    unfolding open_flows.simps wp_obind
  proof (rule socket_provider.client_connect_wp [OF ops Suc.prems(1) rto], clarsimp,
      rule winv_quietly, assumption, rule quiet_setup_connected_socket, rule winv_addflow, assumption, goal_cases)
    case (1 ss fd w1 u w2 w3 t3 f)
    let ?t = "t\<lparr>t_script := ss\<rparr>" and ?p = "t_next_ptr t"
    let ?f = "new_client_flow opts f"
    let ?t4 = "put_flow ?p ?f t3"
    have f: "f = made_flow fd i" using 1 by (simp add: made_flow_def)
    have t3: "t_flows t3 ?p = Some f" "t_stop_efd t3 = t_stop_efd t" "t_index t3 = t_index t"
      "t_flows t3 = (t_flows t)(?p \<mapsto> f)"
      using 1 by (simp_all add: alloc_flow_def)
    have "winv (ok opts plain) (sk opts plain) s plain epfd {?p} ?t4 w3"
      by (rule winv_put [where f = f]) (use 1 t3 in \<open>auto simp: new_client_flow_def\<close>)
    then have "winv (ok opts plain) (sk opts plain) s plain epfd {} ?t4 w3"
    proof (rule winv_complete)
      fix m assume "(f_fd ?f, ?p, m) \<in> set (watched epfd (w_trace w3))"
      then have "m = EPOLLRDHUP OR epoll_events opts" using 1 by (simp add: f new_client_flow_def made_flow_def)
      then show "measured s ?f \<and> ok opts plain m ?f"
        using ok_client [OF role opts(1) Suc.prems(2)] opts(2)
        by (simp add: f measured_def new_client_flow_def interval_create_def worker_opts_def normalized_def)
    qed simp
    from Suc.IH [OF this, of "i + 1"] Suc.prems(2) t3 show ?case by (auto elim!: wp_mono)
  qed
qed simp

lemma close_flows_wp:
  assumes ops: "socket_provider ops" and "winv (ok opts plain) (sk opts plain) s plain epfd {} t w"
  shows "wp (close_flows ops fds t w) (\<lambda>t' w'.
    winv (ok opts plain) (sk opts plain) s plain epfd {} t' w' \<and> t_index t' = t_index t)"
  using assms(2)
proof (induction fds arbitrary: t w)
  case (Cons fd fds)
  show ?case
    unfolding close_flows.simps wp_obind
    by (rule socket_provider.do_socket_close_wp [OF ops Cons.prems refl], clarsimp,
        drule Cons.IH, simp)
qed simp

end

text \<open>A thread about to run, and a world in which nothing is watched yet.\<close>

definition fresh_thread :: "bool \<Rightarrow> thread \<Rightarrow> world \<Rightarrow> bool" where
  "fresh_thread plain t w \<longleftrightarrow> answers_ok posix_ok w \<and> normalized (w_time_start w)
     \<and> (plain \<longrightarrow> no_hooks (t_script t)) \<and> t_flows t = Map.empty \<and> t_samples t = []
     \<and> 0 \<le> t_next_flow_id t
     \<and> (\<forall>epfd. watched epfd (w_trace w) = [])"

lemma fresh_winv: "fresh_thread plain t w \<Longrightarrow> winv ok sk s plain epfd {} t w"
  by (simp add: fresh_thread_def winv_def)

lemma fresh_quiet: "fresh_thread plain t w \<Longrightarrow> quiet w w' \<Longrightarrow> fresh_thread plain t w'"
  by (auto simp: fresh_thread_def quiet_def calm_def intro: answers_ok_extends)

lemma fresh_quietly:
  "fresh_thread plain t w \<Longrightarrow> quietly w m \<Longrightarrow> (\<And>a w'. fresh_thread plain t w' \<Longrightarrow> Q a w') \<Longrightarrow> wp m Q"
  by (erule quietly_wp) (blast dest: fresh_quiet)

lemma fresh_script:
  assumes "fresh_thread plain t w" "winv ok sk s plain epfd {} (t\<lparr>t_script := ss\<rparr>) w'" "quiet w w'"
  shows "fresh_thread plain (t\<lparr>t_script := ss\<rparr>) w'"
  using fresh_quiet [OF assms(1,3)] assms(2) by (simp add: fresh_thread_def winv_def)

lemma buf_alloc_wp:
  assumes inv: "winv ok sk s plain epfd X t w"
    and Q: "\<And>w'. winv ok sk s plain epfd X t w' \<Longrightarrow> Q (uint (buf_size opts)) w'"
  shows "wp (buf_alloc opts w) Q"
  by (rule quietly_wp [OF quietly_buf_alloc]) (auto dest: buf_alloc_len intro: Q winv_quiet [OF inv])

lemma winv_addflow_lite:
  assumes inv: "winv ok sk s plain epfd {} t w"
    and Q: "\<And>w'. winv ok sk s plain epfd {} (snd (alloc_flow (flow_calloc\<lparr>f_fd := t_stop_efd t\<rparr>) t)) w' \<Longrightarrow>
      Q (t_next_ptr t, snd (alloc_flow (flow_calloc\<lparr>f_fd := t_stop_efd t\<rparr>) t)) w'"
  shows "wp (addflow_lite epfd (t_stop_efd t) events t w) Q"
proof -
  let ?f = "flow_calloc\<lparr>f_fd := t_stop_efd t\<rparr>"
  have "wp (epoll_ctl_or_die epfd EPOLL_CTL_ADD (t_stop_efd t) \<lparr>ev_events = events, ev_ptr = t_next_ptr t\<rparr> w)
    (\<lambda>_. Q (t_next_ptr t, snd (alloc_flow ?f t)))"
    by (rule winv_add [OF inv refl, where f = ?f]) (simp_all add: Q)
  then show ?thesis by (simp add: addflow_lite_def alloc_flow_def)
qed

context event_handler
begin

text \<open>
  A client worker neither faults nor runs out of fuel, and the samples it leaves behind carry its
  index and satisfy the test's condition.
\<close>

lemma run_client_wp:
  assumes role: "role (-1)" and opts: "valid opts" "worker_opts s opts" and ops: "socket_provider ops"
    and fresh: "fresh_thread plain t w"
  shows "wp (run_client opts ops step t w) (\<lambda>t' w'. t_index t' = t_index t
    \<and> (\<forall>smp\<in>set (t_samples t'). s_tid smp = t_index t \<and> sk opts plain smp))"
proof -
  let ?I = "\<lambda>epfd. winv (ok opts plain) (sk opts plain) s plain epfd {}"
  have main: "wp (obind (addflow_lite epfd (t_stop_efd t) EPOLLIN t w1) (\<lambda>(stop_fl, t) w.
      obind (open_flows opts ops epfd 0 n t w) (\<lambda>(client_fds, t) w.
        obind (buf_alloc opts w) (\<lambda>buf w.
          obind (run_events opts ops step epfd (-1) buf t w) (\<lambda>t w.
            obind (close_flows ops client_fds t w) (\<lambda>t w.
              obind (do_close epfd w) (\<lambda>_ w. Ret (free_flow stop_fl t) w)))))))
    (\<lambda>t' w'. t_index t' = t_index t \<and> (\<forall>smp\<in>set (t_samples t'). s_tid smp = t_index t \<and> sk opts plain smp))"
    if "?I epfd t w1" for epfd n w1
    unfolding wp_obind
  proof (rule winv_addflow_lite [OF that], clarsimp, rule wp_mono [OF open_flows_wp [OF role opts ops]],
      assumption, simp, clarsimp, rule buf_alloc_wp, assumption, rule wp_mono [OF run_events_wp [OF role opts ops]],
      assumption, goal_cases)
    case (1 w2 fds t2 w3 w4 t5 w5)
    then have "t_index t5 = t_index t" by (simp add: keeps_listener_def alloc_flow_def)
    with 1 have "wp (close_flows ops fds t5 w5) (\<lambda>t' w'. ?I epfd t' w' \<and> t_index t' = t_index t)"
      using close_flows_wp [OF ops, of opts plain s epfd t5 w5 fds] by auto
    then show ?case
      by (rule wp_mono, clarsimp) (auto intro!: quietly_wp [OF quiet_do_close] dest: winv_samples)
  qed
  show ?thesis
    unfolding run_client_def Let_def wp_obind
    by (rule wp_quiet_sys) (auto intro!: main [unfolded wp_obind] fresh_winv fresh_quiet [OF fresh])
qed

text \<open>
  The same for a server worker, whose listening flow is still there when the loop is over.
\<close>

lemma run_server_wp:
  assumes roles: "\<And>fd. fd \<noteq> -1 \<Longrightarrow> role fd" and opts: "valid opts" "worker_opts s opts" and ops: "socket_provider ops"
    and fresh: "fresh_thread plain t w"
  shows "wp (run_server opts ops step t w) (\<lambda>t' w'. t_index t' = t_index t
    \<and> (\<forall>smp\<in>set (t_samples t'). s_tid smp = t_index t \<and> sk opts plain smp))"
proof -
  let ?I = "\<lambda>epfd. winv (ok opts plain) (sk opts plain) s plain epfd"
  let ?Q = "\<lambda>t' w'. t_index t' = t_index t \<and> (\<forall>smp\<in>set (t_samples t'). s_tid smp = t_index t \<and> sk opts plain smp)"
  have tail: "wp (obind (do_socket_close ops (t_script t2) fd w2) (\<lambda>(ss, r) w.
       if r < 0 then LOG_FATAL ''close'' w
       else obind (delflow epfd p (t2\<lparr>t_script := ss\<rparr>) w) (\<lambda>t w.
         obind (do_close epfd w) (\<lambda>_ w. Ret (free_flow q t) w)))) ?Q"
    if "?I epfd {} t2 w2" "t_flows t2 p = Some f" "f_latency f \<noteq> None" "t_index t2 = t_index t" for t2 w2 epfd fd p q f
    unfolding wp_obind
  proof (rule socket_provider.do_socket_close_wp [OF ops winv_weaken [OF that(1)] refl, of "{p}"], simp, goal_cases)
    case (1 ss r w3)
    have "wp (delflow epfd p (t2\<lparr>t_script := ss\<rparr>) w3)
        (\<lambda>a w. wp (do_close epfd w) (\<lambda>_ w. ?Q (free_flow q a) w))"
      by (rule winv_delflow [OF 1(1), of f], use that in simp, rule that(3))
        (auto intro!: quietly_wp [OF quiet_do_close] dest: winv_samples simp: that)
    then show ?case by simp
  qed
  have main: "wp (obind (addflow epfd fd (t_next_flow_id t1) EPOLLIN (t1\<lparr>t_next_flow_id := t_next_flow_id t1 + 1\<rparr>) w1)
        (\<lambda>(listen_fl, t) w.
          with_flow listen_fl t w (\<lambda>f.
            obind (addflow_lite epfd (t_stop_efd t) EPOLLIN (put_flow listen_fl (new_flow opts f) t) w)
              (\<lambda>(stop_fl, t) w.
              obind (buf_alloc opts w) (\<lambda>buf w.
              obind (run_events opts ops step epfd fd buf t w) (\<lambda>t w.
              obind (do_socket_close ops (t_script t) fd w) (\<lambda>(ss, r) w.
              if r < 0 then LOG_FATAL ''close'' w
              else obind (delflow epfd listen_fl (t\<lparr>t_script := ss\<rparr>) w) (\<lambda>t w.
              obind (do_close epfd w) (\<lambda>_ w. Ret (free_flow stop_fl t) w)))))))) ) ?Q"
    if "?I epfd {} t1 w1" "t_index t1 = t_index t" "fd \<noteq> -1" for epfd fd t1 w1
    unfolding wp_obind
  proof (rule winv_addflow [OF winv_next_id [OF that(1)]], goal_cases)
    case (1 w2 t2 f)
    note nl = that(3)
    let ?p = "t_next_ptr t1" and ?f = "new_flow opts f"
    let ?t3 = "put_flow ?p ?f t2"
    have f: "f = made_flow fd (t_next_flow_id t1)" using 1 by (simp add: made_flow_def)
    have t2: "t_flows t2 ?p = Some f" "t_stop_efd t2 = t_stop_efd t1" "t_index t2 = t_index t"
      using 1 that by (simp_all add: alloc_flow_def)
    have "?I epfd {?p} ?t3 w2"
      by (rule winv_put [where f = f]) (use 1 t2 in \<open>auto simp: new_flow_def\<close>)
    then have inv3: "?I epfd {} ?t3 w2"
    proof (rule winv_complete)
      fix m assume "(f_fd ?f, ?p, m) \<in> set (watched epfd (w_trace w2))"
      then have "m = EPOLLRDHUP OR EPOLLIN" using 1 by (simp add: f new_flow_def made_flow_def)
      then show "measured s ?f \<and> ok opts plain m ?f"
        using ok_listener [OF roles [OF nl] nl opts(1)] opts(2) that(1)
        by (simp add: f measured_def new_flow_def interval_create_def worker_opts_def normalized_def winv_def)
    qed simp
    let ?t4 = "snd (alloc_flow (flow_calloc\<lparr>f_fd := t_stop_efd ?t3\<rparr>) ?t3)"
    have t4: "t_flows ?t4 ?p = Some ?f" "f_latency ?f \<noteq> None" "t_index ?t4 = t_index t" "f_fd ?f = fd"
      using 1(4) t2 f by (simp_all add: alloc_flow_def new_flow_def made_flow_def)
    have "wp (obind (addflow_lite epfd (t_stop_efd ?t3) EPOLLIN ?t3 w2) (\<lambda>(stop_fl, t) w.
        obind (buf_alloc opts w) (\<lambda>buf w.
          obind (run_events opts ops step epfd fd buf t w) (\<lambda>t w.
            obind (do_socket_close ops (t_script t) fd w) (\<lambda>(ss, r) w.
            if r < 0 then LOG_FATAL ''close'' w
            else obind (delflow epfd ?p (t\<lparr>t_script := ss\<rparr>) w) (\<lambda>t w.
            obind (do_close epfd w) (\<lambda>_ w. Ret (free_flow stop_fl t) w))))))) ?Q"
      unfolding wp_obind
    proof (rule winv_addflow_lite [OF inv3], simp only: prod.case wp_obind, rule buf_alloc_wp, assumption,
        rule wp_mono [OF run_events_wp [OF roles [OF nl] opts ops]], assumption, goal_cases)
      case (1 w3 w4 t5 w5)
      with t4 obtain f' where "t_flows t5 ?p = Some f'" "f_latency f' \<noteq> None" "t_index t5 = t_index t"
        using nl unfolding keeps_listener_def by metis
      with tail [of epfd t5 w5 ?p f' fd "t_next_ptr ?t3"] 1 show ?case by simp
    qed
    with t2(1) show ?case by (simp add: wp_with_flow)
  qed
  note quiets = quiet_setters quietly_only_if [OF _ quiet_refl] quiet_set_min_rto
    socket_provider.quiet_socket_ops [OF ops]
  have rto: "rto_ok opts" using opts(2) by (simp add: worker_opts_def)
  show ?thesis
    unfolding run_server_def Let_def wp_obind
    apply (rule socket_provider.do_socket_open_wp [OF ops fresh_winv [OF fresh] refl])
    apply (drule fresh_script [OF fresh], assumption)
    apply (simp only: prod.case wp_if wp_LOG_FATAL simp_thms wp_obind)
    apply (intro impI)
    apply (rule fresh_quietly, assumption, rule quietly_only_if [OF quiet_setters(1) quiet_refl])
    apply (rule fresh_quietly, assumption, rule quiet_setters)
    apply (rule fresh_quietly, assumption, rule socket_provider.quiet_socket_ops [OF ops])
    apply (rule impI)
    apply (rule fresh_quietly, assumption, rule quietly_only_if [OF quiet_set_min_rto [OF rto] quiet_refl])
    apply (rule fresh_quietly, assumption, rule socket_provider.quiet_socket_ops [OF ops])
    apply (rule impI)
    apply (rule fresh_quietly, assumption, rule quiet_sys, simp)
    apply (rule impI)
    by (rule main [unfolded wp_obind], rule fresh_winv, assumption, simp, assumption)
qed

end

section \<open>Transfers use up answers\<close>

lemma call_hook_less: "call_hook ss hid fd flags w = Ret r w' \<Longrightarrow> length (w_inputs w') < length (w_inputs w)"
  by (auto simp: call_hook_def obind_eq_Ret LOG_FATAL_def split: if_splits dest: sys_inputs_less)

lemma push_hook_le:
  assumes "push_hook ss hid w = Ret (ss', err) w'"
  shows "length (w_inputs w') \<le> length (w_inputs w)" "err = 0 \<or> err = - EHOOKEMPTY"
  using assms by (auto simp: push_hook_def load_hook_def obind_eq_Ret LOG_FATAL_def
      split: if_splits option.splits dest: sys_inputs_less)

lemma packet_hook_less:
  assumes "run_packet_hook ss hid fd flags w = Ret (ss', k) w'"
  shows "length (w_inputs w') \<le> length (w_inputs w)"
    "k \<noteq> - EHOOKEMPTY \<Longrightarrow> length (w_inputs w') < length (w_inputs w)"
proof -
  from assms obtain ss1 err w1 where p: "push_hook ss hid w = Ret (ss1, err) w1"
    "(if err \<noteq> 0 then Ret (ss1, err) w1 else obind (call_hook ss1 hid fd flags w1) (\<lambda>res w. Ret (ss1, res) w))
      = Ret (ss', k) w'"
    unfolding run_packet_hook_def obind_eq_Ret by auto
  note le = push_hook_le [OF p(1)]
  have "w' = w1 \<and> k = err \<and> err \<noteq> 0 \<or> length (w_inputs w') < length (w_inputs w1)"
    using p(2) call_hook_less [of ss1 hid fd flags w1] by (auto simp: obind_eq_Ret split: if_splits)
  then show "length (w_inputs w') \<le> length (w_inputs w)"
    "k \<noteq> - EHOOKEMPTY \<Longrightarrow> length (w_inputs w') < length (w_inputs w)"
    using le by auto
qed

lemma hook_or_call_less:
  assumes "hook_or_call (run_packet_hook ss hid fd flags w) c = Ret r w'"
  shows "length (w_inputs w') < length (w_inputs w)"
proof -
  from assms obtain ss' k w1 where h: "run_packet_hook ss hid fd flags w = Ret (ss', k) w1"
    and c: "k = - EHOOKEMPTY \<and> (\<exists>a. sys c w1 = Ret a w') \<or> k \<noteq> - EHOOKEMPTY \<and> w_inputs w' = w_inputs w1"
    unfolding hook_or_call_def obind_eq_Ret by (auto simp: Let_def obind_eq_Ret split: if_splits)
  from c packet_hook_less [OF h] show ?thesis by (auto dest: sys_inputs_less)
qed

lemma transfer_less:
  "do_read ss fd buf_len len flags w = Ret r w' \<Longrightarrow> length (w_inputs w') < length (w_inputs w)"
  "do_write ss fd buf_len len flags w = Ret r w' \<Longrightarrow> length (w_inputs w') < length (w_inputs w)"
  "do_readerr ss fd buf_len len flags w = Ret r w' \<Longrightarrow> length (w_inputs w') < length (w_inputs w)"
  by (auto simp: do_read_def do_write_def do_readerr_def script_hook_defs Let_def hook_or_call_less split: if_splits)

lemma collect_le: "interval_collect f t w = Ret r w' \<Longrightarrow> length (w_inputs w') \<le> length (w_inputs w)"
  using extends_interval_collect [of w f t] by (simp add: extends_inputs_length)

end
