(* ===== verification/Streams.thy ===== *)
theory Streams
  imports Workload
begin

text \<open>
  What the TCP and UDP stream tests share: following one flow through the blocks and loops of an
  event, and the accounting of transfers.
\<close>

section \<open>In the middle of an event\<close>

text \<open>
  \<open>midway\<close>: some way into the processing of an event for the flow \<open>f0\<close> at \<open>p\<close>, the local view of the
  flow is \<open>f\<close>. Nothing new is watched, the other flows are as they were, and storing \<open>f\<close> would
  complete the step.
\<close>

definition midway :: "(u32 \<Rightarrow> flow \<Rightarrow> bool) \<Rightarrow> (sample \<Rightarrow> bool) \<Rightarrow> double \<Rightarrow> bool \<Rightarrow> fd \<Rightarrow> ptr \<Rightarrow> flow \<Rightarrow>
    thread \<Rightarrow> world \<Rightarrow> flow \<Rightarrow> thread \<Rightarrow> world \<Rightarrow> bool" where
  "midway ok sk s plain epfd p f0 t0 w0 f t w \<longleftrightarrow> winv ok sk s plain epfd {p} t w \<and> calm w0 w
     \<and> aside p f0 t0 t \<and> f_fd f = f_fd f0 \<and> measured s f \<and> lat_ok f \<and> (\<forall>m. ok m f0 \<longrightarrow> ok m f)"

lemma midway_start: "at_event ok sk s plain epfd p f m t w \<Longrightarrow> midway ok sk s plain epfd p f t w f t w"
  by (auto simp: at_event_def midway_def intro: winv_weaken aside_refl)

lemma midway_put:
  assumes "at_event ok sk s plain epfd p f0 m t0 w0" "midway ok sk s plain epfd p f0 t0 w0 f t w"
  shows "step_post ok sk s plain epfd listen p t0 w0 (put_flow p f t) w"
  using assms(2) by (intro step_put [OF assms(1)]) (auto simp: midway_def)

lemma midway_log [simp]:
  "midway ok sk s plain epfd p f0 t0 w0 f t (log_msg l msg w) = midway ok sk s plain epfd p f0 t0 w0 f t w"
  by (simp add: midway_def)

text \<open>A failed transfer is logged, unless there is just nothing to transfer.\<close>

definition log_unless_eagain :: "string \<Rightarrow> world \<Rightarrow> world" where
  "log_unless_eagain what w = (if w_errno w \<noteq> EAGAIN then LOG_ERROR what w else w)"

lemma log_unless_eagain_frame [simp]:
  "midway ok sk s plain epfd p f0 t0 w0 f t (log_unless_eagain msg w) = midway ok sk s plain epfd p f0 t0 w0 f t w"
  "step_post ok sk s plain epfd listen p t0 w0 t (log_unless_eagain msg w) = step_post ok sk s plain epfd listen p t0 w0 t w"
  by (simp_all add: log_unless_eagain_def)

lemma midway_stored:
  "midway ok sk s plain epfd p f0 t0 w0 f t w \<Longrightarrow> midway ok sk s plain epfd p f0 t0 w0 f (put_flow p f t) w"
  by (auto simp: midway_def aside_def lat_ok_def intro: winv_put)

lemma midway_del:
  assumes "at_event ok sk s plain epfd p f0 m t0 w0" "midway ok sk s plain epfd p f0 t0 w0 f t w"
    and "listen = -1 \<or> f_fd f0 \<noteq> listen"
  shows "wp (delflow epfd p t w) (step_post ok sk s plain epfd listen p t0 w0)"
  using assms(2) by (intro step_del [OF assms(1,3)]) (auto simp: midway_def calm_extends)

lemma midway_update:
  assumes "midway ok sk s plain epfd p f0 t0 w0 f t w" "f_fd g = f_fd f" "measured s g" "lat_ok g"
    and "\<And>m. ok m f \<Longrightarrow> ok m g"
  shows "midway ok sk s plain epfd p f0 t0 w0 g t w"
  using assms by (auto simp: midway_def)

lemma midway_quiet:
  "midway ok sk s plain epfd p f0 t0 w0 f t w \<Longrightarrow> quiet w w' \<Longrightarrow> midway ok sk s plain epfd p f0 t0 w0 f t w'"
  by (auto simp: midway_def intro: winv_quiet calm_trans quiet_calm)

lemma midway_transfer:
  assumes mid: "midway ok sk s plain epfd p f0 t0 w0 f t w" and len: "0 \<le> len" "len \<le> buf_len"
    and Q: "\<And>ss k w'. midway ok sk s plain epfd p f0 t0 w0 f (t\<lparr>t_script := ss\<rparr>) w' \<Longrightarrow> -1 \<le> k \<Longrightarrow>
      (plain \<Longrightarrow> k \<le> len) \<Longrightarrow> Q (ss, k) w'"
  shows "wp (do_read (t_script t) fd buf_len len flags w) Q"
    "wp (do_write (t_script t) fd buf_len len flags w) Q"
    "wp (do_readerr (t_script t) fd buf_len len flags w) Q"
proof -
  have inv: "winv ok sk s plain epfd {p} t w" using mid by (simp add: midway_def)
  have nxt: "midway ok sk s plain epfd p f0 t0 w0 f (t\<lparr>t_script := ss\<rparr>) w'"
    if "winv ok sk s plain epfd {p} (t\<lparr>t_script := ss\<rparr>) w'" "quiet w w'" for ss w'
    using mid that by (auto simp: midway_def intro: calm_trans quiet_calm)
  show "wp (do_read (t_script t) fd buf_len len flags w) Q"
    "wp (do_write (t_script t) fd buf_len len flags w) Q"
    "wp (do_readerr (t_script t) fd buf_len len flags w) Q"
    by (rule transfers_wp [OF inv len]; rule Q; (rule nxt)?; assumption)+
qed

lemma midway_collect:
  assumes mid: "midway ok sk s plain epfd p f0 t0 w0 f t w"
    and ok: "\<And>g m. same_counters f g \<Longrightarrow> lat_ok g \<Longrightarrow> ok m f \<Longrightarrow> ok m g"
    and sk: "\<And>tid now smp. sample_of tid f now smp \<Longrightarrow> sk smp"
    and Q: "\<And>f' t' w'. midway ok sk s plain epfd p f0 t0 w0 f' t' w' \<Longrightarrow> same_counters f f' \<Longrightarrow> Q (f', t') w'"
  shows "wp (interval_collect f t w) Q"
proof -
  from mid have m: "winv ok sk s plain epfd {p} t w" "measured s f" "lat_ok f" "f_fd f = f_fd f0" by (auto simp: midway_def)
  from mid obtain g where g: "t_flows t p = Some g" "f_fd g = f_fd f" by (auto simp: midway_def aside_def)
  show ?thesis
  proof (rule winv_collect [OF m(1,2) g sk], assumption, goal_cases)
    case (1 f' t' w')
    then have "lat_ok f'" using m(3) by blast
    moreover have "aside p f0 t0 t'" using mid 1(6) by (auto simp: midway_def)
    ultimately have "midway ok sk s plain epfd p f0 t0 w0 f' t' w'"
      using mid 1(1-3) ok [OF 1(4)] same_counters_fields [OF 1(4)] calm_trans [of w0 w w']
      by (auto simp: midway_def)
    then show ?case by (rule Q) fact
  qed
qed

lemma wp_remember: "wp m (\<lambda>a w'. m = Ret a w' \<longrightarrow> Q a w') \<Longrightarrow> wp m Q"
  by (cases m) auto

section \<open>Counting transfers\<close>

text \<open>
  Without a script, \<open>n\<close> transfers moved at least \<open>lo\<close> and at most \<open>buffer_size\<close> bytes each.
\<close>

definition stream_count :: "int \<Rightarrow> options \<Rightarrow> u64 \<Rightarrow> int \<Rightarrow> bool" where
  "stream_count lo opts tr bytes \<longleftrightarrow> (\<exists>n. tr = of_nat n \<and> lo * int n \<le> bytes \<and> bytes \<le> int n * buffer_size opts)"

definition stream_ok :: "int \<Rightarrow> options \<Rightarrow> bool \<Rightarrow> u32 \<Rightarrow> flow \<Rightarrow> bool" where
  "stream_ok lo opts plain m f \<longleftrightarrow> lat_ok f \<and> 0 \<le> f_id f
     \<and> (plain \<longrightarrow> stream_count lo opts (f_transactions f) (f_bytes_read f))"

definition stream_sample :: "int \<Rightarrow> options \<Rightarrow> bool \<Rightarrow> sample \<Rightarrow> bool" where
  "stream_sample lo opts plain smp \<longleftrightarrow> 0 \<le> s_flow_id smp \<and> (\<exists>lat. s_latency smp = Some lat \<and> numlist_ok lat)
     \<and> (plain \<longrightarrow> stream_count lo opts (s_transactions smp) (s_bytes_read smp))"

definition stream_valid :: "options \<Rightarrow> bool" where
  "stream_valid opts \<longleftrightarrow> request_size opts = 0 \<and> response_size opts = 0 \<and> 0 < buffer_size opts \<and> buffer_size opts < 2 ^ 31"

lemma stream_buffer: "stream_valid opts \<Longrightarrow> uint (buf_size opts) = buffer_size opts"
  by (simp add: stream_valid_def buf_size_def unsigned_of_int take_bit_eq_mod)

lemma stream_count_0: "stream_count lo opts 0 0"
  by (auto simp: stream_count_def intro: exI [of _ 0])

lemma stream_count_Suc:
  assumes "stream_count lo opts tr bytes" "lo \<le> k" "k \<le> buffer_size opts"
  shows "stream_count lo opts (tr + 1) (bytes + k)"
proof -
  from assms(1) obtain n where "tr = of_nat n" "lo * int n \<le> bytes" "bytes \<le> int n * buffer_size opts"
    by (auto simp: stream_count_def)
  then show ?thesis using assms(2,3) by (auto simp: stream_count_def algebra_simps intro!: exI [of _ "Suc n"])
qed

lemma stream_ok_new: "0 \<le> i \<Longrightarrow> stream_ok lo opts plain m (new_flow opts (made_flow fd i))"
  "0 \<le> i \<Longrightarrow> stream_ok lo opts plain m (new_client_flow opts (made_flow fd i))"
  by (simp_all add: stream_ok_def new_flow_def new_client_flow_def lat_ok_def stream_count_0)

lemma stream_ok_same:
  "same_counters f g \<Longrightarrow> lat_ok g \<Longrightarrow> stream_ok lo opts plain m f \<Longrightarrow> stream_ok lo opts plain m g"
  by (drule same_counters_fields) (simp add: stream_ok_def)

lemma stream_sample_of:
  "sample_of tid f now smp \<Longrightarrow> stream_ok lo opts plain m f \<Longrightarrow> stream_sample lo opts plain smp"
  by (auto simp: sample_of_def stream_sample_def stream_ok_def lat_ok_def)

text \<open>One counted transfer, and the collection after it.\<close>

abbreviation counted :: "int \<Rightarrow> flow \<Rightarrow> flow" where
  "counted k f \<equiv> f\<lparr>f_bytes_read := f_bytes_read f + k, f_transactions := f_transactions f + 1\<rparr>"

lemma midway_counted:
  assumes at: "at_event (stream_ok lo opts plain) (stream_sample lo opts plain) s plain epfd p f0 m t0 w0"
    and mid: "midway (stream_ok lo opts plain) (stream_sample lo opts plain) s plain epfd p f0 t0 w0 f t w"
    and k: "lo \<le> k" "plain \<Longrightarrow> k \<le> buffer_size opts"
    and Q: "\<And>f' t' w'. midway (stream_ok lo opts plain) (stream_sample lo opts plain) s plain epfd p f0 t0 w0 f' t' w' \<Longrightarrow>
      Q (f', t') w'"
  shows "wp (interval_collect (counted k f) t w) Q"
proof -
  have "stream_ok lo opts plain m f0" using at by (simp add: at_event_def)
  then have f: "stream_ok lo opts plain m f" "measured s f" "lat_ok f" using mid by (auto simp: midway_def)
  have count: "stream_ok lo opts plain m' (counted k f)" if "stream_ok lo opts plain m' f" for m'
    using that k by (auto simp: stream_ok_def lat_ok_def intro: stream_count_Suc)
  have "midway (stream_ok lo opts plain) (stream_sample lo opts plain) s plain epfd p f0 t0 w0 (counted k f) t w"
    by (rule midway_update [OF mid]) (use f count in \<open>auto simp: lat_ok_def\<close>)
  then show ?thesis
    by (rule midway_collect) (auto intro: stream_ok_same stream_sample_of count [OF f(1)] Q)
qed

end
