(* ===== verification/Stats.thy ===== *)
theory Stats
  imports Streams
begin

text \<open>
  The statistics of a run: the running total over all flows that \<open>workload.c\<close> (streams) and
  \<open>tcp_rr.c\<close> compute from the sorted samples of all threads, and the report of the stream tests.
  The two computations differ in the counter they sum and in its type only, so the loop is one
  definition over any group of counters: \<open>int\<close> for bytes, 64-bit words for transactions.
\<close>

section \<open>The loop over the samples\<close>

record 'v totals =
  tt_current :: "'v" \<comment> \<open>\<open>current_total\<close>\<close>
  tt_flows :: "'v list list" \<comment> \<open>\<open>per_flow\<close>\<close>
  tt_duration :: double
  tt_total :: double
  tt_xy :: double
  tt_xx :: double
  tt_yy :: double

definition max_flow_id :: "sample list \<Rightarrow> int" where
  "max_flow_id samples = fold (\<lambda>s m. if s_flow_id s > m then s_flow_id s else m) samples 0"

definition alloc_flows :: "thread list \<Rightarrow> ('v::ab_group_add) list list" where
  "alloc_flows threads = map (\<lambda>t. replicate (nat (max_flow_id (t_samples t) + 1)) 0) threads"

text \<open>An index outside \<open>per_flow\<close> or outside the array of the thread is \<open>None\<close>.\<close>

definition flow_slot :: "'v list list \<Rightarrow> int \<Rightarrow> int \<Rightarrow> 'v option" where
  "flow_slot flows tid fid =
     (if 0 \<le> tid \<and> nat tid < length flows \<and> 0 \<le> fid \<and> nat fid < length (flows ! nat tid)
      then Some (flows ! nat tid ! nat fid) else None)"

definition set_slot :: "'v list list \<Rightarrow> int \<Rightarrow> int \<Rightarrow> 'v \<Rightarrow> 'v list list" where
  "set_slot flows tid fid v = flows[nat tid := (flows ! nat tid)[nat fid := v]]"

text \<open>
  \<open>slot\<close> is the index of a sample's thread, \<open>val\<close> the counter that is summed, \<open>num\<close> its conversion to
  \<open>double\<close>, \<open>first\<close> the earliest sample.
\<close>

fun accumulate :: "(sample \<Rightarrow> int) \<Rightarrow> (sample \<Rightarrow> 'v::ab_group_add) \<Rightarrow> ('v \<Rightarrow> real) \<Rightarrow> sample \<Rightarrow> sample list \<Rightarrow>
    'v totals \<Rightarrow> 'v totals option" where
  "accumulate slot val num first [] a = Some a"
| "accumulate slot val num first (s # ss) a = (case flow_slot (tt_flows a) (slot s) (s_flow_id s) of
       None \<Rightarrow> None
     | Some old \<Rightarrow>
         let current_total = tt_current a - old + val s;
             duration = seconds_between (s_timestamp first) (s_timestamp s);
             total = Fin (num (current_total - val first))
         in accumulate slot val num first ss
              \<lparr>tt_current = current_total, tt_flows = set_slot (tt_flows a) (slot s) (s_flow_id s) (val s),
               tt_duration = duration, tt_total = total,
               tt_xy = dadd (tt_xy a) (dmul duration total),
               tt_xx = dadd (tt_xx a) (dmul duration duration),
               tt_yy = dadd (tt_yy a) (dmul total total)\<rparr>)"

definition totals_of :: "(sample \<Rightarrow> int) \<Rightarrow> (sample \<Rightarrow> 'v::ab_group_add) \<Rightarrow> ('v \<Rightarrow> real) \<Rightarrow> thread list \<Rightarrow>
    sample \<Rightarrow> sample list \<Rightarrow> 'v totals option" where
  "totals_of slot val num threads first rest =
     (let per_flow = alloc_flows threads; start_total = val first
      in if flow_slot per_flow (slot first) (s_flow_id first) = None then None
         else accumulate slot val num first rest
           \<lparr>tt_current = start_total, tt_flows = set_slot per_flow (slot first) (s_flow_id first) start_total,
            tt_duration = Fin 0, tt_total = Fin 0, tt_xy = Fin 0, tt_xx = Fin 0, tt_yy = Fin 0\<rparr>)"

section \<open>The stream statistics\<close>

record stats =
  st_num_samples :: nat
  st_throughput :: double
  st_correlation :: double
  st_end_time :: timespec

definition collect_samples :: "thread list \<Rightarrow> sample list" where
  "collect_samples threads = qsort compare_samples (concat (map t_samples threads))"

definition stream_slot :: "thread list \<Rightarrow> sample \<Rightarrow> int" where
  "stream_slot threads s = c_mod (s_tid s) (int (length threads))"

text \<open>The statistics and the samples handed back; with no sample both are left empty.\<close>

definition calculate_stream_stats :: "thread list \<Rightarrow> (stats \<times> sample list) option" where
  "calculate_stream_stats threads = (case collect_samples threads of
       [] \<Rightarrow> Some (\<lparr>st_num_samples = 0, st_throughput = Fin 0, st_correlation = Fin 0,
                   st_end_time = Timespec 0 0\<rparr>, [])
     | first # rest \<Rightarrow>
         (case totals_of (stream_slot threads) s_bytes_read of_int threads first rest of
            None \<Rightarrow> None
          | Some a \<Rightarrow>
              let idle = deq (tt_duration a) (Fin 0) \<or> deq (tt_total a) (Fin 0)
              in Some (\<lparr>st_num_samples = length (first # rest),
                        st_throughput = (if idle then Fin 0 else ddiv (tt_total a) (tt_duration a)),
                        st_correlation = (if idle then Fin 0
                          else ddiv (tt_xy a) (dsqrt (dmul (tt_xx a) (tt_yy a)))),
                        st_end_time = s_timestamp (last (first # rest))\<rparr>, first # rest)))"

fun calculate_stream_stats_per_thread :: "thread list \<Rightarrow> stats list option" where
  "calculate_stream_stats_per_thread [] = Some []"
| "calculate_stream_stats_per_thread (t # ts) = (case calculate_stream_stats [t] of
       None \<Rightarrow> None
     | Some (st, _) \<Rightarrow> map_option ((#) st) (calculate_stream_stats_per_thread ts))"

section \<open>The stream report\<close>

definition megabits :: "double \<Rightarrow> double" where
  "megabits throughput = ddiv (dmul throughput (Fin 8)) (Fin 1000000)"

fun print_throughput_per_thread :: "nat \<Rightarrow> stats list \<Rightarrow> world \<Rightarrow> world" where
  "print_throughput_per_thread i [] w = w"
| "print_throughput_per_thread i (st # sts) w = print_throughput_per_thread (i + 1) sts
     (PRINT (''throughput_Mbps['' @ show_decimal i @ '']'') (PDbl (megabits (st_throughput st))) w)"

definition print_stream_stats :: "stats \<Rightarrow> stats list \<Rightarrow> world \<Rightarrow> world" where
  "print_stream_stats st per_thread w =
     (if st_num_samples st = 0 then LOG_WARN ''no samples collected'' w
      else let w = (if st_num_samples st = 1 then LOG_WARN ''insufficient number of samples'' w else w);
               w = PRINT ''num_samples'' (PInt (int (st_num_samples st))) w;
               w = PRINT ''throughput_Mbps'' (PDbl (megabits (st_throughput st))) w;
               w = print_throughput_per_thread 0 per_thread w;
               w = PRINT ''correlation_coefficient'' (PDbl (st_correlation st)) w
           in PRINT ''time_end'' (PTime (st_end_time st)) w)"

definition report_stream_stats :: "options \<Rightarrow> thread list \<Rightarrow> world \<Rightarrow> unit outcome" where
  "report_stream_stats opts threads w = (if threads = [] then Fault w
     else case calculate_stream_stats threads of
       None \<Rightarrow> Fault w
     | Some (st, samples) \<Rightarrow>
         (case calculate_stream_stats_per_thread threads of
            None \<Rightarrow> Fault w
          | Some per_thread \<Rightarrow>
              let w = print_stream_stats st per_thread w
              in case all_samples opts of
                   None \<Rightarrow> Ret () w
                 | Some file \<Rightarrow> obind (print_samples None samples file w) (\<lambda>_ w. Ret () w)))"

section \<open>The reference: the latest counter of every flow\<close>

text \<open>
  What the loop is meant to compute: after any prefix of the sorted samples, the sum over the flows
  seen so far of the counter in the latest sample of each.
\<close>

definition latest :: "(sample \<Rightarrow> int) \<Rightarrow> (sample \<Rightarrow> 'v::ab_group_add) \<Rightarrow> sample list \<Rightarrow> int \<times> int \<Rightarrow> 'v" where
  "latest slot val ss k =
     (let of_flow = filter (\<lambda>s. (slot s, s_flow_id s) = k) ss in if of_flow = [] then 0 else val (last of_flow))"

definition flows_total :: "(sample \<Rightarrow> int) \<Rightarrow> (sample \<Rightarrow> 'v::ab_group_add) \<Rightarrow> sample list \<Rightarrow> 'v" where
  "flows_total slot val ss = (\<Sum>k\<in>(\<lambda>s. (slot s, s_flow_id s)) ` set ss. latest slot val ss k)"

text \<open>The points the throughput and the correlation are computed from: time and total since the first sample.\<close>

definition points :: "(sample \<Rightarrow> int) \<Rightarrow> (sample \<Rightarrow> 'v::ab_group_add) \<Rightarrow> ('v \<Rightarrow> real) \<Rightarrow> sample list \<Rightarrow> (real \<times> real) list" where
  "points slot val num ss = map (\<lambda>i. (timespec_real (s_timestamp (hd ss)) (s_timestamp (ss ! i)),
     num (flows_total slot val (take (Suc i) ss) - val (hd ss)))) [1..<length ss]"

lemma latest_snoc: "latest slot val (ss @ [s]) = (latest slot val ss)((slot s, s_flow_id s) := val s)"
  by (auto simp: latest_def Let_def)

lemma latest_unseen: "k \<notin> (\<lambda>s. (slot s, s_flow_id s)) ` set ss \<Longrightarrow> latest slot val ss k = 0"
  by (auto simp: latest_def Let_def filter_empty_conv)

lemma flows_total_snoc:
  "flows_total slot val (ss @ [s]) = flows_total slot val ss - latest slot val ss (slot s, s_flow_id s) + val s"
proof -
  let ?K = "(\<lambda>s. (slot s, s_flow_id s)) ` set ss" and ?k = "(slot s, s_flow_id s)"
  have upd: "(\<Sum>k\<in>?K - {?k}. ((latest slot val ss)(?k := val s)) k) = (\<Sum>k\<in>?K - {?k}. latest slot val ss k)"
    by (rule sum.cong) auto
  have "flows_total slot val (ss @ [s]) = val s + (\<Sum>k\<in>?K - {?k}. latest slot val ss k)"
    by (simp add: flows_total_def latest_snoc sum.insert_remove upd)
  moreover have "(\<Sum>k\<in>?K. latest slot val ss k) = latest slot val ss ?k + (\<Sum>k\<in>?K - {?k}. latest slot val ss k)"
    by (cases "?k \<in> ?K") (simp_all add: sum.remove latest_unseen)
  ultimately show ?thesis by (simp add: flows_total_def)
qed

lemma flows_total_single [simp]: "flows_total slot val [s] = val s"
  by (simp add: flows_total_def latest_def)

lemma points_snoc:
  "ss \<noteq> [] \<Longrightarrow> points slot val num (ss @ [s]) = points slot val num ss
     @ [(timespec_real (s_timestamp (hd ss)) (s_timestamp s), num (flows_total slot val (ss @ [s]) - val (hd ss)))]"
  by (auto simp: points_def nth_append Suc_le_eq upt_Suc_append)

lemma points_single [simp]: "points slot val num [s] = []"
  by (simp add: points_def)

section \<open>The loop computes the reference\<close>

lemma flow_slot_set:
  "flow_slot flows tid fid \<noteq> None \<Longrightarrow>
   flow_slot (set_slot flows tid fid v) t f = (if t = tid \<and> f = fid then Some v else flow_slot flows t f)"
proof (cases "0 \<le> t \<and> 0 \<le> f")
  case True
  assume "flow_slot flows tid fid \<noteq> None"
  then obtain i j where ij: "tid = int i" "fid = int j" "i < length flows" "j < length (flows ! i)"
    by (metis flow_slot_def zero_le_imp_eq_int nat_int)
  from True obtain n m where "t = int n" "f = int m" by (metis zero_le_imp_eq_int)
  with ij show ?thesis by (cases "i = n") (auto simp: flow_slot_def set_slot_def nth_list_update)
qed (auto simp: flow_slot_def)

definition accumulated :: "(sample \<Rightarrow> int) \<Rightarrow> (sample \<Rightarrow> 'v::ab_group_add) \<Rightarrow> ('v \<Rightarrow> real) \<Rightarrow> (int \<Rightarrow> int \<Rightarrow> bool) \<Rightarrow>
    sample list \<Rightarrow> 'v totals \<Rightarrow> bool" where
  "accumulated slot val num rng ss a \<longleftrightarrow>
     tt_current a = flows_total slot val ss
     \<and> (\<forall>t f. flow_slot (tt_flows a) t f = (if rng t f then Some (latest slot val ss (t, f)) else None))
     \<and> (let ps = points slot val num ss in
          tt_xy a = Fin (\<Sum>(d, b)\<leftarrow>ps. d * b) \<and> tt_xx a = Fin (\<Sum>(d, b)\<leftarrow>ps. d * d) \<and> tt_yy a = Fin (\<Sum>(d, b)\<leftarrow>ps. b * b)
          \<and> (ps \<noteq> [] \<longrightarrow> tt_duration a = Fin (fst (last ps)) \<and> tt_total a = Fin (snd (last ps))))"

lemma accumulate_spec:
  assumes "accumulated slot val num rng ps a" "ps \<noteq> []" "\<forall>s\<in>set ss. rng (slot s) (s_flow_id s)"
  shows "\<exists>a'. accumulate slot val num (hd ps) ss a = Some a' \<and> accumulated slot val num rng (ps @ ss) a'"
  using assms
proof (induction ss arbitrary: ps a)
  case (Cons s ss)
  let ?a = "\<lparr>tt_current = flows_total slot val (ps @ [s]),
    tt_flows = set_slot (tt_flows a) (slot s) (s_flow_id s) (val s),
    tt_duration = seconds_between (s_timestamp (hd ps)) (s_timestamp s),
    tt_total = Fin (num (flows_total slot val (ps @ [s]) - val (hd ps))),
    tt_xy = dadd (tt_xy a) (dmul (seconds_between (s_timestamp (hd ps)) (s_timestamp s))
      (Fin (num (flows_total slot val (ps @ [s]) - val (hd ps))))),
    tt_xx = dadd (tt_xx a) (dmul (seconds_between (s_timestamp (hd ps)) (s_timestamp s))
      (seconds_between (s_timestamp (hd ps)) (s_timestamp s))),
    tt_yy = dadd (tt_yy a) (dmul (Fin (num (flows_total slot val (ps @ [s]) - val (hd ps))))
      (Fin (num (flows_total slot val (ps @ [s]) - val (hd ps)))))\<rparr>"
  from Cons.prems have old: "flow_slot (tt_flows a) (slot s) (s_flow_id s) = Some (latest slot val ps (slot s, s_flow_id s))"
    by (simp add: accumulated_def)
  have step: "accumulate slot val num (hd ps) (s # ss) a = accumulate slot val num (hd (ps @ [s])) ss ?a"
    using old Cons.prems(1,2) by (simp add: flows_total_snoc accumulated_def Let_def)
  have "accumulated slot val num rng (ps @ [s]) ?a"
    using Cons.prems
    by (auto simp: accumulated_def Let_def flow_slot_set points_snoc latest_snoc seconds_between_def)
  from Cons.IH [OF this] Cons.prems(3) show ?case unfolding step by simp
qed simp

lemma totals_of_spec:
  assumes "\<forall>s\<in>set (first # rest). flow_slot (alloc_flows threads :: 'v::ab_group_add list list) (slot s) (s_flow_id s) \<noteq> None"
  shows "\<exists>a rng. totals_of slot (val :: sample \<Rightarrow> 'v) num threads first rest = Some a
    \<and> accumulated slot val num rng (first # rest) a"
proof -
  let ?rng = "\<lambda>t f. flow_slot (alloc_flows threads :: 'v list list) t f \<noteq> None"
  let ?a = "\<lparr>tt_current = val first,
    tt_flows = set_slot (alloc_flows threads) (slot first) (s_flow_id first) (val first),
    tt_duration = Fin 0, tt_total = Fin 0, tt_xy = Fin 0, tt_xx = Fin 0, tt_yy = Fin 0\<rparr>"
  have zero: "flow_slot (alloc_flows threads :: 'v list list) t f \<in> {None, Some 0}" for t f
    by (auto simp: flow_slot_def alloc_flows_def)
  have first: "flow_slot (alloc_flows threads :: 'v list list) (slot first) (s_flow_id first) \<noteq> None"
    using assms by simp
  have slots: "flow_slot (set_slot (alloc_flows threads) (slot first) (s_flow_id first) (val first)) t f
      = (if ?rng t f then Some (latest slot val [first] (t, f)) else None)" for t f
    using zero [of t f] first by (auto simp: flow_slot_set [OF first] latest_def)
  have "accumulated slot val num ?rng [first] ?a"
    by (simp add: accumulated_def slots)
  from accumulate_spec [OF this, of rest] assms show ?thesis
    by (auto simp: totals_of_def)
qed

section \<open>Samples labelled with their thread\<close>

text \<open>Every sample sits in the chain of the thread its slot names, with a flow id from 0 on.\<close>

definition labelled :: "(sample \<Rightarrow> int) \<Rightarrow> thread list \<Rightarrow> bool" where
  "labelled slot threads \<longleftrightarrow> (\<forall>i<length threads. \<forall>s\<in>set (t_samples (threads ! i)). slot s = int i \<and> 0 \<le> s_flow_id s)"

lemma max_flow_id_ge: "s \<in> set ss \<Longrightarrow> s_flow_id s \<le> max_flow_id ss"
proof -
  have "m \<le> fold (\<lambda>s m. if s_flow_id s > m then s_flow_id s else m) ss m
    \<and> (\<forall>s\<in>set ss. s_flow_id s \<le> fold (\<lambda>s m. if s_flow_id s > m then s_flow_id s else m) ss m)" for m
  proof (induction ss arbitrary: m)
    case (Cons s ss)
    from Cons [of "if s_flow_id s > m then s_flow_id s else m"] show ?case by (auto split: if_splits)
  qed simp
  then show "s \<in> set ss \<Longrightarrow> s_flow_id s \<le> max_flow_id ss" by (simp add: max_flow_id_def)
qed

lemma set_collect_samples: "set (collect_samples threads) = (\<Union>t\<in>set threads. set (t_samples t))"
  by (simp add: collect_samples_def)

lemma labelled_slot:
  assumes "labelled slot threads" "s \<in> set (collect_samples threads)"
  shows "flow_slot (alloc_flows threads :: 'v::ab_group_add list list) (slot s) (s_flow_id s) \<noteq> None"
proof -
  from assms(2) obtain i where i: "i < length threads" "s \<in> set (t_samples (threads ! i))"
    by (auto simp: set_collect_samples in_set_conv_nth [of _ threads])
  with assms(1) have "slot s = int i" "0 \<le> s_flow_id s" by (auto simp: labelled_def)
  with i max_flow_id_ge [OF i(2)] show ?thesis
    by (auto simp: flow_slot_def alloc_flows_def nat_less_iff)
qed

lemma totals_of_collected:
  assumes "labelled slot threads" "collect_samples threads = first # rest"
  shows "\<exists>a rng. totals_of slot (val :: sample \<Rightarrow> 'v::ab_group_add) num threads first rest = Some a
    \<and> accumulated slot val num rng (first # rest) a"
  by (rule totals_of_spec) (use labelled_slot [OF assms(1)] assms(2) in auto)

lemma last_point:
  assumes "rest \<noteq> []"
  shows "points slot val num (first # rest) \<noteq> []"
    "last (points slot val num (first # rest)) = (timespec_real (s_timestamp first) (s_timestamp (last rest)),
      num (flows_total slot val (first # rest) - val first))"
  using points_snoc [of "first # butlast rest" slot val num "last rest"] assms by simp_all

section \<open>The correlation is defined\<close>

lemma square_sum_pos:
  fixes ps :: "(real \<times> real) list"
  assumes "(d, b) \<in> set ps"
  shows "d \<noteq> 0 \<Longrightarrow> 0 < (\<Sum>(d, b)\<leftarrow>ps. d * d)" "b \<noteq> 0 \<Longrightarrow> 0 < (\<Sum>(d, b)\<leftarrow>ps. b * b)"
proof -
  have le: "f p \<le> sum_list (map f ps)" if "p \<in> set ps" "\<And>p. 0 \<le> f p" for f :: "real \<times> real \<Rightarrow> real" and p
    by (rule member_le_sum_list) (use that in auto)
  have sq: "0 < x * x" if "x \<noteq> 0" for x :: real
    using that not_real_square_gt_zero [of x] by blast
  show "0 < (\<Sum>(d, b)\<leftarrow>ps. d * d)" if "d \<noteq> 0"
    by (rule less_le_trans [OF sq [OF that] order_trans [OF _ le [OF assms, of "\<lambda>(d, b). d * d"]]]) auto
  show "0 < (\<Sum>(d, b)\<leftarrow>ps. b * b)" if "b \<noteq> 0"
    by (rule less_le_trans [OF sq [OF that] order_trans [OF _ le [OF assms, of "\<lambda>(d, b). b * b"]]]) auto
qed

lemma correlation_defined:
  fixes ps :: "(real \<times> real) list"
  assumes "(d, b) \<in> set ps" "d \<noteq> 0" "b \<noteq> 0"
  shows "0 < (\<Sum>(d, b)\<leftarrow>ps. d * d) * (\<Sum>(d, b)\<leftarrow>ps. b * b)"
  using square_sum_pos [OF assms(1)] assms(2,3) by simp

section \<open>Properties of the statistics\<close>

lemma stream_stats_cases:
  assumes "labelled (stream_slot threads) threads" "collect_samples threads = first # rest"
  obtains a rng st where "calculate_stream_stats threads = Some (st, first # rest)"
    "accumulated (stream_slot threads) s_bytes_read of_int rng (first # rest) a"
    "st_num_samples st = length (first # rest)" "st_end_time st = s_timestamp (last (first # rest))"
    "st_throughput st = (if deq (tt_duration a) (Fin 0) \<or> deq (tt_total a) (Fin 0) then Fin 0 else ddiv (tt_total a) (tt_duration a))"
    "st_correlation st = (if deq (tt_duration a) (Fin 0) \<or> deq (tt_total a) (Fin 0) then Fin 0
       else ddiv (tt_xy a) (dsqrt (dmul (tt_xx a) (tt_yy a))))"
    "rest = [] \<longrightarrow> tt_duration a = Fin 0"
proof -
  obtain a rng where a: "totals_of (stream_slot threads) s_bytes_read of_int threads first rest = Some a"
    "accumulated (stream_slot threads) s_bytes_read of_int rng (first # rest) a"
    using totals_of_collected [OF assms] by blast
  have "rest = [] \<longrightarrow> tt_duration a = Fin 0"
    using a(1) by (auto simp: totals_of_def Let_def split: if_splits)
  with a show ?thesis by (intro that) (auto simp: calculate_stream_stats_def assms(2) Let_def)
qed

text \<open>
  C19: The statistics of a stream test are those of the reference: with \<open>D\<close> the time from the first to
  the last sample and \<open>B\<close> the sum over all flows of the bytes in the flow's latest sample, less the
  bytes of the first sample of all, the throughput is \<open>B / D\<close> (0 when either is 0). The running
  update of the total, one flow at a time, never leaves its arrays and never drifts from that sum.
\<close>

theorem stream_stats_reference:
  assumes "labelled (stream_slot threads) threads" "collect_samples threads = first # rest"
  shows "\<exists>st. calculate_stream_stats threads = Some (st, first # rest)
    \<and> st_num_samples st = length (concat (map t_samples threads))
    \<and> st_end_time st = s_timestamp (last (first # rest))
    \<and> (let D = timespec_real (s_timestamp first) (s_timestamp (last (first # rest)));
           B = flows_total (stream_slot threads) s_bytes_read (first # rest) - s_bytes_read first
       in st_throughput st = Fin (if D = 0 \<or> B = 0 then 0 else of_int B / D))"
proof -
  obtain a rng st where st: "calculate_stream_stats threads = Some (st, first # rest)"
    "accumulated (stream_slot threads) s_bytes_read of_int rng (first # rest) a"
    "st_num_samples st = length (first # rest)" "st_end_time st = s_timestamp (last (first # rest))"
    "st_throughput st = (if deq (tt_duration a) (Fin 0) \<or> deq (tt_total a) (Fin 0) then Fin 0 else ddiv (tt_total a) (tt_duration a))"
    "st_correlation st = (if deq (tt_duration a) (Fin 0) \<or> deq (tt_total a) (Fin 0) then Fin 0
       else ddiv (tt_xy a) (dsqrt (dmul (tt_xx a) (tt_yy a))))"
    "rest = [] \<longrightarrow> tt_duration a = Fin 0"
    by (rule stream_stats_cases [OF assms])
  have len: "length (first # rest) = length (concat (map t_samples threads))"
    using arg_cong [OF assms(2), of length] by (simp add: collect_samples_def)
  show ?thesis
  proof (cases "rest = []")
    case True
    with st len show ?thesis by (auto simp: deq_def timespec_real_def)
  next
    case False
    with st(2) last_point [OF False, of "stream_slot threads" s_bytes_read of_int first] st(1,3,4,5) len show ?thesis
      by (auto simp: accumulated_def Let_def deq_def)
  qed
qed

text \<open>
  C28: The correlation coefficient of a stream report is that of the reference: over the points after the first
  sample (time since the first sample, and bytes of all flows since then as the latest samples tell), the sum of the
  products over the root of the product of the sums of squares, in exact arithmetic; it is 0 when nothing was sent
  or no time passed, and the division never divides by zero.
\<close>

theorem stream_correlation_reference:
  assumes "labelled (stream_slot threads) threads" "collect_samples threads = first # rest"
  shows "\<exists>st. calculate_stream_stats threads = Some (st, first # rest)
    \<and> (let ps = points (stream_slot threads) s_bytes_read of_int (first # rest);
           xy = (\<Sum>(d, b)\<leftarrow>ps. d * b); xx = (\<Sum>(d, b)\<leftarrow>ps. d * d); yy = (\<Sum>(d, b)\<leftarrow>ps. b * b)
       in if ps = [] \<or> fst (last ps) = 0 \<or> snd (last ps) = 0 then st_correlation st = Fin 0
          else st_correlation st = Fin (xy / sqrt (xx * yy)) \<and> 0 < xx * yy)"
proof -
  let ?ps = "points (stream_slot threads) s_bytes_read of_int (first # rest)"
  obtain a rng st where st: "calculate_stream_stats threads = Some (st, first # rest)"
    "accumulated (stream_slot threads) s_bytes_read of_int rng (first # rest) a"
    "st_num_samples st = length (first # rest)" "st_end_time st = s_timestamp (last (first # rest))"
    "st_throughput st = (if deq (tt_duration a) (Fin 0) \<or> deq (tt_total a) (Fin 0) then Fin 0 else ddiv (tt_total a) (tt_duration a))"
    "st_correlation st = (if deq (tt_duration a) (Fin 0) \<or> deq (tt_total a) (Fin 0) then Fin 0
       else ddiv (tt_xy a) (dsqrt (dmul (tt_xx a) (tt_yy a))))"
    "rest = [] \<longrightarrow> tt_duration a = Fin 0"
    by (rule stream_stats_cases [OF assms])
  show ?thesis
  proof (cases "rest = []")
    case True
    with st show ?thesis by (auto simp: deq_def)
  next
    case False
    have ne: "?ps \<noteq> []" by (rule last_point(1) [OF False])
    with st(2) have idle: "deq (tt_duration a) (Fin 0) \<or> deq (tt_total a) (Fin 0) \<longleftrightarrow> fst (last ?ps) = 0 \<or> snd (last ?ps) = 0"
      by (auto simp: accumulated_def Let_def deq_def)
    show ?thesis
    proof (cases "fst (last ?ps) = 0 \<or> snd (last ?ps) = 0")
      case True
      with st(1,6) idle show ?thesis by auto
    next
      case nonzero: False
      with last_in_set [OF ne] correlation_defined [of "fst (last ?ps)" "snd (last ?ps)" ?ps]
      have pos: "0 < (\<Sum>(d, b)\<leftarrow>?ps. d * d) * (\<Sum>(d, b)\<leftarrow>?ps. b * b)" by simp
      have "st_correlation st = Fin ((\<Sum>(d, b)\<leftarrow>?ps. d * b) / sqrt ((\<Sum>(d, b)\<leftarrow>?ps. d * d) * (\<Sum>(d, b)\<leftarrow>?ps. b * b)))"
        using st(2,6) idle nonzero less_imp_neq [OF pos] pos by (simp add: accumulated_def Let_def)
      with pos nonzero ne st(1) show ?thesis by (simp add: Let_def)
    qed
  qed
qed

section \<open>The report never fails\<close>

lemma numlist_percentile_total:
  assumes "i \<le> 100"
  shows "\<exists>v. numlist_percentile lst (int i) = Some v"
proof (cases "numlist_size lst = 0")
  case False
  let ?n = "numlist_size lst"
  have "int i mod 2 ^ 64 = int i" using assms by simp
  then have "percentile_index ?n (int i) = ((?n - 1) * i) mod 2 ^ 64 div 100"
    by (simp add: percentile_index_def)
  also have "\<dots> \<le> (?n - 1) * i div 100" by (intro div_le_mono mod_less_eq_dividend)
  also have "\<dots> < ?n" using percentile_index_less [of "int i" ?n] assms False by simp
  finally show ?thesis using False by (simp add: numlist_percentile_def Let_def numlist_size_eq)
qed (simp add: numlist_percentile_def)

lemma percentile_cells_total: "\<forall>i\<in>set is. i \<le> 100 \<Longrightarrow> \<exists>cells. percentile_cells lst p is = Some cells"
proof (induction "is")
  case (Cons i "is")
  with numlist_percentile_total [of i lst] show ?case by fastforce
qed simp

lemma print_rows_total: "\<forall>smp\<in>set samples. s_latency smp \<noteq> None \<Longrightarrow> \<exists>rows. print_rows pcts samples = Some rows"
proof (induction samples)
  case (Cons smp samples)
  then obtain lst rows where "s_latency smp = Some lst" "print_rows pcts samples = Some rows" by auto
  with percentile_cells_total [of "[0..<101]" lst] show ?case
    by (fastforce simp: print_sample_row_def split: option.split)
qed simp

lemma print_samples_wp:
  assumes "\<forall>smp\<in>set samples. s_latency smp \<noteq> None" "\<And>r w'. quiet w w' \<Longrightarrow> Q r w'"
  shows "wp (print_samples pcts samples file w) Q"
proof -
  obtain rows where "print_rows pcts samples = Some rows" using print_rows_total [OF assms(1)] by blast
  then have "quietly w (print_samples pcts samples file w)"
    by (auto simp: print_samples_def Let_def intro!: quiet_intros)
  then show ?thesis by (rule quietly_wp) (rule assms(2))
qed

text \<open>What the workers leave: each sample carries the index of its thread, a flow id and a latency list.\<close>

definition worker_samples :: "thread list \<Rightarrow> bool" where
  "worker_samples threads \<longleftrightarrow> (\<forall>i<length threads. \<forall>s\<in>set (t_samples (threads ! i)).
     s_tid s = int i \<and> 0 \<le> s_flow_id s \<and> s_latency s \<noteq> None)"

lemma worker_samples_labelled:
  assumes "worker_samples threads"
  shows "labelled (stream_slot threads) threads" "t \<in> set threads \<Longrightarrow> labelled (stream_slot [t]) [t]"
  using assms by (auto simp: worker_samples_def labelled_def stream_slot_def in_set_conv_nth [of t])

lemma calculate_total:
  "labelled (stream_slot threads) threads \<Longrightarrow> \<exists>st. calculate_stream_stats threads = Some (st, collect_samples threads)
    \<and> st_num_samples st = length (collect_samples threads)"
  by (cases "collect_samples threads") (auto simp: calculate_stream_stats_def elim: stream_stats_cases)

lemma calculate_per_thread_total:
  "\<forall>t\<in>set threads. labelled (stream_slot [t]) [t] \<Longrightarrow>
   \<exists>sts. calculate_stream_stats_per_thread threads = Some sts \<and> length sts = length threads"
proof (induction threads)
  case (Cons t ts)
  with calculate_total [of "[t]"] show ?case by auto
qed simp

lemma print_throughput_out:
  "w_out (print_throughput_per_thread i sts w) = w_out w @ map (\<lambda>(j, st). (''throughput_Mbps['' @ show_decimal j @ '']'',
     PDbl (megabits (st_throughput st)))) (zip [i..<i + length sts] sts)"
  by (induction sts arbitrary: i w) (auto simp: upt_conv_Cons simp del: upt_Suc)

lemma throughput_keys:
  "map fst (map (\<lambda>(j, st). (f j, g st)) (zip [0..<length sts] sts)) = map f [0..<length sts]"
  by (rule nth_equalityI) auto

lemma report_stream_stats_wp:
  assumes "threads \<noteq> []" "worker_samples threads"
  shows "wp (report_stream_stats opts threads w) (\<lambda>_ w'. map fst (w_out w') = map fst (w_out w)
    @ (if collect_samples threads = [] then [] else [''num_samples'', ''throughput_Mbps'']
       @ map (\<lambda>i. ''throughput_Mbps['' @ show_decimal i @ '']'') [0..<length threads]
       @ [''correlation_coefficient'', ''time_end'']))"
proof -
  obtain st where st: "calculate_stream_stats threads = Some (st, collect_samples threads)"
    "st_num_samples st = length (collect_samples threads)"
    using calculate_total worker_samples_labelled(1) [OF assms(2)] by blast
  obtain sts where sts: "calculate_stream_stats_per_thread threads = Some sts" "length sts = length threads"
    using calculate_per_thread_total worker_samples_labelled(2) [OF assms(2)] by blast
  have lat: "\<forall>smp\<in>set (collect_samples threads). s_latency smp \<noteq> None"
    using assms(2) by (auto simp: set_collect_samples worker_samples_def in_set_conv_nth [of _ threads])
  have keys: "map fst (w_out (print_stream_stats st sts w)) = map fst (w_out w)
    @ (if collect_samples threads = [] then [] else [''num_samples'', ''throughput_Mbps'']
       @ map (\<lambda>i. ''throughput_Mbps['' @ show_decimal i @ '']'') [0..<length threads]
       @ [''correlation_coefficient'', ''time_end''])"
    using throughput_keys [of "\<lambda>i. ''throughput_Mbps['' @ show_decimal i @ '']''" "\<lambda>st. PDbl (megabits (st_throughput st))" sts]
    by (simp add: print_stream_stats_def Let_def print_throughput_out st(2) sts(2))
  show ?thesis
    using assms(1) keys lat
    by (auto simp: report_stream_stats_def st(1) sts(1) Let_def quiet_def split: option.split intro!: print_samples_wp)
qed

text \<open>
  C29: The report of a stream test over whatever samples its workers left (none at all, or one) never
  reads outside an array and prints its lines in the same order, one throughput line per thread;
  without samples it prints nothing.
\<close>

theorem stream_report_lines:
  assumes "threads \<noteq> []" "worker_samples threads"
  shows "wp (report_stream_stats opts threads w) (\<lambda>_ w'. map fst (w_out w') = map fst (w_out w)
    @ (if collect_samples threads = [] then [] else [''num_samples'', ''throughput_Mbps'']
       @ map (\<lambda>i. ''throughput_Mbps['' @ show_decimal i @ '']'') [0..<length threads]
       @ [''correlation_coefficient'', ''time_end'']))"
  using assms by (rule report_stream_stats_wp)

section \<open>A concrete run\<close>

text \<open>Two threads with two samples each, a second apart.\<close>

definition two_threads :: "thread list" where
  "two_threads = map (\<lambda>i. thread0\<lparr>t_index := i, t_samples :=
     [(example_sample numlist_create (Timespec 2 0))\<lparr>s_tid := i, s_bytes_read := 100\<rparr>,
      (example_sample numlist_create (Timespec 1 0))\<lparr>s_tid := i, s_bytes_read := 40\<rparr>]\<rparr>) [0, 1]"

lemma two_threads_ok: "worker_samples two_threads" "labelled (stream_slot two_threads) two_threads" "two_threads \<noteq> []"
proof -
  show "worker_samples two_threads"
    by (auto simp: worker_samples_def two_threads_def example_sample_def less_Suc_eq)
  then show "labelled (stream_slot two_threads) two_threads" by (rule worker_samples_labelled)
qed (simp add: two_threads_def)

definition four_samples :: "sample list" where
  "four_samples = map (\<lambda>(i, b, ts). (example_sample numlist_create (Timespec ts 0))\<lparr>s_tid := i, s_bytes_read := b\<rparr>)
     [(0, 40, 1), (1, 40, 1), (0, 100, 2), (1, 100, 2)]"

lemma two_threads_collected: "collect_samples two_threads = four_samples"
  by (simp add: collect_samples_def two_threads_def qsort_def compare_samples_def example_sample_def four_samples_def)

lemma four_samples_total: "flows_total (stream_slot two_threads) s_bytes_read four_samples = 200"
proof -
  have "stream_slot two_threads s = s_tid s" if "s_tid s \<in> {0, 1}" for s
    using that by (auto simp: stream_slot_def two_threads_def)
  moreover have "{(0, 0), (1, 0), (0, 0), (1, 0)} = {(0, 0), (1 :: int, 0 :: int)}" by auto
  ultimately show ?thesis by (simp add: four_samples_def example_sample_def flows_total_def latest_def)
qed

theorem stream_stats_reference_witness:
  "\<exists>st. calculate_stream_stats two_threads = Some (st, four_samples) \<and> st_num_samples st = 4 \<and> st_throughput st = Fin 160"
proof -
  have "collect_samples two_threads = hd four_samples # tl four_samples"
    by (simp add: two_threads_collected four_samples_def)
  from stream_stats_reference [OF two_threads_ok(2) this] obtain st where
    "calculate_stream_stats two_threads = Some (st, four_samples)"
    "st_num_samples st = length (concat (map t_samples two_threads))"
    "let D = timespec_real (s_timestamp (hd four_samples)) (s_timestamp (last four_samples));
         B = flows_total (stream_slot two_threads) s_bytes_read four_samples - s_bytes_read (hd four_samples)
     in st_throughput st = Fin (if D = 0 \<or> B = 0 then 0 else of_int B / D)"
    by (auto simp: four_samples_def)
  moreover have "timespec_real (s_timestamp (hd four_samples)) (s_timestamp (last four_samples)) = 1"
    "s_bytes_read (hd four_samples) = 40" "length (concat (map t_samples two_threads)) = 4"
    by (simp_all add: four_samples_def example_sample_def timespec_real_def two_threads_def)
  ultimately show ?thesis by (simp add: four_samples_total Let_def)
qed

theorem stream_correlation_reference_witness:
  "\<exists>st c. calculate_stream_stats two_threads = Some (st, four_samples) \<and> st_correlation st = Fin c"
proof -
  have "collect_samples two_threads = hd four_samples # tl four_samples"
    by (simp add: two_threads_collected four_samples_def)
  from stream_correlation_reference [OF two_threads_ok(2) this] show ?thesis
    by (auto simp: four_samples_def Let_def split: if_splits)
qed

theorem stream_report_lines_witness:
  "wp (report_stream_stats options0 two_threads (world0 [])) (\<lambda>_ w'. map fst (w_out w') =
     [''num_samples'', ''throughput_Mbps'', ''throughput_Mbps[0]'', ''throughput_Mbps[1]'',
      ''correlation_coefficient'', ''time_end''])"
proof -
  have "length two_threads = 2" "collect_samples two_threads \<noteq> []"
    by (simp add: two_threads_def) (simp add: two_threads_collected four_samples_def)
  moreover have "show_decimal 0 = ''0''" "show_decimal 1 = ''1''" by code_simp+
  ultimately show ?thesis
    using stream_report_lines [OF two_threads_ok(3,1), of options0 "world0 []"]
    by (simp add: upt_rec)
qed

end
