(* ===== verification/TcpRR.thy ===== *)
theory TcpRR
  imports Workload
begin

text \<open>
  \<open>tcp_rr.c\<close>, the worker side: the request/response state machine of a client and of a server, one
  event at a time, and the thread function. Its statistics are in the theory of the reports.
\<close>

section \<open>Tracking latency\<close>

definition track_write_time :: "options \<Rightarrow> flow \<Rightarrow> world \<Rightarrow> flow outcome" where
  "track_write_time opts f w =
     (if f_bytes_to_write f = request_size opts
      then obind (sys CClockGettime w) (\<lambda>r w. Ret (f\<lparr>f_write_time := r_time r\<rparr>) w)
      else Ret f w)"

definition track_finish_time :: "flow \<Rightarrow> world \<Rightarrow> flow outcome" where
  "track_finish_time f w =
     obind (sys CClockGettime w) (\<lambda>r w.
       case f_latency f of
         None \<Rightarrow> Fault w
       | Some lat \<Rightarrow>
           (case numlist_add lat (seconds_between (f_write_time f) (r_time r)) of
              None \<Rightarrow> Fault w
            | Some lat \<Rightarrow> Ret (f\<lparr>f_latency := Some lat\<rparr>) w))"

section \<open>The client\<close>

definition client_event :: event_step where
  "client_event opts epfd fd_listen buf_len f e t w =
     (let p = ev_ptr e; ss = t_script t in
      if has_event (ev_events e) EPOLLRDHUP then delflow epfd p t w
      else if has_event (ev_events e) EPOLLOUT
      then let to_write = f_bytes_to_write f;
               flags = (if buffer_size opts < to_write then MSG_MORE else 0);
               to_write = (if buffer_size opts < to_write then buffer_size opts else to_write)
           in obind (track_write_time opts f w) (\<lambda>f w.
              obind (do_write ss (f_fd f) buf_len to_write flags w) (\<lambda>(ss, num_bytes) w.
                let t = t\<lparr>t_script := ss\<rparr> in
                if num_bytes = -1 then Ret (put_flow p f t) (LOG_ERROR ''write'' w)
                else let f = f\<lparr>f_bytes_to_write := f_bytes_to_write f - num_bytes\<rparr> in
                  if 0 < f_bytes_to_write f then Ret (put_flow p f t) w
                  else obind (epoll_ctl_or_die epfd EPOLL_CTL_MOD (f_fd f)
                               \<lparr>ev_events = EPOLLRDHUP OR EPOLLIN, ev_ptr = p\<rparr> w) (\<lambda>_ w.
                         Ret (put_flow p (f\<lparr>f_bytes_to_read := response_size opts\<rparr>) t) w)))
      else if has_event (ev_events e) EPOLLIN
      then let to_read = f_bytes_to_read f;
               to_read = (if buffer_size opts < to_read then buffer_size opts else to_read)
           in obind (do_read ss (f_fd f) buf_len to_read 0 w) (\<lambda>(ss, num_bytes) w.
                let t = t\<lparr>t_script := ss\<rparr> in
                if num_bytes = -1 then Ret t (LOG_ERROR ''read'' w)
                else if num_bytes = 0 then delflow epfd p t w
                else let f = f\<lparr>f_bytes_read := f_bytes_read f + num_bytes,
                               f_bytes_to_read := f_bytes_to_read f - num_bytes\<rparr> in
                  if 0 < f_bytes_to_read f then Ret (put_flow p f t) w
                  else let t = t\<lparr>t_transactions := t_transactions t + 1\<rparr>;
                           f = f\<lparr>f_transactions := f_transactions f + 1\<rparr>
                    in obind (track_finish_time f w) (\<lambda>f w.
                       obind (interval_collect f t w) (\<lambda>(f, t) w.
                       obind (epoll_ctl_or_die epfd EPOLL_CTL_MOD (f_fd f)
                               \<lparr>ev_events = EPOLLRDHUP OR EPOLLOUT, ev_ptr = p\<rparr> w) (\<lambda>_ w.
                         Ret (put_flow p (f\<lparr>f_bytes_to_write := request_size opts\<rparr>) t) w))))
      else Ret t w)"

section \<open>The server\<close>

definition server_accept :: "options \<Rightarrow> fd \<Rightarrow> fd \<Rightarrow> thread \<Rightarrow> world \<Rightarrow> thread outcome" where
  "server_accept opts fd_listen epfd t w =
     obind (sys (CAccept fd_listen) w) (\<lambda>r w.
       if r_ret r = -1
       then Ret t (if w_errno w = EINTR \<or> w_errno w = ECONNABORTED then w else LOG_ERROR ''accept'' w)
       else obind (setup_connected_socket (r_ret r) opts w) (\<lambda>_ w.
         obind (addflow epfd (r_ret r) (t_next_flow_id t) EPOLLIN
                  (t\<lparr>t_next_flow_id := t_next_flow_id t + 1\<rparr>) w) (\<lambda>(p, t) w.
           with_flow p t w (\<lambda>f.
             Ret (put_flow p (f\<lparr>f_bytes_to_read := request_size opts,
                               f_itv := Some (interval_create (interval_secs opts))\<rparr>) t) w))))"

text \<open>A failed \<open>epoll_ctl\<close> drops the connection.\<close>

definition mod_or_drop :: "fd \<Rightarrow> ptr \<Rightarrow> fd \<Rightarrow> u32 \<Rightarrow> thread \<Rightarrow> world \<Rightarrow> (thread \<Rightarrow> thread) \<Rightarrow> thread outcome" where
  "mod_or_drop epfd p fd events t w update =
     obind (sys (CEpollCtl epfd EPOLL_CTL_MOD fd (Some \<lparr>ev_events = events, ev_ptr = p\<rparr>)) w) (\<lambda>r w.
       if r_ret r \<noteq> 0 then delflow epfd p t w else Ret (update t) w)"

definition server_event :: event_step where
  "server_event opts epfd fd_listen buf_len f e t w =
     (let p = ev_ptr e; ss = t_script t in
      if f_fd f = fd_listen then server_accept opts fd_listen epfd t w
      else if has_event (ev_events e) EPOLLRDHUP then delflow epfd p t w
      else if has_event (ev_events e) EPOLLIN
      then let to_read = f_bytes_to_read f;
               to_read = (if buffer_size opts < to_read then buffer_size opts else to_read)
           in obind (do_read ss (f_fd f) buf_len to_read 0 w) (\<lambda>(ss, num_bytes) w.
                let t = t\<lparr>t_script := ss\<rparr> in
                if num_bytes = -1 then Ret t (LOG_ERROR ''read'' w)
                else if num_bytes = 0 then delflow epfd p t w
                else let f = f\<lparr>f_bytes_read := f_bytes_read f + num_bytes,
                               f_bytes_to_read := f_bytes_to_read f - num_bytes\<rparr> in
                  if 0 < f_bytes_to_read f then Ret (put_flow p f t) w
                  else mod_or_drop epfd p (f_fd f) (EPOLLRDHUP OR EPOLLOUT) (put_flow p f t) w
                         (put_flow p (f\<lparr>f_bytes_to_write := response_size opts\<rparr>)))
      else if has_event (ev_events e) EPOLLOUT
      then let to_write = f_bytes_to_write f;
               flags = (if buffer_size opts < to_write then MSG_MORE else 0);
               to_write = (if buffer_size opts < to_write then buffer_size opts else to_write)
           in obind (do_write ss (f_fd f) buf_len to_write flags w) (\<lambda>(ss, num_bytes) w.
                let t = t\<lparr>t_script := ss\<rparr> in
                if num_bytes = -1 then Ret t (LOG_ERROR ''write'' w)
                else let f = f\<lparr>f_bytes_to_write := f_bytes_to_write f - num_bytes\<rparr> in
                  if 0 < f_bytes_to_write f then Ret (put_flow p f t) w
                  else let t = t\<lparr>t_transactions := t_transactions t + 1\<rparr>;
                           f = f\<lparr>f_transactions := f_transactions f + 1\<rparr>
                    in obind (interval_collect f t w) (\<lambda>(f, t) w.
                       mod_or_drop epfd p (f_fd f) (EPOLLRDHUP OR EPOLLIN) (put_flow p f t) w
                         (put_flow p (f\<lparr>f_bytes_to_read := request_size opts\<rparr>))))
      else Ret t w)"

definition thread_start :: "options \<Rightarrow> thread \<Rightarrow> world \<Rightarrow> thread outcome" where
  "thread_start opts t w =
     obind (reset_port (t_ai t) (atoi (port opts)) w) (\<lambda>ai w.
       if client opts then run_client opts tcp_socket_ops client_event (t\<lparr>t_ai := ai\<rparr>) w
       else run_server opts tcp_socket_ops server_event (t\<lparr>t_ai := ai\<rparr>) w)"

section \<open>What the state machines maintain\<close>

definition rr_valid :: "options \<Rightarrow> bool" where
  "rr_valid opts \<longleftrightarrow> 0 < request_size opts \<and> request_size opts < 2 ^ 31 \<and> 0 < response_size opts
     \<and> response_size opts < 2 ^ 31 \<and> 0 < buffer_size opts \<and> buffer_size opts < 2 ^ 31"

lemma rr_buffer:
  assumes "rr_valid opts"
  shows "uint (buf_size opts) = min (max (request_size opts) (response_size opts)) (buffer_size opts)
    \<or> uint (buf_size opts) = buffer_size opts"
    "min (max (request_size opts) (response_size opts)) (buffer_size opts) \<le> uint (buf_size opts)"
proof -
  have u: "uint (word_of_int x :: u64) = x" if "0 \<le> x" "x < 2 ^ 31" for x
    using that by (simp add: unsigned_of_int take_bit_eq_mod)
  have nz: "(word_of_int x :: u64) \<noteq> 0" if "0 < x" "x < 2 ^ 31" for x
    using u [of x] that by (metis less_irrefl order_less_imp_le uint_0_eq)
  note * = assms [unfolded rr_valid_def]
  show "uint (buf_size opts) = min (max (request_size opts) (response_size opts)) (buffer_size opts)
    \<or> uint (buf_size opts) = buffer_size opts"
    "min (max (request_size opts) (response_size opts)) (buffer_size opts) \<le> uint (buf_size opts)"
    using * by (auto simp: buf_size_def Let_def word_less_def u nz)
qed

text \<open>
  The counters of a flow that reads \<open>rd\<close> and writes \<open>wr\<close> bytes per transaction: what is left to
  transfer is within the message, for the direction the mask allows.
\<close>

definition rr_bounds :: "int \<Rightarrow> int \<Rightarrow> u32 \<Rightarrow> flow \<Rightarrow> bool" where
  "rr_bounds rd wr m f \<longleftrightarrow> lat_ok f \<and> 0 \<le> f_id f
     \<and> (has_event m EPOLLOUT \<longrightarrow> 0 \<le> f_bytes_to_write f \<and> f_bytes_to_write f \<le> wr)
     \<and> (has_event m EPOLLIN \<longrightarrow> 0 \<le> f_bytes_to_read f \<and> f_bytes_to_read f \<le> rd)"

text \<open>Without a script every byte is accounted for.\<close>

definition client_ok :: "options \<Rightarrow> bool \<Rightarrow> u32 \<Rightarrow> flow \<Rightarrow> bool" where
  "client_ok opts plain m f \<longleftrightarrow> rr_bounds (response_size opts) (request_size opts) m f
     \<and> (plain \<longrightarrow> 0 \<le> f_bytes_to_read f \<and> (has_event m EPOLLOUT \<longrightarrow> f_bytes_to_read f = 0)
         \<and> (\<exists>n. f_transactions f = of_nat n
              \<and> (f_bytes_to_read f = 0 \<longrightarrow> f_bytes_read f = int n * response_size opts)
              \<and> (0 < f_bytes_to_read f \<longrightarrow>
                   f_bytes_read f + f_bytes_to_read f = int (n + 1) * response_size opts)))"

definition server_ok :: "options \<Rightarrow> bool \<Rightarrow> u32 \<Rightarrow> flow \<Rightarrow> bool" where
  "server_ok opts plain m f \<longleftrightarrow> rr_bounds (request_size opts) (response_size opts) m f
     \<and> (plain \<longrightarrow> (has_event m EPOLLOUT \<longrightarrow> f_bytes_to_read f = 0)
         \<and> (\<exists>n. f_transactions f = of_nat n
              \<and> (has_event m EPOLLOUT \<longrightarrow> f_bytes_read f = int (n + 1) * request_size opts)
              \<and> (has_event m EPOLLIN \<longrightarrow> 0 < f_bytes_to_read f \<longrightarrow>
                   f_bytes_read f + f_bytes_to_read f = int (n + 1) * request_size opts)))"

text \<open>A sample counts whole transactions only.\<close>

definition rr_sample :: "int \<Rightarrow> bool \<Rightarrow> sample \<Rightarrow> bool" where
  "rr_sample rd plain smp \<longleftrightarrow> 0 \<le> s_flow_id smp \<and> (\<exists>lat. s_latency smp = Some lat \<and> numlist_ok lat)
     \<and> (plain \<longrightarrow> (\<exists>n. s_transactions smp = of_nat n \<and> s_bytes_read smp = int n * rd))"

text \<open>The masks \<open>EPOLLRDHUP | EPOLLIN\<close> and \<open>EPOLLRDHUP | EPOLLOUT\<close>, as the simplifier computes them.\<close>

lemma masks [simp]:
  "has_event 8193 EPOLLIN" "\<not> has_event 8193 EPOLLOUT" "has_event 8196 EPOLLOUT" "\<not> has_event 8196 EPOLLIN"
  by (simp_all add: has_event_def)

lemma track_write_time_wp:
  assumes "winv ok sk s plain epfd X t w"
    and "\<And>ts w'. winv ok sk s plain epfd X t w' \<Longrightarrow> quiet w w' \<Longrightarrow> Q (f\<lparr>f_write_time := ts\<rparr>) w'"
  shows "wp (track_write_time opts f w) Q"
  using assms(2) [OF assms(1), of "f_write_time f"]
  by (auto simp: track_write_time_def intro!: winv_sys [OF assms(1)] assms(2))

lemma track_finish_time_wp:
  assumes "winv ok sk s plain epfd X t w" "lat_ok f"
    and Q: "\<And>lat w'. winv ok sk s plain epfd X t w' \<Longrightarrow> quiet w w' \<Longrightarrow> numlist_ok lat \<Longrightarrow>
      Q (f\<lparr>f_latency := Some lat\<rparr>) w'"
  shows "wp (track_finish_time f w) Q"
proof -
  from assms(2) obtain lat where lat: "f_latency f = Some lat" "numlist_ok lat" by (auto simp: lat_ok_def)
  then obtain lat' where "numlist_add lat v = Some (lat' v)" "numlist_ok (lat' v)" for v
    using numlist_add_spec [OF lat(2)] by metis
  then show ?thesis
    by (auto simp: track_finish_time_def lat(1) intro!: winv_sys [OF assms(1)] Q)
qed

section \<open>One event of a client\<close>

lemma client_write_wp:
  assumes v: "rr_valid opts" and at: "at_event (client_ok opts plain) sk s plain epfd (ev_ptr e) f m t w"
    and e: "\<not> has_event (ev_events e) EPOLLRDHUP" "has_event (ev_events e) EPOLLOUT" "has_event m EPOLLOUT"
  shows "wp (client_event opts epfd listen (uint (buf_size opts)) f e t w)
    (step_post (client_ok opts plain) sk s plain epfd listen (ev_ptr e) t w)"
proof -
  let ?p = "ev_ptr e" and ?ok = "client_ok opts plain"
  from at have inv: "winv ?ok sk s plain epfd {?p} t w" and f: "aside ?p f t t" "measured s f" "?ok m f" "lat_ok f"
    by (auto simp: at_event_def intro: winv_weaken aside_refl)
  let ?n = "if buffer_size opts < f_bytes_to_write f then buffer_size opts else f_bytes_to_write f"
  have len: "0 \<le> ?n" "?n \<le> uint (buf_size opts)"
    using f(3) e(3) rr_buffer(2) [OF v] v by (auto simp: client_ok_def rr_bounds_def rr_valid_def)
  show ?thesis
    unfolding client_event_def Let_def if_not_P [OF e(1)] if_P [OF e(2)] wp_obind
  proof (rule track_write_time_wp [OF inv], rule transfers_wp(2) [OF _ len], assumption, goal_cases)
    case (1 ts w1 ss k w2)
    let ?t = "t\<lparr>t_script := ss\<rparr>" and ?f1 = "f\<lparr>f_write_time := ts\<rparr>"
    let ?f2 = "?f1\<lparr>f_bytes_to_write := f_bytes_to_write f - k\<rparr>"
    have q: "quiet w w2" using 1 by (blast intro: quiet_trans)
    note put = step_put [OF at 1(3) quiet_calm [OF q]]
    have "step_post ?ok sk s plain epfd listen ?p t w (put_flow ?p ?f1 ?t) w2"
      by (rule put) (use f in \<open>auto simp: client_ok_def rr_bounds_def lat_ok_def\<close>)
    moreover have "step_post ?ok sk s plain epfd listen ?p t w (put_flow ?p ?f2 ?t) w2"
      if "k \<noteq> -1" "0 < f_bytes_to_write ?f2"
      by (rule put) (use f that 1(5) in \<open>auto simp: client_ok_def rr_bounds_def lat_ok_def\<close>)
    moreover have "wp (sys (CEpollCtl epfd EPOLL_CTL_MOD (f_fd f) (Some \<lparr>ev_events = EPOLLRDHUP OR EPOLLIN, ev_ptr = ?p\<rparr>)) w2)
        (\<lambda>r. if r_ret r = 0 then step_post ?ok sk s plain epfd listen ?p t w
           (put_flow ?p (?f2\<lparr>f_bytes_to_read := response_size opts\<rparr>) ?t) else (\<lambda>_. True))"
      by (rule step_mod [OF at 1(3) quiet_extends [OF q], where listen = listen
            and g = "?f2\<lparr>f_bytes_to_read := response_size opts\<rparr>"])
        (use f v e(3) in \<open>auto simp: client_ok_def rr_bounds_def lat_ok_def rr_valid_def algebra_simps\<close>)
    ultimately show ?case
      by (auto simp: epoll_ctl_or_die_def step_post_def wp_if elim!: wp_mono split: if_splits)
  qed
qed

lemma rr_sample_of:
  "sample_of tid f now smp \<Longrightarrow> lat_ok f \<Longrightarrow> 0 \<le> f_id f \<Longrightarrow>
   (plain \<Longrightarrow> \<exists>n. f_transactions f = of_nat n \<and> f_bytes_read f = int n * rd) \<Longrightarrow> rr_sample rd plain smp"
  by (auto simp: sample_of_def rr_sample_def lat_ok_def)

lemma client_read_done:
  assumes "client_ok opts True m f" "0 < k" "k \<le> f_bytes_to_read f" "\<not> 0 < f_bytes_to_read f - k"
  shows "\<exists>n. f_transactions f + 1 = of_nat n \<and> f_bytes_read f + k = int n * response_size opts"
proof -
  from assms(2-4) have k: "k = f_bytes_to_read f" "0 < f_bytes_to_read f" by simp_all
  with assms(1) obtain n where "f_transactions f = of_nat n"
    "f_bytes_read f + f_bytes_to_read f = int (n + 1) * response_size opts"
    by (auto simp: client_ok_def)
  with k(1) show ?thesis by (intro exI [of _ "n + 1"]) simp
qed

lemma client_read_wp:
  assumes v: "rr_valid opts"
    and at: "at_event (client_ok opts plain) (rr_sample (response_size opts) plain) s plain epfd (ev_ptr e) f m t w"
    and e: "\<not> has_event (ev_events e) EPOLLRDHUP" "\<not> has_event (ev_events e) EPOLLOUT"
      "has_event (ev_events e) EPOLLIN" "has_event m EPOLLIN" and listen: "listen = -1"
  shows "wp (client_event opts epfd listen (uint (buf_size opts)) f e t w)
    (step_post (client_ok opts plain) (rr_sample (response_size opts) plain) s plain epfd listen (ev_ptr e) t w)"
proof -
  let ?p = "ev_ptr e" and ?ok = "client_ok opts plain" and ?sk = "rr_sample (response_size opts) plain"
  from at have inv: "winv ?ok ?sk s plain epfd {?p} t w" and f: "aside ?p f t t" "measured s f" "?ok m f" "lat_ok f"
    by (auto simp: at_event_def intro: winv_weaken aside_refl)
  let ?n = "if buffer_size opts < f_bytes_to_read f then buffer_size opts else f_bytes_to_read f"
  have len: "0 \<le> ?n" "?n \<le> uint (buf_size opts)"
    using f(3) e(4) rr_buffer(2) [OF v] v by (auto simp: client_ok_def rr_bounds_def rr_valid_def)
  show ?thesis
    unfolding client_event_def Let_def if_not_P [OF e(1)] if_not_P [OF e(2)] if_P [OF e(3)] wp_obind
  proof (rule transfers_wp(1) [OF inv len], goal_cases)
    case (1 ss k w2)
    let ?t = "t\<lparr>t_script := ss\<rparr>"
    let ?f1 = "f\<lparr>f_bytes_read := f_bytes_read f + k, f_bytes_to_read := f_bytes_to_read f - k\<rparr>"
    let ?f2 = "?f1\<lparr>f_transactions := f_transactions ?f1 + 1\<rparr>" and ?t2 = "?t\<lparr>t_transactions := t_transactions ?t + 1\<rparr>"
    note q = 1(2)
    have asd: "aside ?p f t ?t" using f(1) by simp
    have same: "step_post ?ok ?sk s plain epfd listen ?p t w ?t w2"
      using at by (intro step_same [OF at 1(1) quiet_calm [OF q] asd]) (simp add: at_event_def)
    have del: "wp (delflow epfd ?p ?t w2) (step_post ?ok ?sk s plain epfd listen ?p t w)"
      by (rule step_del [OF at disjI1 [OF listen] 1(1) quiet_extends [OF q] asd])
    have part: "step_post ?ok ?sk s plain epfd listen ?p t w (put_flow ?p ?f1 ?t) w2"
      if "k \<noteq> -1" "k \<noteq> 0" "0 < f_bytes_to_read ?f1"
      by (rule step_put [OF at 1(1) quiet_calm [OF q] asd])
        (use f that 1(3,4) in \<open>auto simp: client_ok_def rr_bounds_def lat_ok_def algebra_simps\<close>)
    have full: "wp (track_finish_time ?f2 w2) (\<lambda>f w1.
        wp (obind (interval_collect f ?t2 w1) (\<lambda>(f, t') w1.
          obind (epoll_ctl_or_die epfd EPOLL_CTL_MOD (f_fd f) \<lparr>ev_events = EPOLLRDHUP OR EPOLLOUT, ev_ptr = ?p\<rparr> w1) (\<lambda>_ w1.
            Ret (put_flow ?p (f\<lparr>f_bytes_to_write := request_size opts\<rparr>) t') w1)))
        (step_post ?ok ?sk s plain epfd listen ?p t w))"
      if k: "k \<noteq> -1" "k \<noteq> 0" "\<not> 0 < f_bytes_to_read ?f1"
      unfolding wp_obind
    proof (rule track_finish_time_wp [of ?ok ?sk s plain epfd "{?p}" ?t2], goal_cases)
      case (3 lat w3)
      let ?f3 = "?f2\<lparr>f_latency := Some lat\<rparr>"
      have acc: "\<exists>n. f_transactions ?f3 = of_nat n \<and> f_bytes_read ?f3 = int n * response_size opts
          \<and> f_bytes_to_read ?f3 = 0" if plain
        using client_read_done [of opts m f k] f(3) k 1(3,4) that by (auto split: if_splits)
      have samp: "rr_sample (response_size opts) plain smp" if "sample_of tid ?f3 now smp" for tid now smp
        by (rule rr_sample_of [OF that])
          (use f 3 acc in \<open>auto simp: client_ok_def rr_bounds_def lat_ok_def\<close>)
      show ?case
      proof (rule winv_collect [OF 3(1), where g = f], goal_cases)
        case (5 f4 t4 w4)
        let ?f5 = "f4\<lparr>f_bytes_to_write := request_size opts\<rparr>"
        note sc = same_counters_fields [OF 5(4)]
        have lat: "lat_ok f4" using 5(5) 3(3) by (simp add: lat_ok_def)
        have asd4: "aside ?p f t t4" using 5(6) asd by auto
        have ext: "extends w w4"
          using extends_trans [OF quiet_extends [OF q] extends_trans [OF quiet_extends [OF 3(2)] calm_extends [OF 5(2)]]] .
        have ok: "?ok 8196 ?f5"
          using sc acc f(3) v lat by (auto simp: client_ok_def rr_bounds_def rr_valid_def lat_ok_def)
        have "wp (sys (CEpollCtl epfd EPOLL_CTL_MOD (f_fd f4) (Some \<lparr>ev_events = 8196, ev_ptr = ?p\<rparr>)) w4)
            (\<lambda>r w5. r_ret r = 0 \<longrightarrow> step_post ?ok ?sk s plain epfd listen ?p t w (put_flow ?p ?f5 t4) w5)"
          by (rule step_mod [OF at 5(1) ext asd4, where listen = listen and g = ?f5])
            (use sc ok 5(3) lat in \<open>auto simp: lat_ok_def\<close>)
        then show ?case by (auto simp: epoll_ctl_or_die_def wp_if elim!: wp_mono)
      qed (use f samp at in \<open>auto simp: at_event_def\<close>)
    qed (use 1 f in \<open>auto simp: lat_ok_def\<close>)
    show ?case using same del part full by (auto simp: wp_if)
  qed
qed

lemma client_event_wp:
  assumes v: "rr_valid opts"
    and at: "at_event (client_ok opts plain) (rr_sample (response_size opts) plain) s plain epfd (ev_ptr e) f m t w"
    and m: "masked m e" and listen: "listen = -1"
  shows "wp (client_event opts epfd listen (uint (buf_size opts)) f e t w)
    (step_post (client_ok opts plain) (rr_sample (response_size opts) plain) s plain epfd listen (ev_ptr e) t w)"
proof -
  from at have inv: "winv (client_ok opts plain) (rr_sample (response_size opts) plain) s plain epfd {ev_ptr e} t w"
    and asd: "aside (ev_ptr e) f t t" and f: "t_flows t (ev_ptr e) = Some f"
    by (auto simp: at_event_def intro: winv_weaken aside_refl)
  show ?thesis
  proof (cases "has_event (ev_events e) EPOLLRDHUP")
    case True
    then show ?thesis
      by (simp add: client_event_def Let_def step_del [OF at disjI1 [OF listen] inv extends_refl asd])
  next
    case hup: False
    show ?thesis
    proof (cases "has_event (ev_events e) EPOLLOUT")
      case True
      with m show ?thesis by (intro client_write_wp [OF v at hup]) (auto simp: masked_def)
    next
      case out: False
      show ?thesis
      proof (cases "has_event (ev_events e) EPOLLIN")
        case True
        with m show ?thesis by (intro client_read_wp [OF v at hup out _ _ listen]) (auto simp: masked_def)
      next
        case False
        with hup out show ?thesis
          using step_same [OF at inv calm_refl asd f] by (simp add: client_event_def Let_def)
      qed
    qed
  qed
qed

section \<open>One event of a server\<close>

lemma server_accept_wp:
  assumes v: "rr_valid opts" "worker_opts s opts" and at: "at_event (server_ok opts plain) sk s plain epfd p f m t w"
  shows "wp (server_accept opts listen epfd t w) (step_post (server_ok opts plain) sk s plain epfd listen p t w)"
proof -
  from at have inv: "winv (server_ok opts plain) sk s plain epfd {} t w" by (simp add: at_event_def)
  note upd = new_flow_wp [where upd = "\<lambda>f. f\<lparr>f_bytes_to_read := request_size opts,
      f_itv := Some (interval_create (interval_secs opts))\<rparr>" and events = EPOLLIN]
  show ?thesis
    unfolding server_accept_def wp_obind
  proof (rule winv_sys [OF inv], simp, goal_cases)
    case (1 r w1)
    have err: "step_post (server_ok opts plain) sk s plain epfd listen p t w t w1"
      by (rule step_accept [OF at 1(2) quiet_extends [OF 1(3)]]) auto
    have "wp (setup_connected_socket (r_ret r) opts w1) (\<lambda>_ w2.
      wp (obind (addflow epfd (r_ret r) (t_next_flow_id t) EPOLLIN (t\<lparr>t_next_flow_id := t_next_flow_id t + 1\<rparr>) w2)
        (\<lambda>(p, t) w. with_flow p t w (\<lambda>f. Ret (put_flow p (f\<lparr>f_bytes_to_read := request_size opts,
                               f_itv := Some (interval_create (interval_secs opts))\<rparr>) t) w)))
       (step_post (server_ok opts plain) sk s plain epfd listen p t w))"
    proof (rule winv_quietly [OF 1(2) quiet_setup_connected_socket], rule wp_mono, rule upd, assumption, goal_cases)
      case (3 u w2 t' w')
      then show ?case
        using extends_trans [OF quiet_extends [OF 1(3)] extends_trans [OF quiet_extends [OF 3(2)]]]
        by (intro step_accept [OF at]) auto
    qed (use v measured_new [OF v(2)] in \<open>auto simp: server_ok_def rr_bounds_def lat_ok_def rr_valid_def\<close>)
    with err show ?case by (simp add: wp_if)
  qed
qed

lemma server_read_wp:
  assumes v: "rr_valid opts"
    and at: "at_event (server_ok opts plain) sk s plain epfd (ev_ptr e) f m t w"
    and e: "\<not> has_event (ev_events e) EPOLLRDHUP" "has_event (ev_events e) EPOLLIN" "has_event m EPOLLIN"
    and listen: "f_fd f \<noteq> listen"
  shows "wp (server_event opts epfd listen (uint (buf_size opts)) f e t w)
    (step_post (server_ok opts plain) sk s plain epfd listen (ev_ptr e) t w)"
proof -
  let ?p = "ev_ptr e" and ?ok = "server_ok opts plain"
  from at have inv: "winv ?ok sk s plain epfd {?p} t w" and f: "aside ?p f t t" "measured s f" "?ok m f" "lat_ok f"
    by (auto simp: at_event_def intro: winv_weaken aside_refl)
  let ?n = "if buffer_size opts < f_bytes_to_read f then buffer_size opts else f_bytes_to_read f"
  have len: "0 \<le> ?n" "?n \<le> uint (buf_size opts)"
    using f(3) e(3) rr_buffer(2) [OF v] v by (auto simp: server_ok_def rr_bounds_def rr_valid_def)
  show ?thesis
    unfolding server_event_def Let_def if_not_P [OF listen] if_not_P [OF e(1)] if_P [OF e(2)] wp_obind
  proof (rule transfers_wp(1) [OF inv len], goal_cases)
    case (1 ss k w2)
    let ?t = "t\<lparr>t_script := ss\<rparr>"
    let ?f1 = "f\<lparr>f_bytes_read := f_bytes_read f + k, f_bytes_to_read := f_bytes_to_read f - k\<rparr>"
    let ?t1 = "put_flow ?p ?f1 ?t" and ?f2 = "?f1\<lparr>f_bytes_to_write := response_size opts\<rparr>"
    note q = 1(2)
    have asd: "aside ?p f t ?t" using f(1) by simp
    have same: "step_post ?ok sk s plain epfd listen ?p t w ?t w2"
      using at by (intro step_same [OF at 1(1) quiet_calm [OF q] asd]) (simp add: at_event_def)
    have del: "wp (delflow epfd ?p ?t w2) (step_post ?ok sk s plain epfd listen ?p t w)"
      by (rule step_del [OF at disjI2 [OF listen] 1(1) quiet_extends [OF q] asd])
    have part: "step_post ?ok sk s plain epfd listen ?p t w ?t1 w2"
      if "k \<noteq> -1" "k \<noteq> 0" "0 < f_bytes_to_read ?f1"
      by (rule step_put [OF at 1(1) quiet_calm [OF q] asd])
        (use f that 1(3,4) in \<open>auto simp: server_ok_def rr_bounds_def lat_ok_def algebra_simps\<close>)
    have full: "wp (mod_or_drop epfd ?p (f_fd f) (EPOLLRDHUP OR EPOLLOUT) ?t1 w2 (put_flow ?p ?f2))
        (step_post ?ok sk s plain epfd listen ?p t w)"
      if k: "k \<noteq> -1" "k \<noteq> 0" "\<not> 0 < f_bytes_to_read ?f1"
    proof -
      have inv1: "winv ?ok sk s plain epfd {?p} ?t1 w2"
        using at by (intro winv_put [OF 1(1), where f = f]) (auto simp: at_event_def)
      have asd1: "aside ?p f t ?t1" using aside_put [OF asd, of ?f1] f(4) by (simp add: lat_ok_def)
      have "plain \<Longrightarrow> k = f_bytes_to_read f \<and> 0 < k"
        using k 1(3,4) f(3) by (auto simp: server_ok_def rr_bounds_def split: if_splits)
      then have ok: "?ok 8196 ?f2"
        using f(3,4) v e(3) by (auto simp: server_ok_def rr_bounds_def rr_valid_def lat_ok_def algebra_simps)
      show ?thesis
        unfolding mod_or_drop_def wp_obind
        by (rule step_mod [OF at inv1 quiet_extends [OF q] asd1, where listen = listen and g = ?f2])
          (use f ok in \<open>auto simp: wp_if lat_ok_def intro!: step_del [OF at disjI2 [OF listen]] asd1\<close>)
    qed
    show ?case using same del part full by (auto simp: wp_if)
  qed
qed

lemma server_write_wp:
  assumes v: "rr_valid opts"
    and at: "at_event (server_ok opts plain) (rr_sample (request_size opts) plain) s plain epfd (ev_ptr e) f m t w"
    and e: "\<not> has_event (ev_events e) EPOLLRDHUP" "\<not> has_event (ev_events e) EPOLLIN"
      "has_event (ev_events e) EPOLLOUT" "has_event m EPOLLOUT" and listen: "f_fd f \<noteq> listen"
  shows "wp (server_event opts epfd listen (uint (buf_size opts)) f e t w)
    (step_post (server_ok opts plain) (rr_sample (request_size opts) plain) s plain epfd listen (ev_ptr e) t w)"
proof -
  let ?p = "ev_ptr e" and ?ok = "server_ok opts plain" and ?sk = "rr_sample (request_size opts) plain"
  from at have inv: "winv ?ok ?sk s plain epfd {?p} t w" and f: "aside ?p f t t" "measured s f" "?ok m f" "lat_ok f"
    by (auto simp: at_event_def intro: winv_weaken aside_refl)
  let ?n = "if buffer_size opts < f_bytes_to_write f then buffer_size opts else f_bytes_to_write f"
  have len: "0 \<le> ?n" "?n \<le> uint (buf_size opts)"
    using f(3) e(4) rr_buffer(2) [OF v] v by (auto simp: server_ok_def rr_bounds_def rr_valid_def)
  show ?thesis
    unfolding server_event_def Let_def if_not_P [OF listen] if_not_P [OF e(1)] if_not_P [OF e(2)] if_P [OF e(3)]
      wp_obind
  proof (rule transfers_wp(2) [OF inv len], goal_cases)
    case (1 ss k w2)
    let ?t = "t\<lparr>t_script := ss\<rparr>"
    let ?f1 = "f\<lparr>f_bytes_to_write := f_bytes_to_write f - k\<rparr>"
    let ?f2 = "?f1\<lparr>f_transactions := f_transactions ?f1 + 1\<rparr>" and ?t2 = "?t\<lparr>t_transactions := t_transactions ?t + 1\<rparr>"
    note q = 1(2)
    have asd: "aside ?p f t ?t" using f(1) by simp
    have same: "step_post ?ok ?sk s plain epfd listen ?p t w ?t w2"
      using at by (intro step_same [OF at 1(1) quiet_calm [OF q] asd]) (simp add: at_event_def)
    have part: "step_post ?ok ?sk s plain epfd listen ?p t w (put_flow ?p ?f1 ?t) w2"
      if "k \<noteq> -1" "0 < f_bytes_to_write ?f1"
      by (rule step_put [OF at 1(1) quiet_calm [OF q] asd])
        (use f that 1(3,4) in \<open>auto simp: server_ok_def rr_bounds_def lat_ok_def\<close>)
    have full: "wp (obind (interval_collect ?f2 ?t2 w2) (\<lambda>(f, t) w.
          mod_or_drop epfd ?p (f_fd f) (EPOLLRDHUP OR EPOLLIN) (put_flow ?p f t) w
            (put_flow ?p (f\<lparr>f_bytes_to_read := request_size opts\<rparr>))))
        (step_post ?ok ?sk s plain epfd listen ?p t w)"
    proof -
      have inv2: "winv ?ok ?sk s plain epfd {?p} ?t2 w2" using 1(1) by simp
      obtain n where n: "plain \<Longrightarrow> f_transactions ?f2 = of_nat n \<and> f_bytes_read ?f2 = int n * request_size opts
          \<and> f_bytes_to_read ?f2 = 0"
      proof (cases plain)
        case True
        with f(3) e(4) obtain n where "f_transactions f = of_nat n" "f_bytes_read f = int (n + 1) * request_size opts"
          "f_bytes_to_read f = 0"
          by (auto simp: server_ok_def)
        then show ?thesis by (intro that [of "n + 1"]) simp
      qed (simp add: that)
      have samp: "rr_sample (request_size opts) plain smp" if "sample_of tid ?f2 now smp" for tid now smp
        by (rule rr_sample_of [OF that])
          (use f n in \<open>auto simp: server_ok_def rr_bounds_def lat_ok_def\<close>)
      show ?thesis
        unfolding wp_obind
      proof (rule winv_collect [OF inv2, where g = f], goal_cases)
        case (5 f4 t4 w4)
        let ?f5 = "f4\<lparr>f_bytes_to_read := request_size opts\<rparr>" and ?t5 = "put_flow ?p f4 t4"
        note sc = same_counters_fields [OF 5(4)]
        have lat: "lat_ok f4" using 5(5) f(4) by (simp add: lat_ok_def)
        have asd4: "aside ?p f t t4" using 5(6) asd by auto
        have asd5: "aside ?p f t ?t5" using aside_put [OF asd4, of f4] sc lat by simp
        have live: "t_flows t4 ?p = Some f" using 5(6) at by (auto simp: at_event_def)
        have inv5: "winv ?ok ?sk s plain epfd {?p} ?t5 w4"
          by (rule winv_put [OF 5(1) _ live]) (use sc in auto)
        have ext: "extends w w4" using extends_trans [OF quiet_extends [OF q] calm_extends [OF 5(2)]] .
        have ok: "?ok 8193 ?f5"
          using sc n f(3) v lat by (auto simp: server_ok_def rr_bounds_def rr_valid_def lat_ok_def algebra_simps)
        show ?case
          unfolding mod_or_drop_def prod.case wp_obind
          by (rule step_mod [OF at inv5 ext asd5, where listen = listen and g = ?f5])
            (use sc ok 5(3) lat in
              \<open>auto simp: wp_if lat_ok_def intro!: step_del [OF at disjI2 [OF listen]] asd5\<close>)
      qed (use f samp at in \<open>auto simp: at_event_def\<close>)
    qed
    show ?case using same part full by (auto simp: wp_if)
  qed
qed

lemma server_event_wp:
  assumes v: "rr_valid opts" "worker_opts s opts"
    and at: "at_event (server_ok opts plain) (rr_sample (request_size opts) plain) s plain epfd (ev_ptr e) f m t w"
    and m: "masked m e"
  shows "wp (server_event opts epfd listen (uint (buf_size opts)) f e t w)
    (step_post (server_ok opts plain) (rr_sample (request_size opts) plain) s plain epfd listen (ev_ptr e) t w)"
proof (cases "f_fd f = listen")
  case True
  then show ?thesis by (simp add: server_event_def Let_def server_accept_wp [OF v at])
next
  case listen: False
  from at have inv: "winv (server_ok opts plain) (rr_sample (request_size opts) plain) s plain epfd {ev_ptr e} t w"
    and asd: "aside (ev_ptr e) f t t" and f: "t_flows t (ev_ptr e) = Some f"
    by (auto simp: at_event_def intro: winv_weaken aside_refl)
  consider (hup) "has_event (ev_events e) EPOLLRDHUP"
    | (rd) "\<not> has_event (ev_events e) EPOLLRDHUP" "has_event (ev_events e) EPOLLIN"
    | (wr) "\<not> has_event (ev_events e) EPOLLRDHUP" "\<not> has_event (ev_events e) EPOLLIN" "has_event (ev_events e) EPOLLOUT"
    | (none) "\<not> has_event (ev_events e) EPOLLRDHUP" "\<not> has_event (ev_events e) EPOLLIN" "\<not> has_event (ev_events e) EPOLLOUT"
    by blast
  then show ?thesis
  proof cases
    case hup
    with listen show ?thesis
      by (simp add: server_event_def Let_def step_del [OF at disjI2 [OF listen] inv extends_refl asd])
  next
    case rd
    with m show ?thesis by (intro server_read_wp [OF v(1) at rd _ listen]) (auto simp: masked_def)
  next
    case wr
    with m show ?thesis by (intro server_write_wp [OF v(1) at wr _ listen]) (auto simp: masked_def)
  next
    case none
    with listen show ?thesis
      using step_same [OF at inv calm_refl asd f] by (simp add: server_event_def Let_def)
  qed
qed

section \<open>The contracts, discharged\<close>

interpretation rr_client: event_handler client_event "\<lambda>l. l = -1" rr_valid client_ok
    "\<lambda>opts. rr_sample (response_size opts)"
proof unfold_locales
  show "client_ok opts plain (EPOLLRDHUP OR epoll_events opts) (new_client_flow opts (made_flow fd i))"
    if "rr_valid opts" "0 \<le> i" for opts plain fd i
    using that by (auto simp: client_ok_def rr_bounds_def rr_valid_def new_client_flow_def lat_ok_def intro: exI [of _ 0])
  show "lat_ok f" if "client_ok opts plain m f" for opts plain m f
    using that by (simp add: client_ok_def rr_bounds_def)
qed (auto intro: client_event_wp)

interpretation rr_server: event_handler server_event "\<lambda>l. l \<noteq> -1" rr_valid server_ok
    "\<lambda>opts. rr_sample (request_size opts)"
proof unfold_locales
  show "server_ok opts plain (EPOLLRDHUP OR EPOLLIN) (new_flow opts (made_flow fd i))"
    if "rr_valid opts" "0 \<le> i" for opts plain fd i
    using that by (auto simp: server_ok_def rr_bounds_def rr_valid_def new_flow_def lat_ok_def intro: exI [of _ 0])
  show "lat_ok f" if "server_ok opts plain m f" for opts plain m f
    using that by (simp add: server_ok_def rr_bounds_def)
qed (auto intro: server_event_wp)

section \<open>Properties\<close>

lemma thread_start_wp:
  assumes "rr_valid opts" "worker_opts s opts" "fresh_thread plain t w"
  shows "wp (thread_start opts t w) (\<lambda>t' w'. t_index t' = t_index t
    \<and> (\<forall>smp\<in>set (t_samples t'). s_tid smp = t_index t
        \<and> rr_sample (if client opts then response_size opts else request_size opts) plain smp))"
  unfolding thread_start_def wp_obind
proof (rule fresh_quietly [OF assms(3) quiet_reset_port], goal_cases)
  case (1 ai w1)
  then have "fresh_thread plain (t\<lparr>t_ai := ai\<rparr>) w1" by (simp add: fresh_thread_def)
  from rr_client.run_client_wp [OF refl assms(1,2) tcp.socket_provider_axioms this]
    rr_server.run_server_wp [OF _ assms(1,2) tcp.socket_provider_axioms this]
  show ?case by (auto elim!: wp_mono)
qed

text \<open>
  C1: A tcp_rr worker, client or server, is memory safe on every kernel that keeps its contract, for
  every sequence of events, short transfer, error and dropped connection: it never follows a pointer
  to a deleted flow, never hands out a length beyond its buffer, never adds to a missing latency
  list. The samples it leaves carry its index, a flow id and a latency list, and without a script
  they count whole transactions: the bytes read are the transactions times the size of the message
  the worker reads.
\<close>

theorem tcp_rr_worker:
  assumes "rr_valid opts" "worker_opts s opts" "fresh_thread plain t w"
  shows "wp (thread_start opts t w) (\<lambda>t' w'. t_index t' = t_index t
    \<and> (\<forall>smp\<in>set (t_samples t'). s_tid smp = t_index t
        \<and> rr_sample (if client opts then response_size opts else request_size opts) plain smp))"
  using assms by (rule thread_start_wp)

definition rr_opts0 :: options where
  "rr_opts0 = options0\<lparr>client := True, num_flows := 2, num_threads := 1, maxevents := 10, request_size := 3,
     response_size := 5, buffer_size := 4, interval_secs := Fin 1, port := ''12867'', enable_write := True,
     enable_read := True\<rparr>"

theorem tcp_rr_worker_witness:
  "wp (thread_start rr_opts0 thread0 (world0 (replicate 50 (honestly posix_ok (\<lambda>_ _. resp0)))))
     (\<lambda>t' w'. t_index t' = t_index thread0
       \<and> (\<forall>smp\<in>set (t_samples t'). s_tid smp = t_index thread0
           \<and> rr_sample (if client rr_opts0 then response_size rr_opts0 else request_size rr_opts0) True smp))"
  by (rule tcp_rr_worker [where s = "Fin 1"])
    (auto simp: rr_opts0_def options0_def rr_valid_def worker_opts_def rto_ok_def fresh_thread_def thread0_def
      slave0_def no_hooks_def answers_ok_def honestly_posix_ok normalized_def)

end
