(* ===== verification/RRReport.thy ===== *)
theory RRReport
  imports Stats TcpRR
begin

text \<open>
  The report of \<open>tcp_rr.c\<close>: the number of transactions, the throughput in transactions per second,
  and on a client the statistics of the latencies of all samples, pooled in the list of the first.
\<close>

section \<open>Latency\<close>

text \<open>\<open>numlist_concat\<close> onto the first sample's list; a NULL list is \<open>None\<close>.\<close>

fun pool_latencies :: "numlist \<Rightarrow> sample list \<Rightarrow> numlist option" where
  "pool_latencies all [] = Some all"
| "pool_latencies all (s # ss) = (case s_latency s of
       None \<Rightarrow> None
     | Some lat \<Rightarrow> (case numlist_concat all lat of None \<Rightarrow> None | Some (all, _) \<Rightarrow> pool_latencies all ss))"

fun print_latency_percentiles :: "percentiles \<Rightarrow> numlist \<Rightarrow> nat list \<Rightarrow> world \<Rightarrow> unit outcome" where
  "print_latency_percentiles p all [] w = Ret () w"
| "print_latency_percentiles p all (i # is) w =
     (if chosen p ! i
      then case numlist_percentile all (int i) of
             None \<Rightarrow> Fault w
           | Some v \<Rightarrow> print_latency_percentiles p all is (PRINT (''latency_p'' @ show_decimal i) (PDbl v) w)
      else print_latency_percentiles p all is w)"

definition report_latency :: "sample list \<Rightarrow> options \<Rightarrow> world \<Rightarrow> unit outcome" where
  "report_latency samples opts w =
     (if \<not> client opts then Ret () w
      else case samples of [] \<Rightarrow> Fault w
      | first # rest \<Rightarrow> (case Option.bind (s_latency first) (\<lambda>all. pool_latencies all rest) of
          None \<Rightarrow> Fault w
        | Some all \<Rightarrow>
            let w = PRINT ''latency_min'' (PDbl (numlist_min all)) w;
                w = PRINT ''latency_max'' (PDbl (numlist_max all)) w;
                w = PRINT ''latency_mean'' (PDbl (numlist_mean all)) w;
                w = PRINT ''latency_stddev'' (PDbl (numlist_stddev all)) w
            in print_latency_percentiles (opt_percentiles opts) all [0..<101] w))"

section \<open>The report\<close>

text \<open>
  The thread of a sample is its \<open>tid\<close>, which an assertion keeps within the threads; the counters and
  their difference are \<open>unsigned long\<close>. With two samples or more the loop runs, so the uninitialised
  \<open>duration\<close> and \<open>total_work\<close> are never read.
\<close>

definition report_stats :: "options \<Rightarrow> thread list \<Rightarrow> world \<Rightarrow> unit outcome" where
  "report_stats opts threads w =
     (let w = PRINT ''num_transactions'' (PULong (\<Sum>t\<leftarrow>threads. t_transactions t)) w
      in case collect_samples threads of
           [] \<Rightarrow> Ret () (LOG_WARN ''no sample collected'' w)
         | first # rest \<Rightarrow>
             obind (case all_samples opts of
                      None \<Rightarrow> Ret () w
                    | Some file \<Rightarrow> obind (print_samples (Some (opt_percentiles opts)) (first # rest) file w) (\<lambda>_ w. Ret () w))
               (\<lambda>_ w.
               let w = PRINT ''start_index'' (PInt 0) w;
                   w = PRINT ''end_index'' (PInt (int (length rest))) w;
                   w = PRINT ''num_samples'' (PInt (int (length (first # rest)))) w
               in if rest = [] then Ret () (LOG_WARN ''insufficient number of samples'' w)
                  else case totals_of s_tid s_transactions (\<lambda>n. of_int (uint n)) threads first rest of
                    None \<Rightarrow> Fault w
                  | Some a \<Rightarrow>
                      let w = PRINT ''throughput'' (PDbl (ddiv (tt_total a) (tt_duration a))) w;
                          w = PRINT ''correlation_coefficient''
                                (PDbl (ddiv (tt_xy a) (dsqrt (dmul (tt_xx a) (tt_yy a))))) w;
                          w = PRINT ''time_end'' (PTime (s_timestamp (last rest))) w
                      in report_latency (first # rest) opts w))"

section \<open>Pooling\<close>

lemma pool_latencies_join:
  "\<forall>s\<in>set ss. s_latency s \<noteq> None \<Longrightarrow> pool_latencies all ss = nl.join_all all (map (the \<circ> s_latency) ss)"
  by (induction ss arbitrary: all) (auto split: option.split bind_split)

lemma pool_latencies_spec:
  assumes "\<forall>s\<in>set (first # rest). \<exists>lat. s_latency s = Some lat \<and> numlist_ok lat"
  shows "\<exists>all. Option.bind (s_latency first) (\<lambda>all. pool_latencies all rest) = Some all \<and> numlist_ok all
    \<and> mset (for_each all) = (\<Sum>s\<leftarrow>first # rest. mset (for_each (the (s_latency s))))"
proof -
  from assms obtain lat where lat: "s_latency first = Some lat" "numlist_ok lat" by auto
  from assms have "\<forall>s\<in>set rest. s_latency s \<noteq> None" "\<forall>l\<in>set (map (the \<circ> s_latency) rest). numlist_ok l" by auto
  with nl.join_all_spec [OF lat(2) this(2)] lat show ?thesis
    by (auto simp: pool_latencies_join comp_def)
qed

lemma print_latency_percentiles_eq:
  "\<forall>i\<in>set is. i \<le> 100 \<Longrightarrow> \<exists>vs. length vs = length (filter (\<lambda>i. chosen p ! i) is)
    \<and> map Some vs = map (\<lambda>i. numlist_percentile all (int i)) (filter (\<lambda>i. chosen p ! i) is)
    \<and> print_latency_percentiles p all is w = Ret () (w\<lparr>w_out := w_out w
        @ map (\<lambda>(i, v). (''latency_p'' @ show_decimal i, PDbl v)) (zip (filter (\<lambda>i. chosen p ! i) is) vs)\<rparr>)"
proof (induction "is" arbitrary: w)
  case (Cons i "is")
  show ?case
  proof (cases "chosen p ! i")
    case True
    obtain v where v: "numlist_percentile all (int i) = Some v"
      using numlist_percentile_total [of i all] Cons.prems by auto
    from Cons.IH [of "PRINT (''latency_p'' @ show_decimal i) (PDbl v) w"] Cons.prems obtain vs where
      vs: "length vs = length (filter (\<lambda>i. chosen p ! i) is)"
      "map Some vs = map (\<lambda>i. numlist_percentile all (int i)) (filter (\<lambda>i. chosen p ! i) is)"
      "print_latency_percentiles p all is (PRINT (''latency_p'' @ show_decimal i) (PDbl v) w)
        = Ret () ((PRINT (''latency_p'' @ show_decimal i) (PDbl v) w)\<lparr>w_out := w_out (PRINT (''latency_p'' @ show_decimal i) (PDbl v) w)
        @ map (\<lambda>(i, v). (''latency_p'' @ show_decimal i, PDbl v)) (zip (filter (\<lambda>i. chosen p ! i) is) vs)\<rparr>)"
      by auto
    show ?thesis
      by (rule exI [of _ "v # vs"]) (use True v vs in \<open>simp add: PRINT_def\<close>)
  next
    case False
    with Cons show ?thesis by simp
  qed
qed simp

section \<open>Properties\<close>

lemma rr_latency_frame:
  assumes "client opts" "samples \<noteq> []" "\<forall>s\<in>set samples. \<exists>lat. s_latency s = Some lat \<and> numlist_ok lat"
  shows "\<exists>all vs w'. report_latency samples opts w = Ret () w'
    \<and> mset (for_each all) = (\<Sum>s\<leftarrow>samples. mset (for_each (the (s_latency s))))
    \<and> map Some vs = map (\<lambda>i. numlist_percentile all (int i)) (chosen_indices (opt_percentiles opts))
    \<and> w_out w' = w_out w @ [(''latency_min'', PDbl (numlist_min all)), (''latency_max'', PDbl (numlist_max all)),
        (''latency_mean'', PDbl (numlist_mean all)), (''latency_stddev'', PDbl (numlist_stddev all))]
        @ map (\<lambda>(i, v). (''latency_p'' @ show_decimal i, PDbl v)) (zip (chosen_indices (opt_percentiles opts)) vs)"
proof -
  obtain first rest where s: "samples = first # rest" using assms(2) by (cases samples) auto
  obtain all where all: "Option.bind (s_latency first) (\<lambda>all. pool_latencies all rest) = Some all"
    "mset (for_each all) = (\<Sum>s\<leftarrow>samples. mset (for_each (the (s_latency s))))"
    using pool_latencies_spec assms(3) unfolding s by blast
  let ?w = "PRINT ''latency_stddev'' (PDbl (numlist_stddev all)) (PRINT ''latency_mean'' (PDbl (numlist_mean all))
    (PRINT ''latency_max'' (PDbl (numlist_max all)) (PRINT ''latency_min'' (PDbl (numlist_min all)) w)))"
  obtain vs where vs: "map Some vs = map (\<lambda>i. numlist_percentile all (int i)) (chosen_indices (opt_percentiles opts))"
    "print_latency_percentiles (opt_percentiles opts) all [0..<101] ?w = Ret () (?w\<lparr>w_out := w_out ?w
      @ map (\<lambda>(i, v). (''latency_p'' @ show_decimal i, PDbl v)) (zip (chosen_indices (opt_percentiles opts)) vs)\<rparr>)"
    using print_latency_percentiles_eq [of "[0..<101]" "opt_percentiles opts" all ?w] by (auto simp: chosen_indices_def)
  show ?thesis
    by (rule exI [of _ all], rule exI [of _ vs]) (simp add: report_latency_def assms(1) s all [unfolded s] vs(1) vs(2) Let_def)
qed

text \<open>
  C36: The latency lines of a client's report are the minimum, maximum, mean, standard deviation and
  the chosen percentiles of one list that holds the measurements of all samples, each exactly once.
\<close>

theorem rr_latency_report:
  assumes "client opts" "samples \<noteq> []" "\<forall>s\<in>set samples. \<exists>lat. s_latency s = Some lat \<and> numlist_ok lat"
  shows "\<exists>all vs w'. report_latency samples opts w = Ret () w'
    \<and> mset (for_each all) = (\<Sum>s\<leftarrow>samples. mset (for_each (the (s_latency s))))
    \<and> map Some vs = map (\<lambda>i. numlist_percentile all (int i)) (chosen_indices (opt_percentiles opts))
    \<and> w_out w' = w_out w @ [(''latency_min'', PDbl (numlist_min all)), (''latency_max'', PDbl (numlist_max all)),
        (''latency_mean'', PDbl (numlist_mean all)), (''latency_stddev'', PDbl (numlist_stddev all))]
        @ map (\<lambda>(i, v). (''latency_p'' @ show_decimal i, PDbl v)) (zip (chosen_indices (opt_percentiles opts)) vs)"
  using assms by (rule rr_latency_frame)

lemma report_latency_safe:
  assumes "samples \<noteq> []" "\<forall>s\<in>set samples. \<exists>lat. s_latency s = Some lat \<and> numlist_ok lat"
  shows "wp (report_latency samples opts w) (\<lambda>_ w'. \<exists>out. w_out w' = w_out w @ out)"
proof (cases "client opts")
  case True
  obtain w' out where "report_latency samples opts w = Ret () w'" "w_out w' = w_out w @ out"
    using rr_latency_frame [OF True assms, of w] by blast
  then show ?thesis by simp
qed (simp add: report_latency_def)

lemma report_stats_wp:
  assumes "\<forall>i<length threads. \<forall>s\<in>set (t_samples (threads ! i)). s_tid s = int i \<and> 0 \<le> s_flow_id s
      \<and> (\<exists>lat. s_latency s = Some lat \<and> numlist_ok lat)"
  shows "wp (report_stats opts threads w) (\<lambda>_ w'. \<exists>out.
    w_out w' = w_out w @ (''num_transactions'', PULong (\<Sum>t\<leftarrow>threads. t_transactions t)) # out
    \<and> (case collect_samples threads of
        [] \<Rightarrow> out = []
      | [_] \<Rightarrow> map fst out = [''start_index'', ''end_index'', ''num_samples'']
      | first # rest \<Rightarrow>
          let D = timespec_real (s_timestamp first) (s_timestamp (last rest));
              B = flows_total s_tid s_transactions (first # rest) - s_transactions first
          in out ! 3 = (''throughput'', PDbl (ddiv (Fin (of_int (uint B))) (Fin D)))))"
proof -
  have lab: "labelled s_tid threads" using assms by (auto simp: labelled_def)
  have lat: "\<forall>s\<in>set (collect_samples threads). \<exists>lat. s_latency s = Some lat \<and> numlist_ok lat"
    using assms by (auto simp: set_collect_samples in_set_conv_nth [of _ threads])
  show ?thesis
  proof (cases "collect_samples threads")
    case Nil
    then show ?thesis by (simp add: report_stats_def Let_def)
  next
    case (Cons first rest)
    obtain a rng where a: "totals_of s_tid s_transactions (\<lambda>n. of_int (uint n)) threads first rest = Some a"
      "accumulated s_tid s_transactions (\<lambda>n. of_int (uint n)) rng (first # rest) a"
      using totals_of_collected [OF lab Cons] by blast
    let ?csv = "\<lambda>w. case all_samples opts of None \<Rightarrow> Ret () w
      | Some file \<Rightarrow> obind (print_samples (Some (opt_percentiles opts)) (first # rest) file w) (\<lambda>_ w. Ret () w)"
    have csv: "wp (?csv v) Q" if "\<And>v'. w_out v' = w_out v \<Longrightarrow> Q () v'" for v Q
      using lat by (auto simp: Cons quiet_def split: option.split intro!: print_samples_wp that)
    show ?thesis
    proof (cases "rest = []")
      case True
      show ?thesis
        unfolding report_stats_def Let_def Cons list.case wp_obind by (rule csv) (simp add: True)
    next
      case False
      have ne: "points s_tid s_transactions (\<lambda>n. of_int (uint n)) (first # rest) \<noteq> []"
        "last (points s_tid s_transactions (\<lambda>n. of_int (uint n)) (first # rest))
         = (timespec_real (s_timestamp first) (s_timestamp (last rest)),
            of_int (uint (flows_total s_tid s_transactions (first # rest) - s_transactions first)))"
        using last_point [OF False] by blast+
      then have tot: "tt_total a = Fin (of_int (uint (flows_total s_tid s_transactions (first # rest) - s_transactions first)))"
        "tt_duration a = Fin (timespec_real (s_timestamp first) (s_timestamp (last rest)))"
        using a(2) by (simp_all add: accumulated_def Let_def)
      obtain second rest' where r: "rest = second # rest'" using False by (cases rest) auto
      show ?thesis
        unfolding report_stats_def Let_def Cons list.case wp_obind
      proof (rule csv, goal_cases)
        case (1 v)
        have "wp (report_latency (first # rest) opts v') (\<lambda>_ w'. \<exists>out. w_out w' = w_out v' @ out)" for v'
          using report_latency_safe lat by (simp add: Cons)
        then show ?case
          unfolding a(1) option.case if_not_P [OF False] by (rule wp_mono) (use 1 tot in \<open>auto simp: r\<close>)
      qed
    qed
  qed
qed

text \<open>
  C20: Over whatever samples the workers left, the report of a tcp_rr run never reads outside an
  array. It prints the sum of the threads' transactions; with two samples or more the throughput is
  the number of transactions, summed over all flows from the latest sample of each, since the first
  sample of all, per second between the first and the last sample (not a number when they were taken
  at the same time).
\<close>

theorem rr_report_reference:
  assumes "\<forall>i<length threads. \<forall>s\<in>set (t_samples (threads ! i)). s_tid s = int i \<and> 0 \<le> s_flow_id s
      \<and> (\<exists>lat. s_latency s = Some lat \<and> numlist_ok lat)"
  shows "wp (report_stats opts threads w) (\<lambda>_ w'. \<exists>out.
    w_out w' = w_out w @ (''num_transactions'', PULong (\<Sum>t\<leftarrow>threads. t_transactions t)) # out
    \<and> (case collect_samples threads of
        [] \<Rightarrow> out = []
      | [_] \<Rightarrow> map fst out = [''start_index'', ''end_index'', ''num_samples'']
      | first # rest \<Rightarrow>
          let D = timespec_real (s_timestamp first) (s_timestamp (last rest));
              B = flows_total s_tid s_transactions (first # rest) - s_transactions first
          in out ! 3 = (''throughput'', PDbl (ddiv (Fin (of_int (uint B))) (Fin D)))))"
  using assms by (rule report_stats_wp)

theorem rr_latency_report_witness:
  "\<exists>w'. report_latency [example_sample \<lparr>nl_head = [\<lparr>mb_size = 1, mb_data = (\<lambda>_. Fin 7)\<rparr>]\<rparr> (Timespec 1 0)]
       (options0\<lparr>client := True\<rparr>) (world0 []) = Ret () w'
     \<and> map fst (w_out w') = [''latency_min'', ''latency_max'', ''latency_mean'', ''latency_stddev'']"
proof -
  have "chosen_indices no_percentiles = []" by (simp add: chosen_indices_def no_percentiles_def filter_empty_conv)
  then show ?thesis
    using rr_latency_report [of "options0\<lparr>client := True\<rparr>"
        "[example_sample \<lparr>nl_head = [\<lparr>mb_size = 1, mb_data = (\<lambda>_. Fin 7)\<rparr>]\<rparr> (Timespec 1 0)]" "world0 []"]
    by (auto simp: example_sample_def options0_def numlist_ok_def block_ok_def MEMBLOCK_SIZE_def)
qed

lemma four_samples_transactions: "flows_total s_tid s_transactions four_samples = 2"
proof -
  have "{(0, 0), (1, 0), (0, 0), (1, 0)} = {(0, 0), (1 :: int, 0 :: int)}" by auto
  then show ?thesis by (simp add: four_samples_def example_sample_def flows_total_def latest_def)
qed

theorem rr_report_reference_witness:
  "wp (report_stats options0 two_threads (world0 [])) (\<lambda>_ w'. w_out w' ! 4 = (''throughput'', PDbl (Fin 1)))"
proof -
  have "\<forall>i<length two_threads. \<forall>s\<in>set (t_samples (two_threads ! i)). s_tid s = int i \<and> 0 \<le> s_flow_id s
      \<and> (\<exists>lat. s_latency s = Some lat \<and> numlist_ok lat)"
    by (auto simp: two_threads_def example_sample_def less_Suc_eq)
  note run = rr_report_reference [OF this, of options0 "world0 []"]
  obtain first second rest where s: "four_samples = first # second # rest" by (simp add: four_samples_def)
  have "timespec_real (s_timestamp first) (s_timestamp (last (second # rest))) = 1" "s_transactions first = 1"
    using s by (auto simp: four_samples_def example_sample_def timespec_real_def)
  with run show ?thesis
    using four_samples_transactions by (auto simp: two_threads_collected s Let_def elim!: wp_mono)
qed

end
