(* ===== verification/TcpStream.thy ===== *)
theory TcpStream
  imports Streams
begin

text \<open>
  \<open>tcp_stream.c\<close>, the worker side: bulk transfer over TCP, level or edge triggered. The loops of the
  edge-triggered mode (\<open>goto read_again\<close>, \<open>goto write_again\<close>) are recursive functions; every round
  uses up an answer of the kernel, which is why they terminate.
\<close>

section \<open>Processing one event\<close>

definition server_accept :: "options \<Rightarrow> fd \<Rightarrow> fd \<Rightarrow> thread \<Rightarrow> world \<Rightarrow> thread outcome" where
  "server_accept opts fd_listen epfd t w =
     obind (sys (CAccept fd_listen) w) (\<lambda>r w.
       if r_ret r = -1
       then Ret t (if w_errno w = EINTR \<or> w_errno w = ECONNABORTED then w else LOG_ERROR ''accept'' w)
       else obind (setup_connected_socket (r_ret r) opts w) (\<lambda>_ w.
         obind (addflow epfd (r_ret r) (t_next_flow_id t) (epoll_events opts)
                  (t\<lparr>t_next_flow_id := t_next_flow_id t + 1\<rparr>) w) (\<lambda>(p, t) w.
           with_flow p t w (\<lambda>f.
             Ret (put_flow p (f\<lparr>f_itv := Some (interval_create (interval_secs opts))\<rparr>) t) w))))"

text \<open>A \<open>None\<close> result is the C code's \<open>continue\<close>: the event is finished.\<close>

function read_again :: "options \<Rightarrow> fd \<Rightarrow> int \<Rightarrow> ptr \<Rightarrow> flow \<Rightarrow> thread \<Rightarrow> world \<Rightarrow> (flow option \<times> thread) outcome" where
  "read_again opts epfd buf_len p f t w =
     obind (do_read (t_script t) (f_fd f) buf_len (buffer_size opts) 0 w) (\<lambda>res w. case res of (ss, num_bytes) \<Rightarrow>
       let t = t\<lparr>t_script := ss\<rparr> in
       if num_bytes = -1 then Ret (None, put_flow p f t) (log_unless_eagain ''read'' w)
       else if num_bytes = 0 then obind (delflow epfd p t w) (\<lambda>t w. Ret (None, t) w)
       else let f = f\<lparr>f_bytes_read := f_bytes_read f + num_bytes, f_transactions := f_transactions f + 1\<rparr>
         in obind (interval_collect f t w) (\<lambda>res w. case res of (f, t) \<Rightarrow>
            if edge_trigger opts then read_again opts epfd buf_len p f t w else Ret (Some f, t) w))"
  by pat_completeness auto
termination
  by (relation "measure (\<lambda>(opts, epfd, buf_len, p, f, t, w). length (w_inputs w))")
    (auto dest!: transfer_less collect_le)

function write_again :: "options \<Rightarrow> int \<Rightarrow> flow \<Rightarrow> thread \<Rightarrow> world \<Rightarrow> (flow option \<times> thread) outcome" where
  "write_again opts buf_len f t w =
     obind (do_write (t_script t) (f_fd f) buf_len (buffer_size opts) 0 w) (\<lambda>res w. case res of (ss, num_bytes) \<Rightarrow>
       let t = t\<lparr>t_script := ss\<rparr> in
       if num_bytes = -1 then Ret (None, t) (log_unless_eagain ''write'' w)
       else obind (only_if (delay opts \<noteq> 0) (\<lambda>w.
              obind (sys (CNanosleep (Timespec (int (delay opts) div 1000000000) (int (delay opts) mod 1000000000))) w)
                (\<lambda>_ w. Ret () w)) w) (\<lambda>_ w.
            if edge_trigger opts then write_again opts buf_len f t w else Ret (Some f, t) w))"
  by pat_completeness auto
termination
  by (relation "measure (\<lambda>(opts, buf_len, f, t, w). length (w_inputs w))")
    (auto dest!: transfer_less sys_inputs_less simp: only_if_def obind_eq_Ret split: if_splits)

declare read_again.simps [simp del] write_again.simps [simp del]

definition readerr :: "options \<Rightarrow> int \<Rightarrow> flow \<Rightarrow> thread \<Rightarrow> world \<Rightarrow> thread outcome" where
  "readerr opts buf_len f t w =
     obind (do_readerr (t_script t) (f_fd f) buf_len (buffer_size opts) 0 w) (\<lambda>(ss, num_bytes) w.
       Ret (t\<lparr>t_script := ss\<rparr>) (if num_bytes = -1 then log_unless_eagain ''readerr'' w else w))"

text \<open>The blocks of an event in their order; each may finish it.\<close>

definition stream_event :: event_step where
  "stream_event opts epfd fd_listen buf_len f e t w =
     (let p = ev_ptr e in
      if f_fd f = fd_listen then server_accept opts fd_listen epfd t w
      else if has_event (ev_events e) EPOLLRDHUP then delflow epfd p t w
      else obind (if enable_read opts \<and> has_event (ev_events e) EPOLLIN
                  then read_again opts epfd buf_len p f t w else Ret (Some f, t) w) (\<lambda>(live, t) w.
        case live of None \<Rightarrow> Ret t w
        | Some f \<Rightarrow>
            let t = put_flow p f t in
            obind (if enable_write opts \<and> has_event (ev_events e) EPOLLOUT
                   then write_again opts buf_len f t w else Ret (Some f, t) w) (\<lambda>(live, t) w.
              case live of None \<Rightarrow> Ret t w
              | Some f \<Rightarrow> if has_event (ev_events e) EPOLLERR then readerr opts buf_len f t w else Ret t w)))"

definition worker_thread :: "options \<Rightarrow> thread \<Rightarrow> world \<Rightarrow> thread outcome" where
  "worker_thread opts t w =
     obind (reset_port (t_ai t) (atoi (port opts)) w) (\<lambda>ai w.
       if client opts then run_client opts tcp_socket_ops stream_event (t\<lparr>t_ai := ai\<rparr>) w
       else run_server opts tcp_socket_ops stream_event (t\<lparr>t_ai := ai\<rparr>) w)"

section \<open>The blocks of an event\<close>

lemma read_again_wp:
  assumes v: "stream_valid opts" and listen: "listen = -1 \<or> f_fd f0 \<noteq> listen"
    and at: "at_event (stream_ok 1 opts plain) (stream_sample 1 opts plain) s plain epfd p f0 m t0 w0"
    and mid: "midway (stream_ok 1 opts plain) (stream_sample 1 opts plain) s plain epfd p f0 t0 w0 f t w"
    and Q1: "\<And>t' w'. step_post (stream_ok 1 opts plain) (stream_sample 1 opts plain) s plain epfd listen p t0 w0 t' w' \<Longrightarrow>
      Q (None, t') w'"
    and Q2: "\<And>f' t' w'. midway (stream_ok 1 opts plain) (stream_sample 1 opts plain) s plain epfd p f0 t0 w0 f' t' w' \<Longrightarrow>
      Q (Some f', t') w'"
  shows "wp (read_again opts epfd (uint (buf_size opts)) p f t w) Q"
  using mid
proof (induction "length (w_inputs w)" arbitrary: f t w rule: less_induct)
  case less
  have len: "0 \<le> buffer_size opts" "buffer_size opts \<le> uint (buf_size opts)"
    using v by (simp_all add: stream_buffer) (simp add: stream_valid_def)
  show ?case
    unfolding read_again.simps [of opts epfd _ p f t w] wp_obind
  proof (rule wp_remember, rule midway_transfer(1) [OF less.prems len], clarsimp simp: Let_def wp_if, intro conjI impI, goal_cases)
    case (1 ss k w1)
    then show ?case by (auto intro!: Q1 midway_put [OF at])
  next
    case (2 ss k w1)
    then show ?case by (auto intro!: wp_mono [OF midway_del [OF at 2(1) listen]] Q1)
  next
    case (3 ss k w1)
    have dec: "length (w_inputs w1) < length (w_inputs w)" using transfer_less(1) [OF 3(4)] .
    show ?case
    proof (rule wp_remember, rule midway_counted [OF at 3(1)], goal_cases)
      case (3 f' t' w')
      then show ?case using dec by (auto simp: wp_if dest!: collect_le intro!: less.hyps Q2)
    qed (use 3 in auto)
  qed
qed

lemma write_again_wp:
  assumes v: "stream_valid opts"
    and at: "at_event (stream_ok lo opts plain) sk s plain epfd p f0 m t0 w0"
    and mid: "midway (stream_ok lo opts plain) sk s plain epfd p f0 t0 w0 f t w" "t_flows t p = Some f"
    and Q1: "\<And>t' w'. step_post (stream_ok lo opts plain) sk s plain epfd listen p t0 w0 t' w' \<Longrightarrow> Q (None, t') w'"
    and Q2: "\<And>t' w'. midway (stream_ok lo opts plain) sk s plain epfd p f0 t0 w0 f t' w' \<Longrightarrow> t_flows t' p = Some f \<Longrightarrow>
      Q (Some f, t') w'"
  shows "wp (write_again opts (uint (buf_size opts)) f t w) Q"
  using mid
proof (induction "length (w_inputs w)" arbitrary: t w rule: less_induct)
  case less
  have len: "0 \<le> buffer_size opts" "buffer_size opts \<le> uint (buf_size opts)"
    using v by (simp_all add: stream_buffer) (simp add: stream_valid_def)
  let ?pause = "\<lambda>w. obind (sys (CNanosleep (Timespec (int (delay opts) div 1000000000) (int (delay opts) mod 1000000000))) w)
    (\<lambda>_ w. Ret () w)"
  have pause: "quietly w (only_if (delay opts \<noteq> 0) ?pause w)" for w
    by (auto intro!: quiet_intros)
  show ?case
    unfolding write_again.simps [of opts _ f t w] wp_obind
  proof (rule wp_remember, rule midway_transfer(2) [OF less.prems(1) len], clarsimp simp: Let_def wp_if, intro conjI impI, goal_cases)
    case (1 ss k w1)
    let ?t = "t\<lparr>t_script := ss\<rparr>"
    have "put_flow p f ?t = ?t" using less.prems(2) by (simp add: put_flow_def fun_upd_idem)
    with midway_put [OF at 1(1), of listen] show ?case by (auto intro!: Q1)
  next
    case (2 ss k w1)
    have dec: "length (w_inputs w1) < length (w_inputs w)" using transfer_less(2) [OF 2(4)] .
    show ?case
    proof (rule quietly_wp [OF pause [simplified]], goal_cases)
      case (1 a w2)
      have "length (w_inputs w2) \<le> length (w_inputs w1)" using quiet_extends [OF 1(2)] by (rule extends_inputs_length)
      with dec midway_quiet [OF 2(1) 1(2)] less.prems(2) show ?case
        by (auto simp: wp_if intro!: less.hyps Q2)
    qed
  qed
qed

lemma readerr_wp:
  assumes v: "stream_valid opts"
    and at: "at_event (stream_ok lo opts plain) sk s plain epfd p f0 m t0 w0"
    and mid: "midway (stream_ok lo opts plain) sk s plain epfd p f0 t0 w0 f t w" "t_flows t p = Some f"
  shows "wp (readerr opts (uint (buf_size opts)) f t w) (step_post (stream_ok lo opts plain) sk s plain epfd listen p t0 w0)"
proof -
  have len: "0 \<le> buffer_size opts" "buffer_size opts \<le> uint (buf_size opts)"
    using v by (simp_all add: stream_buffer) (simp add: stream_valid_def)
  have "put_flow p f (t\<lparr>t_script := ss\<rparr>) = t\<lparr>t_script := ss\<rparr>" for ss
    using mid(2) by (simp add: put_flow_def fun_upd_idem)
  then show ?thesis
    unfolding readerr_def wp_obind
    by (intro midway_transfer(3) [OF mid(1) len]) (auto dest: midway_put [OF at, where listen = listen])
qed

lemma stream_accept_wp:
  assumes v: "worker_opts s opts" and at: "at_event (stream_ok lo opts plain) sk s plain epfd p f m t w"
  shows "wp (server_accept opts listen epfd t w) (step_post (stream_ok lo opts plain) sk s plain epfd listen p t w)"
proof -
  from at have inv: "winv (stream_ok lo opts plain) sk s plain epfd {} t w" by (simp add: at_event_def)
  note upd = new_flow_wp [where upd = "new_flow opts" and events = "epoll_events opts", unfolded new_flow_def]
  show ?thesis
    unfolding server_accept_def wp_obind
  proof (rule winv_sys [OF inv], simp, goal_cases)
    case (1 r w1)
    have err: "step_post (stream_ok lo opts plain) sk s plain epfd listen p t w t w1"
      by (rule step_accept [OF at 1(2) quiet_extends [OF 1(3)]]) auto
    have "wp (setup_connected_socket (r_ret r) opts w1) (\<lambda>_ w2.
      wp (obind (addflow epfd (r_ret r) (t_next_flow_id t) (epoll_events opts) (t\<lparr>t_next_flow_id := t_next_flow_id t + 1\<rparr>) w2)
        (\<lambda>(p, t) w. with_flow p t w (\<lambda>f. Ret (put_flow p (f\<lparr>f_itv := Some (interval_create (interval_secs opts))\<rparr>) t) w)))
       (step_post (stream_ok lo opts plain) sk s plain epfd listen p t w))"
    proof (rule winv_quietly [OF 1(2) quiet_setup_connected_socket], rule wp_mono, rule upd, assumption, goal_cases)
      case (3 u w2 t' w')
      then show ?case
        using extends_trans [OF quiet_extends [OF 1(3)] extends_trans [OF quiet_extends [OF 3(2)]]]
        by (intro step_accept [OF at]) auto
    qed (use stream_ok_new(1) [unfolded new_flow_def] measured_new [OF v] in auto)
    with err show ?case by (simp add: wp_if)
  qed
qed

section \<open>One event\<close>

lemma stream_event_wp:
  assumes v: "stream_valid opts" "worker_opts s opts"
    and at: "at_event (stream_ok 1 opts plain) (stream_sample 1 opts plain) s plain epfd (ev_ptr e) f m t w"
  shows "wp (stream_event opts epfd listen (uint (buf_size opts)) f e t w)
    (step_post (stream_ok 1 opts plain) (stream_sample 1 opts plain) s plain epfd listen (ev_ptr e) t w)"
proof (cases "f_fd f = listen")
  case True
  then show ?thesis by (simp add: stream_event_def Let_def stream_accept_wp [OF v(2) at])
next
  case listen: False
  let ?p = "ev_ptr e"
  let ?mid = "midway (stream_ok 1 opts plain) (stream_sample 1 opts plain) s plain epfd ?p f t w"
  let ?post = "step_post (stream_ok 1 opts plain) (stream_sample 1 opts plain) s plain epfd listen ?p t w"
  have start: "?mid f t w" by (rule midway_start [OF at])
  have err: "wp (if has_event (ev_events e) EPOLLERR then readerr opts (uint (buf_size opts)) g t' w' else Ret t' w') ?post"
    if "?mid g t' w'" "t_flows t' ?p = Some g" for g t' w'
  proof -
    have "put_flow ?p g t' = t'" using that(2) by (simp add: put_flow_def fun_upd_idem)
    with midway_put [OF at that(1), of listen] readerr_wp [OF v(1) at that, of listen] show ?thesis by simp
  qed
  have out: "wp (obind (if enable_write opts \<and> has_event (ev_events e) EPOLLOUT
        then write_again opts (uint (buf_size opts)) g (put_flow ?p g t') w' else Ret (Some g, put_flow ?p g t') w') (\<lambda>(live, t) w.
      case live of None \<Rightarrow> Ret t w
      | Some f \<Rightarrow> if has_event (ev_events e) EPOLLERR then readerr opts (uint (buf_size opts)) f t w else Ret t w)) ?post"
    if "?mid g t' w'" for g t' w'
    using midway_stored [OF that] err
    by (auto simp: wp_if intro!: write_again_wp [OF v(1) at, where listen = listen])
  have inp: "wp (obind (if enable_read opts \<and> has_event (ev_events e) EPOLLIN
        then read_again opts epfd (uint (buf_size opts)) ?p f t w else Ret (Some f, t) w) (\<lambda>(live, t) w.
      case live of None \<Rightarrow> Ret t w
      | Some f \<Rightarrow> let t = put_flow ?p f t in
          obind (if enable_write opts \<and> has_event (ev_events e) EPOLLOUT
            then write_again opts (uint (buf_size opts)) f t w else Ret (Some f, t) w) (\<lambda>(live, t) w.
            case live of None \<Rightarrow> Ret t w
            | Some f \<Rightarrow> if has_event (ev_events e) EPOLLERR then readerr opts (uint (buf_size opts)) f t w else Ret t w))) ?post"
    unfolding wp_obind [of "if enable_read opts \<and> _ then _ else _"] Let_def
    using out [OF start] out listen
    by (auto simp: wp_if simp del: wp_obind intro!: read_again_wp [OF v(1) _ at start])
  show ?thesis
    using listen midway_del [OF at start, of listen] inp
    unfolding stream_event_def Let_def by (simp only: if_False if_True wp_if simp_thms)
qed

interpretation tcp_stream: event_handler stream_event "\<lambda>_. True" stream_valid "stream_ok 1" "stream_sample 1"
proof unfold_locales
  show "lat_ok f" if "stream_ok 1 opts plain m f" for opts plain m f
    using that by (simp add: stream_ok_def)
qed (auto intro: stream_event_wp stream_ok_new)

section \<open>Properties\<close>

lemma tcp_worker_wp:
  assumes "stream_valid opts" "worker_opts s opts" "fresh_thread plain t w"
  shows "wp (worker_thread opts t w) (\<lambda>t' w'. t_index t' = t_index t
    \<and> (\<forall>smp\<in>set (t_samples t'). s_tid smp = t_index t \<and> stream_sample 1 opts plain smp))"
  unfolding worker_thread_def wp_obind
proof (rule fresh_quietly [OF assms(3) quiet_reset_port], goal_cases)
  case (1 ai w1)
  then have "fresh_thread plain (t\<lparr>t_ai := ai\<rparr>) w1" by (simp add: fresh_thread_def)
  from tcp_stream.run_client_wp [OF TrueI assms(1,2) tcp.socket_provider_axioms this]
    tcp_stream.run_server_wp [OF TrueI assms(1,2) tcp.socket_provider_axioms this]
  show ?case by (auto elim!: wp_mono)
qed

text \<open>
  C2: A tcp_stream worker, client or server, level or edge triggered, is memory safe on every kernel
  that keeps its contract, and the samples it leaves carry its index, a flow id and a latency list;
  without a script, the number of transactions of a sample bounds its bytes: at least one and at most
  a buffer for each.
\<close>

theorem tcp_stream_worker:
  assumes "stream_valid opts" "worker_opts s opts" "fresh_thread plain t w"
  shows "wp (worker_thread opts t w) (\<lambda>t' w'. t_index t' = t_index t
    \<and> (\<forall>smp\<in>set (t_samples t'). s_tid smp = t_index t \<and> stream_sample 1 opts plain smp))"
  using assms by (rule tcp_worker_wp)

definition stream_opts0 :: options where
  "stream_opts0 = options0\<lparr>num_flows := 2, num_threads := 1, maxevents := 10, buffer_size := 16384,
     interval_secs := Fin 1, port := ''12867'', enable_read := True, enable_write := True, edge_trigger := True\<rparr>"

theorem tcp_stream_worker_witness:
  "wp (worker_thread stream_opts0 thread0 (world0 (replicate 50 (honestly posix_ok (\<lambda>_ _. resp0)))))
     (\<lambda>t' w'. t_index t' = t_index thread0
       \<and> (\<forall>smp\<in>set (t_samples t'). s_tid smp = t_index thread0 \<and> stream_sample 1 stream_opts0 True smp))"
  by (rule tcp_stream_worker [where s = "Fin 1"])
    (auto simp: stream_opts0_def options0_def stream_valid_def worker_opts_def rto_ok_def fresh_thread_def thread0_def
      slave0_def no_hooks_def answers_ok_def honestly_posix_ok normalized_def)

lemma edge_read_finishes:
  "edge_trigger opts \<Longrightarrow> read_again opts epfd buf_len p f t w = Ret (live, t') w' \<Longrightarrow> live = None"
proof (induction "length (w_inputs w)" arbitrary: f t w rule: less_induct)
  case less
  from less.prems obtain ss k w1 where r: "do_read (t_script t) (f_fd f) buf_len (buffer_size opts) 0 w = Ret (ss, k) w1"
    and c: "(let t = t\<lparr>t_script := ss\<rparr> in
       if k = -1 then Ret (None, put_flow p f t) (log_unless_eagain ''read'' w1)
       else if k = 0 then obind (delflow epfd p t w1) (\<lambda>t w. Ret (None, t) w)
       else let f = f\<lparr>f_bytes_read := f_bytes_read f + k, f_transactions := f_transactions f + 1\<rparr>
         in obind (interval_collect f t w1) (\<lambda>res w. case res of (f, t) \<Rightarrow>
            if edge_trigger opts then read_again opts epfd buf_len p f t w else Ret (Some f, t) w)) = Ret (live, t') w'"
    by (subst (asm) read_again.simps) (auto simp: obind_eq_Ret)
  show ?case
  proof (cases "k = -1 \<or> k = 0")
    case True
    with c show ?thesis by (auto simp: Let_def obind_eq_Ret)
  next
    case False
    with c less.prems(1) obtain f2 t2 w2 where
      "interval_collect (counted k f) (t\<lparr>t_script := ss\<rparr>) w1 = Ret (f2, t2) w2"
      "read_again opts epfd buf_len p f2 t2 w2 = Ret (live, t') w'"
      by (auto simp: Let_def obind_eq_Ret)
    with less.hyps [of w2 f2 t2] less.prems(1) transfer_less(1) [OF r] collect_le show ?thesis by fastforce
  qed
qed

text \<open>
  C18: Edge triggered, an event that makes a flow readable is over when the reading is: the write
  block and the error queue block of the same event never run, although the kernel will not report
  that edge again.
\<close>

theorem edge_read_is_all:
  assumes "edge_trigger opts" "enable_read opts" "has_event (ev_events e) EPOLLIN"
    and "\<not> has_event (ev_events e) EPOLLRDHUP" "f_fd f \<noteq> fd_listen"
  shows "stream_event opts epfd fd_listen buf_len f e t w
    = obind (read_again opts epfd buf_len (ev_ptr e) f t w) (\<lambda>(_, t) w. Ret t w)"
proof -
  have "case live of None \<Rightarrow> True | Some _ \<Rightarrow> False"
    if "read_again opts epfd buf_len (ev_ptr e) f t w = Ret (live, t') w'" for live t' w'
    using edge_read_finishes [OF assms(1) that] by simp
  then show ?thesis
    using assms by (auto simp: stream_event_def Let_def intro!: obind_cong split: option.splits)
qed

theorem edge_read_is_all_witness:
  "stream_event stream_opts0 4 9 16384 (made_flow 5 0) \<lparr>ev_events = 5, ev_ptr = 0\<rparr> thread0 (world0 [])
    = obind (read_again stream_opts0 4 16384 0 (made_flow 5 0) thread0 (world0 [])) (\<lambda>(_, t) w. Ret t w)"
proof -
  have "has_event 5 EPOLLIN" "\<not> has_event 5 EPOLLRDHUP" by (simp_all add: has_event_def)
  then show ?thesis
    using edge_read_is_all [of stream_opts0 "\<lparr>ev_events = 5, ev_ptr = 0\<rparr>" "made_flow 5 0" 9]
    by (simp add: stream_opts0_def)
qed

end
