(* ===== verification/UdpStream.thy ===== *)
theory UdpStream
  imports Streams
begin

text \<open>
  \<open>udp_stream.c\<close>: the worker side of the stream test over connected UDP sockets. Its three loops
  (\<open>goto read_again\<close>, \<open>goto write_again\<close>, \<open>goto readerr_again\<close>) differ in the transfer they repeat
  and in whether it is counted; written datagrams are counted as bytes read, too.
\<close>

section \<open>Processing one event\<close>

datatype direction = Reading | Writing | Reading_errors

fun do_transfer :: "direction \<Rightarrow> script_slave \<Rightarrow> fd \<Rightarrow> int \<Rightarrow> int \<Rightarrow> int \<Rightarrow> world \<Rightarrow> (script_slave \<times> int) outcome" where
  "do_transfer Reading = do_read"
| "do_transfer Writing = do_write"
| "do_transfer Reading_errors = do_readerr"

fun direction_name :: "direction \<Rightarrow> string" where
  "direction_name Reading = ''read''"
| "direction_name Writing = ''write''"
| "direction_name Reading_errors = ''readerr''"

definition count_transfer :: "direction \<Rightarrow> int \<Rightarrow> flow \<Rightarrow> thread \<Rightarrow> world \<Rightarrow> (flow \<times> thread) outcome" where
  "count_transfer dir num_bytes f t w =
     (if dir = Reading_errors then Ret (f, t) w
      else interval_collect (f\<lparr>f_bytes_read := f_bytes_read f + num_bytes, f_transactions := f_transactions f + 1\<rparr>) t w)"

text \<open>A \<open>None\<close> result is the C code's \<open>continue\<close>: the event is finished.\<close>

function transfer_again :: "direction \<Rightarrow> options \<Rightarrow> int \<Rightarrow> ptr \<Rightarrow> flow \<Rightarrow> thread \<Rightarrow> world \<Rightarrow> (flow option \<times> thread) outcome" where
  "transfer_again dir opts buf_len p f t w =
     obind (do_transfer dir (t_script t) (f_fd f) buf_len (buffer_size opts) 0 w) (\<lambda>res w. case res of (ss, num_bytes) \<Rightarrow>
       let t = t\<lparr>t_script := ss\<rparr> in
       if num_bytes = -1 then Ret (None, put_flow p f t) (log_unless_eagain (direction_name dir) w)
       else obind (count_transfer dir num_bytes f t w) (\<lambda>res w. case res of (f, t) \<Rightarrow>
         if edge_trigger opts then transfer_again dir opts buf_len p f t w else Ret (Some f, t) w))"
  by pat_completeness auto

lemma do_transfer_less:
  "do_transfer dir ss fd buf_len len flags w = Ret (ss', k) w' \<Longrightarrow> length (w_inputs w') < length (w_inputs w)"
  by (cases dir) (auto dest: transfer_less)

lemma count_transfer_le: "count_transfer dir k f t w = Ret r w' \<Longrightarrow> length (w_inputs w') \<le> length (w_inputs w)"
  by (cases r) (auto simp: count_transfer_def dest: collect_le split: if_splits)

termination transfer_again
  by (relation "measure (\<lambda>(dir, opts, buf_len, p, f, t, w). length (w_inputs w))")
    (auto dest!: do_transfer_less count_transfer_le)

declare transfer_again.simps [simp del]

text \<open>One block of the event: skipped when its condition is false or the event is already finished.\<close>

definition event_block :: "bool \<Rightarrow> direction \<Rightarrow> options \<Rightarrow> int \<Rightarrow> ptr \<Rightarrow> flow option \<times> thread \<Rightarrow> world \<Rightarrow>
    (flow option \<times> thread) outcome" where
  "event_block on dir opts buf_len p r w = (case r of (None, t) \<Rightarrow> Ret (None, t) w
     | (Some f, t) \<Rightarrow> if on then transfer_again dir opts buf_len p f t w else Ret (Some f, t) w)"

definition udp_event :: event_step where
  "udp_event opts epfd fd_listen buf_len f e t w =
     (let p = ev_ptr e; evs = ev_events e in
      obind (event_block (enable_read opts \<and> has_event evs EPOLLIN) Reading opts buf_len p (Some f, t) w) (\<lambda>r w.
      obind (event_block (enable_write opts \<and> has_event evs EPOLLOUT) Writing opts buf_len p r w) (\<lambda>r w.
      obind (event_block (has_event evs EPOLLERR) Reading_errors opts buf_len p r w) (\<lambda>(live, t) w.
        Ret (case live of None \<Rightarrow> t | Some f \<Rightarrow> put_flow p f t) w))))"

definition worker_thread :: "options \<Rightarrow> thread \<Rightarrow> world \<Rightarrow> thread outcome" where
  "worker_thread opts t w =
     (let port_off = (if reuseport opts then 0 else t_index t) in
      obind (reset_port (t_ai t) (atoi (port opts) + port_off) w) (\<lambda>ai w.
       if client opts then run_client opts udp_socket_ops udp_event (t\<lparr>t_ai := ai\<rparr>) w
       else run_server opts udp_socket_ops udp_event (t\<lparr>t_ai := ai\<rparr>) w))"

section \<open>One event\<close>

lemma transfer_again_wp:
  assumes v: "stream_valid opts"
    and at: "at_event (stream_ok 0 opts plain) (stream_sample 0 opts plain) s plain epfd p f0 m t0 w0"
    and mid: "midway (stream_ok 0 opts plain) (stream_sample 0 opts plain) s plain epfd p f0 t0 w0 f t w"
    and Q1: "\<And>t' w'. step_post (stream_ok 0 opts plain) (stream_sample 0 opts plain) s plain epfd listen p t0 w0 t' w' \<Longrightarrow>
      Q (None, t') w'"
    and Q2: "\<And>f' t' w'. midway (stream_ok 0 opts plain) (stream_sample 0 opts plain) s plain epfd p f0 t0 w0 f' t' w' \<Longrightarrow>
      Q (Some f', t') w'"
  shows "wp (transfer_again dir opts (uint (buf_size opts)) p f t w) Q"
  using mid
proof (induction "length (w_inputs w)" arbitrary: f t w rule: less_induct)
  case less
  have len: "0 \<le> buffer_size opts" "buffer_size opts \<le> uint (buf_size opts)"
    using v by (simp_all add: stream_buffer) (simp add: stream_valid_def)
  have tr: "wp (do_transfer dir (t_script t) (f_fd f) (uint (buf_size opts)) (buffer_size opts) 0 w) P"
    if "\<And>ss k w'. midway (stream_ok 0 opts plain) (stream_sample 0 opts plain) s plain epfd p f0 t0 w0 f (t\<lparr>t_script := ss\<rparr>) w' \<Longrightarrow>
      -1 \<le> k \<Longrightarrow> (plain \<Longrightarrow> k \<le> buffer_size opts) \<Longrightarrow> P (ss, k) w'" for P
    using midway_transfer(1) [OF less.prems len, where Q = P] midway_transfer(2) [OF less.prems len, where Q = P]
      midway_transfer(3) [OF less.prems len, where Q = P] that by (cases dir) auto
  show ?case
    unfolding transfer_again.simps [of dir opts _ p f t w] wp_obind
  proof (rule wp_remember, rule tr, clarsimp simp: Let_def wp_if, intro conjI impI, goal_cases)
    case (1 ss k w1)
    then show ?case by (auto intro!: Q1 midway_put [OF at])
  next
    case (2 ss k w1)
    have dec: "length (w_inputs w1) < length (w_inputs w)" using do_transfer_less [OF 2(4)] .
    have count: "wp (count_transfer dir k f (t\<lparr>t_script := ss\<rparr>) w1) P"
      if "\<And>f' t' w'. midway (stream_ok 0 opts plain) (stream_sample 0 opts plain) s plain epfd p f0 t0 w0 f' t' w' \<Longrightarrow> P (f', t') w'" for P
      unfolding count_transfer_def wp_if wp_basic using 2(1-3,5) that by (auto intro!: midway_counted [OF at 2(1)])
    show ?case
    proof (rule wp_remember, rule count, goal_cases)
      case (1 f' t' w')
      then show ?case using dec by (auto simp: wp_if dest!: count_transfer_le intro!: less.hyps Q2)
    qed
  qed
qed

lemma udp_event_wp:
  assumes v: "stream_valid opts"
    and at: "at_event (stream_ok 0 opts plain) (stream_sample 0 opts plain) s plain epfd (ev_ptr e) f m t w"
  shows "wp (udp_event opts epfd listen (uint (buf_size opts)) f e t w)
    (step_post (stream_ok 0 opts plain) (stream_sample 0 opts plain) s plain epfd listen (ev_ptr e) t w)"
proof -
  let ?p = "ev_ptr e"
  let ?mid = "midway (stream_ok 0 opts plain) (stream_sample 0 opts plain) s plain epfd ?p f t w"
  let ?post = "step_post (stream_ok 0 opts plain) (stream_sample 0 opts plain) s plain epfd listen ?p t w"
  let ?inv = "\<lambda>(live, t') w'. case live of None \<Rightarrow> ?post t' w' | Some f' \<Rightarrow> ?mid f' t' w'"
  have block: "wp (event_block on dir opts (uint (buf_size opts)) ?p r w') ?inv" if "?inv r w'" for on dir r w'
    using that unfolding event_block_def
    by (auto split: option.splits intro!: transfer_again_wp [OF v at, where listen = listen])
  have start: "?inv (Some f, t) w" using midway_start [OF at] by simp
  have last: "?post (case live of None \<Rightarrow> t' | Some g \<Rightarrow> put_flow ?p g t') w'" if "?inv (live, t') w'" for live t' w'
    using that by (auto split: option.splits intro: midway_put [OF at])
  show ?thesis
    unfolding udp_event_def Let_def wp_obind
    by (rule wp_mono [OF block [OF start]], rule wp_mono [OF block], assumption, rule wp_mono [OF block], assumption)
      (use last in auto)
qed

interpretation udp_stream: event_handler udp_event "\<lambda>_. True" stream_valid "stream_ok 0" "stream_sample 0"
proof unfold_locales
  show "lat_ok f" if "stream_ok 0 opts plain m f" for opts plain m f
    using that by (simp add: stream_ok_def)
qed (auto intro: udp_event_wp stream_ok_new)

section \<open>Properties\<close>

lemma udp_worker_wp:
  assumes "stream_valid opts" "worker_opts s opts" "fresh_thread plain t w"
  shows "wp (worker_thread opts t w) (\<lambda>t' w'. t_index t' = t_index t
    \<and> (\<forall>smp\<in>set (t_samples t'). s_tid smp = t_index t \<and> stream_sample 0 opts plain smp))"
  unfolding worker_thread_def wp_obind Let_def
proof (rule fresh_quietly [OF assms(3) quiet_reset_port], goal_cases)
  case (1 ai w1)
  then have "fresh_thread plain (t\<lparr>t_ai := ai\<rparr>) w1" by (simp add: fresh_thread_def)
  from udp_stream.run_client_wp [OF TrueI assms(1,2) udp.socket_provider_axioms this]
    udp_stream.run_server_wp [OF TrueI assms(1,2) udp.socket_provider_axioms this]
  show ?case by (auto elim!: wp_mono)
qed

text \<open>
  C3: A udp_stream worker, client or server, is memory safe on every kernel that keeps its contract,
  and the samples it leaves carry its index, a flow id and a latency list; without a script, a
  sample's bytes are at most a buffer for each of its transactions.
\<close>

theorem udp_stream_worker:
  assumes "stream_valid opts" "worker_opts s opts" "fresh_thread plain t w"
  shows "wp (worker_thread opts t w) (\<lambda>t' w'. t_index t' = t_index t
    \<and> (\<forall>smp\<in>set (t_samples t'). s_tid smp = t_index t \<and> stream_sample 0 opts plain smp))"
  using assms by (rule udp_worker_wp)

definition udp_opts0 :: options where
  "udp_opts0 = options0\<lparr>num_flows := 2, num_threads := 1, maxevents := 10, buffer_size := 16384,
     interval_secs := Fin 1, port := ''12867'', enable_read := True, client := True\<rparr>"

theorem udp_stream_worker_witness:
  "wp (worker_thread udp_opts0 thread0 (world0 (replicate 50 (honestly posix_ok (\<lambda>_ _. resp0)))))
     (\<lambda>t' w'. t_index t' = t_index thread0
       \<and> (\<forall>smp\<in>set (t_samples t'). s_tid smp = t_index thread0 \<and> stream_sample 0 udp_opts0 True smp))"
  by (rule udp_stream_worker [where s = "Fin 1"])
    (auto simp: udp_opts0_def options0_def stream_valid_def worker_opts_def rto_ok_def fresh_thread_def thread0_def
      slave0_def no_hooks_def answers_ok_def honestly_posix_ok normalized_def)

end
