(* ===== verification/Flags.thy ===== *)
theory Flags
  imports Common
begin

text \<open>
  \<open>flags.c\<close>: the table of command line flags, its parsers and printers, and the run over the results of
  \<open>getopt_long\<close>. The variables the flags point to (fields of \<open>struct options\<close>, and the parser's own
  \<open>help\<close> and \<open>version\<close>) are a store from addresses to values; the number parsers of the C library the
  flags use are written out. \<open>getopt_long\<close> itself is a parameter, the list of its results.
\<close>

section \<open>Numbers in arguments\<close>

definition is_xdigit :: "char \<Rightarrow> bool" where
  "is_xdigit c \<longleftrightarrow> is_digit c \<or> 65 \<le> char_code c \<and> char_code c \<le> 70 \<or> 97 \<le> char_code c \<and> char_code c \<le> 102"

definition xdigit_value :: "char \<Rightarrow> int" where
  "xdigit_value c = (if is_digit c then digit_value c
     else if char_code c \<le> 70 then int (char_code c) - 55 else int (char_code c) - 87)"

definition digits_value :: "int \<Rightarrow> string \<Rightarrow> int" where
  "digits_value base ds = foldl (\<lambda>n c. n * base + xdigit_value c) 0 ds"

definition has_hex_prefix :: "string \<Rightarrow> bool" where
  "has_hex_prefix s = (case s of c # x # d # _ \<Rightarrow> c = CHR ''0'' \<and> (x = CHR ''x'' \<or> x = CHR ''X'') \<and> (is_xdigit d \<or> d = CHR ''.'')
     | _ \<Rightarrow> False)"

text \<open>\<open>strtoul(arg, NULL, 0)\<close>: the base from the prefix, a sign wraps, overflow gives \<open>ULONG_MAX\<close>.\<close>

definition strtoul0 :: "string \<Rightarrow> nat" where
  "strtoul0 s = (case split_sign (dropWhile is_space s) of (neg, t) \<Rightarrow>
     let m = (if has_hex_prefix t \<and> t ! 2 \<noteq> CHR ''.'' then digits_value 16 (takeWhile is_xdigit (drop 2 t))
              else if t \<noteq> [] \<and> hd t = CHR ''0''
              then digits_value 8 (takeWhile (\<lambda>c. is_digit c \<and> digit_value c < 8) t)
              else digits_value 10 (takeWhile is_digit t))
     in if m \<ge> 2 ^ 64 then 2 ^ 64 - 1 else nat ((if neg then - m else m) mod 2 ^ 64))"

text \<open>A mantissa in a base with its optional exponent: the value, and the rest of the text.\<close>

definition scan_mantissa :: "int \<Rightarrow> (char \<Rightarrow> bool) \<Rightarrow> string \<Rightarrow> (real \<times> string) option" where
  "scan_mantissa base dig s =
     (let ip = takeWhile dig s; r = dropWhile dig s;
          (fp, rest) = (case r of [] \<Rightarrow> ([], []) | c # cs \<Rightarrow>
            if c = CHR ''.'' then (takeWhile dig cs, dropWhile dig cs) else ([], r))
      in if ip = [] \<and> fp = [] then None
         else Some (of_int (digits_value base (ip @ fp)) / of_int base ^ length fp, rest))"

definition scan_exponent :: "char \<Rightarrow> char \<Rightarrow> real \<Rightarrow> real \<times> string \<Rightarrow> real \<times> string" where
  "scan_exponent lower upper base ms = (case ms of (m, s) \<Rightarrow> (case s of
       [] \<Rightarrow> (m, s)
     | c # cs \<Rightarrow>
         if c = lower \<or> c = upper
         then case split_sign cs of (neg, ds) \<Rightarrow>
                let es = takeWhile is_digit ds; e = nat (digits_value 10 es)
                in if es = [] then (m, s)
                   else (if neg then m / base ^ e else m * base ^ e, dropWhile is_digit ds)
         else (m, s)))"

definition to_lower :: "char \<Rightarrow> char" where
  "to_lower c = (if 65 \<le> char_code c \<and> char_code c \<le> 90 then char_of (char_code c + 32) else c)"

definition begins :: "string \<Rightarrow> string \<Rightarrow> bool" where
  "begins word s \<longleftrightarrow> map to_lower (take (length word) s) = word"

text \<open>
  \<open>strtod\<close>: the value, whether \<open>errno\<close> became \<open>ERANGE\<close>, and the text at \<open>endptr\<close>. Within range the
  value is exact.
\<close>

definition strtod :: "string \<Rightarrow> double \<times> bool \<times> string" where
  "strtod s = (case split_sign (dropWhile is_space s) of (neg, t) \<Rightarrow>
     if begins ''infinity'' t then (if neg then MInf else PInf, False, drop 8 t)
     else if begins ''inf'' t then (if neg then MInf else PInf, False, drop 3 t)
     else if begins ''nan'' t then (NaN, False, drop 3 t)
     else case (if has_hex_prefix t
                then map_option (scan_exponent CHR ''p'' CHR ''P'' 2) (scan_mantissa 16 is_xdigit (drop 2 t))
                else map_option (scan_exponent CHR ''e'' CHR ''E'' 10) (scan_mantissa 10 is_digit t)) of
            None \<Rightarrow> (Fin 0, False, s)
          | Some (v, rest) \<Rightarrow>
              let v = (if neg then - v else v)
              in if 2 ^ 1024 \<le> \<bar>v\<bar> then (if v < 0 then MInf else PInf, True, rest)
                 else if v \<noteq> 0 \<and> \<bar>v\<bar> * 2 ^ 1075 < 1 then (Fin 0, True, rest)
                 else (Fin v, False, rest))"

definition atof :: "string \<Rightarrow> double" where
  "atof s = fst (strtod s)"

section \<open>Flags\<close>

datatype var = Help | Version | Field string \<comment> \<open>the address a flag points to\<close>

datatype val = VBool bool | VInt int | VString "string option" | VULong nat | VDouble double
  | VLongLong int | VPercentiles percentiles

datatype arg_kind = no_argument | required_argument | optional_argument

type_synonym flag_parser = "string option \<Rightarrow> val \<Rightarrow> world \<Rightarrow> val outcome"
type_synonym flag_printer = "string \<Rightarrow> val \<Rightarrow> world \<Rightarrow> unit outcome"

record flag =
  fl_short :: int \<comment> \<open>0 for none\<close>
  fl_long :: string
  fl_usage :: string
  fl_type :: string
  fl_name :: string
  fl_var :: var
  fl_parser :: "flag_parser option"
  fl_printer :: "flag_printer option"
  fl_has_arg :: arg_kind

record flags_parser =
  fp_flags :: "flag list" \<comment> \<open>the chain, last added first\<close>
  fp_store :: "var \<Rightarrow> val"

definition remap_long_name :: "string \<Rightarrow> string" where
  "remap_long_name remapped = map (\<lambda>c. if c = CHR ''_'' then CHR ''-'' else c) remapped"

definition flags_parser_add :: "int \<Rightarrow> string \<Rightarrow> string \<Rightarrow> string \<Rightarrow> var \<Rightarrow> flags_parser \<Rightarrow> flags_parser" where
  "flags_parser_add short_name long_name usage type variable fp =
     fp\<lparr>fp_flags := \<lparr>fl_short = short_name, fl_long = remap_long_name long_name, fl_usage = usage,
        fl_type = type, fl_name = long_name, fl_var = variable, fl_parser = None, fl_printer = None,
        fl_has_arg = (if type = ''bool'' then no_argument else required_argument)\<rparr> # fp_flags fp\<rparr>"

definition update_flags :: "var \<Rightarrow> (flag \<Rightarrow> flag) \<Rightarrow> flags_parser \<Rightarrow> flags_parser" where
  "update_flags variable f fp = fp\<lparr>fp_flags := map (\<lambda>fl. if fl_var fl = variable then f fl else fl) (fp_flags fp)\<rparr>"

definition flags_parser_set_parser :: "var \<Rightarrow> flag_parser \<Rightarrow> flags_parser \<Rightarrow> flags_parser" where
  "flags_parser_set_parser variable parser = update_flags variable (\<lambda>fl. fl\<lparr>fl_parser := Some parser\<rparr>)"

definition flags_parser_set_printer :: "var \<Rightarrow> flag_printer \<Rightarrow> flags_parser \<Rightarrow> flags_parser" where
  "flags_parser_set_printer variable printer = update_flags variable (\<lambda>fl. fl\<lparr>fl_printer := Some printer\<rparr>)"

definition flags_parser_set_no_argument :: "var \<Rightarrow> flags_parser \<Rightarrow> flags_parser" where
  "flags_parser_set_no_argument variable = update_flags variable (\<lambda>fl. fl\<lparr>fl_has_arg := no_argument\<rparr>)"

definition flags_parser_set_optional :: "var \<Rightarrow> flags_parser \<Rightarrow> flags_parser" where
  "flags_parser_set_optional variable = update_flags variable (\<lambda>fl. fl\<lparr>fl_has_arg := optional_argument\<rparr>)"

text \<open>\<open>DEFINE_FLAG\<close>: the default is stored and the flag added, named and typed by the field.\<close>

definition DEFINE_FLAG :: "string \<Rightarrow> string \<Rightarrow> val \<Rightarrow> int \<Rightarrow> string \<Rightarrow> flags_parser \<Rightarrow> flags_parser" where
  "DEFINE_FLAG type fieldname default_value short_name usage fp =
     flags_parser_add short_name fieldname usage type (Field fieldname)
       (fp\<lparr>fp_store := (fp_store fp)(Field fieldname := default_value)\<rparr>)"

definition flags_parser_create :: "(var \<Rightarrow> val) \<Rightarrow> flags_parser" where
  "flags_parser_create store =
     DEFINE_FLAG ''const char *'' ''script'' (VString None) 0 ''Lua script file to run with the workload''
       (flags_parser_add (int (char_code (CHR ''v''))) ''version'' ''Show version and exit'' ''bool'' Version
         (flags_parser_add (int (char_code (CHR ''h''))) ''help'' ''Show usage and exit'' ''bool'' Help
           \<lparr>fp_flags = [], fp_store = store(Help := VBool False, Version := VBool False)\<rparr>))"

text \<open>A NULL argument that is read is a \<open>Fault\<close>; an unknown type is an error that is logged.\<close>

definition default_parser :: "string \<Rightarrow> flag_parser" where
  "default_parser type arg old w =
     (if type = ''bool'' \<and> arg = None then Ret (VBool True) w
      else if type = ''int'' then (case arg of None \<Rightarrow> Fault w | Some s \<Rightarrow> Ret (VInt (atoi s)) w)
      else if type = ''const char *'' then Ret (VString arg) w
      else if type = ''unsigned long'' then (case arg of None \<Rightarrow> Fault w | Some s \<Rightarrow> Ret (VULong (strtoul0 s)) w)
      else if type = ''double'' then (case arg of None \<Rightarrow> Fault w | Some s \<Rightarrow> Ret (VDouble (atof s)) w)
      else Ret old (LOG_ERROR ''Unknown type for arg'' w))"

section \<open>Parsers of the options\<close>

definition kilo :: int where "kilo = 1000"
definition kibi :: int where "kibi = 1024"
definition mega :: int where "mega = 1000 * 1000"
definition mebi :: int where "mebi = 1024 * 1024"
definition giga :: int where "giga = 1000 * 1000 * 1000"
definition gibi :: int where "gibi = 1024 * 1024 * 1024"

definition conversions :: "(string \<times> real) list" where
  "conversions = [(''b'', 1 / 8), (''B'', 1), (''kb'', of_int (kilo div 8)), (''Kib'', of_int (kibi div 8)),
     (''kB'', of_int kilo), (''KiB'', of_int kibi), (''Mb'', of_int (mega div 8)), (''Mib'', of_int (mebi div 8)),
     (''MB'', of_int mega), (''MiB'', of_int mebi), (''Gb'', of_int (giga div 8)), (''Gib'', of_int (gibi div 8)),
     (''GB'', of_int giga), (''GiB'', of_int gibi)]"

text \<open>The conversion of a double to \<open>long long\<close> is undefined when it does not fit.\<close>

definition long_long_of :: "double \<Rightarrow> world \<Rightarrow> int outcome" where
  "long_long_of d w = (case d of
       Fin r \<Rightarrow> let n = (if 0 \<le> r then \<lfloor>r\<rfloor> else \<lceil>r\<rceil>)
               in if - (2 ^ 63) \<le> n \<and> n < 2 ^ 63 then Ret n w else Fault w
     | _ \<Rightarrow> Fault w)"

definition parse_rate :: "string \<Rightarrow> world \<Rightarrow> int outcome" where
  "parse_rate str w = (case strtod str of (v, erange, suffix) \<Rightarrow>
     let w = w\<lparr>w_errno := (if erange then ERANGE else 0)\<rparr>
     in if w_errno w = ERANGE \<and> (v = PInf \<or> v = MInf) \<or> w_errno w \<noteq> 0 \<and> deq v (Fin 0) then LOG_FATAL ''strtod'' w
        else if suffix = str then LOG_FATAL ''no digits were found'' w
        else if suffix = [] then long_long_of v w
        else case find (\<lambda>(prefix, _). take (length prefix) suffix = prefix) conversions of
               Some (_, bytes_per_second) \<Rightarrow> long_long_of (dmul v (Fin bytes_per_second)) w
             | None \<Rightarrow> LOG_FATAL ''invalid suffix'' w)"

definition parse_max_pacing_rate :: flag_parser where
  "parse_max_pacing_rate arg old w = (case arg of
       None \<Rightarrow> Fault w
     | Some s \<Rightarrow> obind (parse_rate s w) (\<lambda>n w. Ret (VLongLong n) w))"

definition parse_all_samples :: flag_parser where
  "parse_all_samples arg old w = Ret (VString (Some (case arg of Some s \<Rightarrow> s | None \<Rightarrow> ''samples.csv''))) w"

definition parse_percentiles_flag :: flag_parser where
  "parse_percentiles_flag arg old w = (case (arg, old) of
       (Some s, VPercentiles p) \<Rightarrow> obind (parse_percentiles s p w) (\<lambda>p w. Ret (VPercentiles p) w)
     | _ \<Rightarrow> Fault w)"

definition print_percentiles_flag :: flag_printer where
  "print_percentiles_flag name v w = (case v of VPercentiles p \<Rightarrow> print_percentiles name p w | _ \<Rightarrow> Fault w)"

section \<open>Running the parser\<close>

text \<open>The exchange sort over the array of flags, by short name.\<close>

function sort_inner :: "nat \<Rightarrow> nat \<Rightarrow> flag list \<Rightarrow> flag list" where
  "sort_inner i j flags =
     (if j < length flags
      then sort_inner i (j + 1)
             (if fl_short (flags ! i) > fl_short (flags ! j) then flags[i := flags ! j, j := flags ! i] else flags)
      else flags)"
  by pat_completeness auto
termination
  by (relation "measure (\<lambda>(i, j, flags). length flags - j)") auto

function sort_outer :: "nat \<Rightarrow> flag list \<Rightarrow> flag list" where
  "sort_outer i flags = (if i < length flags then sort_outer (i + 1) (sort_inner i (i + 1) flags) else flags)"
  by pat_completeness auto

lemma mset_swap_nth: "i < length xs \<Longrightarrow> j < length xs \<Longrightarrow> mset (xs[i := xs ! j, j := xs ! i]) = mset xs"
  by (metis mset_swap)

declare sort_inner.simps [simp del]

lemma mset_sort_inner [simp]: "i < j \<Longrightarrow> mset (sort_inner i j flags) = mset flags"
proof (induction i j flags rule: sort_inner.induct)
  case (1 i j flags)
  then show ?case by (subst sort_inner.simps) (auto simp: mset_swap_nth)
qed

lemma length_sort_inner [simp]: "i < j \<Longrightarrow> length (sort_inner i j flags) = length flags"
  by (metis mset_sort_inner size_mset)

termination sort_outer
  by (relation "measure (\<lambda>(i, flags). length flags - i)") auto

declare sort_outer.simps [simp del]

definition sort_flags :: "flag list \<Rightarrow> flag list" where
  "sort_flags flags = sort_outer 0 flags"

text \<open>
  \<open>isgraph\<close> is defined by C for the values of \<open>unsigned char\<close> only; \<open>wide\<close> is what the program finds
  behind the table for the larger values of long options.
\<close>

definition isgraph :: "(int \<Rightarrow> bool) \<Rightarrow> int \<Rightarrow> bool" where
  "isgraph wide c = (if 0 \<le> c \<and> c < 256 then 33 \<le> c \<and> c \<le> 126 else wide c)"

definition LONG_OPTION_START :: int where "LONG_OPTION_START = 1000"

definition longopts :: "flag list \<Rightarrow> (string \<times> arg_kind \<times> int) list" where
  "longopts flags = map (\<lambda>i. (fl_long (flags ! i), fl_has_arg (flags ! i), LONG_OPTION_START + int i)) [0..<length flags]"

definition shortopt :: "(int \<Rightarrow> bool) \<Rightarrow> flag \<Rightarrow> int list" where
  "shortopt wide fl =
     (if \<not> isgraph wide (fl_short fl) then []
      else fl_short fl # (if fl_has_arg fl = no_argument then []
        else 58 # (if fl_has_arg fl = required_argument then [] else [58])))"

definition shortopts :: "(int \<Rightarrow> bool) \<Rightarrow> flag list \<Rightarrow> int list" where
  "shortopts wide flags = concat (map (shortopt wide) flags)"

text \<open>The index of the flag a result of \<open>getopt_long\<close> selects: past the array if a search fails.\<close>

fun find_short :: "int \<Rightarrow> flag list \<Rightarrow> nat" where
  "find_short c [] = 0"
| "find_short c (fl # fls) = (if c = fl_short fl then 0 else Suc (find_short c fls))"

definition flag_index :: "(int \<Rightarrow> bool) \<Rightarrow> flag list \<Rightarrow> int \<Rightarrow> nat" where
  "flag_index wide flags c =
     (if isgraph wide c then find_short c flags else nat ((c - LONG_OPTION_START) mod 2 ^ 64))"

definition usage_exit :: "world \<Rightarrow> 'a outcome" where
  "usage_exit w = Exit w" \<comment> \<open>after \<open>print_usage\<close>\<close>

fun parse_results :: "(int \<Rightarrow> bool) \<Rightarrow> flag list \<Rightarrow> (int \<times> string option) list \<Rightarrow> (var \<Rightarrow> val) \<Rightarrow> world \<Rightarrow>
    (var \<Rightarrow> val) outcome" where
  "parse_results wide flags [] store w = Ret store w"
| "parse_results wide flags ((c, optarg) # rs) store w =
     (if c = int (char_code (CHR ''?'')) then usage_exit w
      else let i = flag_index wide flags c in
        if i \<ge> length flags then Fault w
        else let fl = flags ! i;
                 parse = (case fl_parser fl of Some p \<Rightarrow> p | None \<Rightarrow> default_parser (fl_type fl))
             in obind (parse optarg (store (fl_var fl)) w) (\<lambda>v w.
                  parse_results wide flags rs (store(fl_var fl := v)) w))"

text \<open>\<open>getopt_long\<close> gives the results in order and the arguments that are no options.\<close>

definition flags_parser_run ::
    "(int \<Rightarrow> bool) \<Rightarrow> (int list \<Rightarrow> (string \<times> arg_kind \<times> int) list \<Rightarrow> (int \<times> string option) list \<times> string list) \<Rightarrow>
     flags_parser \<Rightarrow> world \<Rightarrow> flags_parser outcome" where
  "flags_parser_run wide getopt_long fp w =
     (if fp_flags fp = [] then Ret fp w
      else let flags = sort_flags (fp_flags fp) in
        case getopt_long (shortopts wide flags) (longopts flags) of (results, others) \<Rightarrow>
          obind (parse_results wide flags results (fp_store fp) w) (\<lambda>store w.
            if others \<noteq> [] then usage_exit w
            else if store Help = VBool True then usage_exit w
            else if store Version = VBool True then Exit w
            else Ret (fp\<lparr>fp_store := store\<rparr>) w))"

section \<open>Printing the flags\<close>

text \<open>Reading a variable as a type it does not hold is a \<open>Fault\<close>.\<close>

definition print_flag :: "flag \<Rightarrow> (var \<Rightarrow> val) \<Rightarrow> world \<Rightarrow> unit outcome" where
  "print_flag fl store w =
     (let name = fl_name fl; var = store (fl_var fl) in case fl_printer fl of
       Some printer \<Rightarrow> printer name var w
     | None \<Rightarrow>
         if fl_type fl = ''bool'' then (case var of VBool b \<Rightarrow> Ret () (PRINT name (PInt (if b then 1 else 0)) w) | _ \<Rightarrow> Fault w)
         else if fl_type fl = ''int'' then (case var of VInt n \<Rightarrow> Ret () (PRINT name (PInt n) w) | _ \<Rightarrow> Fault w)
         else if fl_type fl = ''const char *''
         then (case var of VString s \<Rightarrow> Ret () (PRINT name (PStr (case s of Some s \<Rightarrow> s | None \<Rightarrow> [])) w) | _ \<Rightarrow> Fault w)
         else if fl_type fl = ''unsigned long'' then (case var of VULong n \<Rightarrow> Ret () (PRINT name (PULong (of_nat n)) w) | _ \<Rightarrow> Fault w)
         else if fl_type fl = ''double'' then (case var of VDouble d \<Rightarrow> Ret () (PRINT name (PDbl d) w) | _ \<Rightarrow> Fault w)
         else if fl_type fl = ''long long'' then (case var of VLongLong n \<Rightarrow> Ret () (PRINT name (PInt n) w) | _ \<Rightarrow> Fault w)
         else Ret () (LOG_ERROR ''Unknown type for variable'' w))"

fun dump_flags :: "flag list \<Rightarrow> (var \<Rightarrow> val) \<Rightarrow> world \<Rightarrow> unit outcome" where
  "dump_flags [] store w = Ret () w"
| "dump_flags (fl # fls) store w =
     (if fl_var fl = Help \<or> fl_var fl = Version then dump_flags fls store w
      else obind (print_flag fl store w) (\<lambda>_ w. dump_flags fls store w))"

definition flags_parser_dump :: "string \<Rightarrow> flags_parser \<Rightarrow> world \<Rightarrow> unit outcome" where
  "flags_parser_dump version fp w = dump_flags (fp_flags fp) (fp_store fp) (PRINT ''VERSION'' (PStr version) w)"

section \<open>Sorting\<close>

lemma sort_inner_spec:
  "i < j \<Longrightarrow> \<forall>k. i < k \<and> k < j \<and> k < length flags \<longrightarrow> fl_short (flags ! i) \<le> fl_short (flags ! k) \<Longrightarrow>
   (\<forall>k<i. sort_inner i j flags ! k = flags ! k)
   \<and> (\<forall>k. i < k \<and> k < length flags \<longrightarrow> fl_short (sort_inner i j flags ! i) \<le> fl_short (sort_inner i j flags ! k))"
proof (induction i j flags rule: sort_inner.induct)
  case (1 i j flags)
  show ?case
  proof (cases "j < length flags")
    case True
    let ?fl = "if fl_short (flags ! i) > fl_short (flags ! j) then flags[i := flags ! j, j := flags ! i] else flags"
    have "sort_inner i j flags = sort_inner i (j + 1) ?fl" using True by (subst sort_inner.simps) simp
    moreover have "\<forall>k. i < k \<and> k < j + 1 \<and> k < length ?fl \<longrightarrow> fl_short (?fl ! i) \<le> fl_short (?fl ! k)"
      using "1.prems" True by (auto simp: nth_list_update less_Suc_eq intro: order_trans [of _ "fl_short (flags ! i)"])
    moreover have "\<forall>k<i. ?fl ! k = flags ! k" using "1.prems"(1) by simp
    ultimately show ?thesis using "1.IH" [OF True] "1.prems"(1) by simp
  next
    case False
    with 1 show ?thesis by (subst (1 2 3) sort_inner.simps) auto
  qed
qed

lemma take_nth_eq: "length xs = length ys \<Longrightarrow> \<forall>k<i. xs ! k = ys ! k \<Longrightarrow> take i xs = take i ys"
  by (rule nth_equalityI) auto

lemma set_drop_eq:
  assumes "mset xs = mset ys" "\<forall>k<i. xs ! k = ys ! k"
  shows "set (drop i xs) = set (drop i ys)"
proof -
  have "length xs = length ys" using assms(1) by (rule mset_eq_length)
  then have "take i xs = take i ys" using assms(2) by (rule take_nth_eq)
  then have "mset (drop i xs) = mset (drop i ys)"
    using assms(1) by (metis add_left_cancel append_take_drop_id mset_append)
  then show ?thesis by (metis set_mset_mset)
qed

lemma sort_outer_spec:
  "i \<le> length flags \<Longrightarrow> sorted (map fl_short (take i flags)) \<Longrightarrow>
   \<forall>x\<in>set (take i flags). \<forall>y\<in>set (drop i flags). fl_short x \<le> fl_short y \<Longrightarrow>
   mset (sort_outer i flags) = mset flags \<and> sorted (map fl_short (sort_outer i flags))"
proof (induction i flags rule: sort_outer.induct)
  case (1 i flags)
  show ?case
  proof (cases "i < length flags")
    case True
    let ?r = "sort_inner i (i + 1) flags"
    have r: "\<forall>k<i. ?r ! k = flags ! k" "\<forall>k. i < k \<and> k < length flags \<longrightarrow> fl_short (?r ! i) \<le> fl_short (?r ! k)"
      using sort_inner_spec [of i "i + 1" flags] by auto
    have len: "length ?r = length flags" by simp
    have same: "take i ?r = take i flags" using len r(1) by (rule take_nth_eq)
    have rest: "set (drop i ?r) = set (drop i flags)" by (rule set_drop_eq) (use r(1) in auto)
    have split: "take (i + 1) ?r = take i flags @ [?r ! i]" "drop i ?r = ?r ! i # drop (i + 1) ?r"
      using True len same by (simp_all add: take_Suc_conv_app_nth Cons_nth_drop_Suc)
    have least: "\<forall>y\<in>set (drop (i + 1) ?r). fl_short (?r ! i) \<le> fl_short y"
      using r(2) by (auto simp: in_set_conv_nth)
    have "?r ! i \<in> set (drop i flags)" "set (drop (i + 1) ?r) \<subseteq> set (drop i flags)"
      using split(2) rest by auto
    then have "sorted (map fl_short (take (i + 1) ?r))"
      "\<forall>x\<in>set (take (i + 1) ?r). \<forall>y\<in>set (drop (i + 1) ?r). fl_short x \<le> fl_short y"
      unfolding split(1) using "1.prems" least by (auto simp: sorted_append)
    from "1.IH" [OF True _ this] True show ?thesis by (subst (1 2) sort_outer.simps) simp
  next
    case False
    with 1 show ?thesis by (subst (1 2) sort_outer.simps) simp
  qed
qed

lemma sort_flags_spec: "mset (sort_flags flags) = mset flags" "sorted (map fl_short (sort_flags flags))"
  using sort_outer_spec [of 0 flags] by (simp_all add: sort_flags_def)

lemma sort_flags_simps [simp]:
  "set (sort_flags flags) = set flags" "length (sort_flags flags) = length flags"
  by (metis sort_flags_spec(1) set_mset_mset) (metis sort_flags_spec(1) size_mset)

section \<open>Dispatch\<close>

lemma find_short_spec:
  "i < length flags \<Longrightarrow> fl_short (flags ! i) = c \<Longrightarrow> \<forall>k<length flags. fl_short (flags ! k) = c \<longrightarrow> k = i \<Longrightarrow>
   find_short c flags = i"
proof (induction flags arbitrary: i)
  case (Cons fl fls)
  show ?case
  proof (cases i)
    case 0
    with Cons.prems show ?thesis by simp
  next
    case (Suc j)
    with Cons.prems have "fl_short fl \<noteq> c" by force
    moreover have "find_short c fls = j"
      using Cons.prems Suc by (intro Cons.IH) force+
    ultimately show ?thesis using Suc by auto
  qed
qed simp

lemma find_short_absent: "c \<notin> fl_short ` set flags \<Longrightarrow> find_short c flags = length flags"
  by (induction flags) auto

text \<open>The short names that \<open>getopt_long\<close> is told about are all different.\<close>

definition short_names_distinct :: "flag list \<Rightarrow> bool" where
  "short_names_distinct flags \<longleftrightarrow> distinct (filter (\<lambda>c. 33 \<le> c \<and> c \<le> 126) (map fl_short flags))
     \<and> (\<forall>fl\<in>set flags. 0 \<le> fl_short fl \<and> fl_short fl < 128)"

lemma short_names_distinct_mset:
  "mset flags' = mset flags \<Longrightarrow> short_names_distinct flags' = short_names_distinct flags"
proof -
  assume m: "mset flags' = mset flags"
  then have "mset (filter P (map fl_short flags')) = mset (filter P (map fl_short flags))" for P
    by (simp add: mset_filter)
  then have "distinct (filter P (map fl_short flags')) = distinct (filter P (map fl_short flags))" for P
    by (rule mset_eq_imp_distinct_iff)
  with mset_eq_setD [OF m] show ?thesis by (simp add: short_names_distinct_def)
qed

lemma short_name_unique:
  assumes "short_names_distinct flags" "i < length flags" "k < length flags"
    and "fl_short (flags ! k) = fl_short (flags ! i)" "33 \<le> fl_short (flags ! i)" "fl_short (flags ! i) \<le> 126"
  shows "k = i"
proof (rule ccontr)
  assume "k \<noteq> i"
  have two: "\<not> distinct (filter P (map f xs))" if "a < b" "b < length xs" "f (xs ! a) = f (xs ! b)" "P (f (xs ! a))"
    for P f a b and xs :: "flag list"
  proof -
    have "filter P (map f xs) = filter P (map f (take b xs)) @ filter P (map f (xs ! b # drop (Suc b) xs))"
      using arg_cong [OF id_take_nth_drop [OF that(2)], of "\<lambda>ys. filter P (map f ys)"]
      by (simp only: map_append filter_append)
    moreover have "xs ! a \<in> set (take b xs)" using that by (auto simp: in_set_conv_nth)
    then have "f (xs ! a) \<in> set (filter P (map f (take b xs)))" using that(4) by simp
    moreover have "f (xs ! a) \<in> set (filter P (map f (xs ! b # drop (Suc b) xs)))" using that(3,4) by simp
    ultimately show ?thesis by (metis disjoint_iff distinct_append)
  qed
  from \<open>k \<noteq> i\<close> two [of k i flags fl_short] two [of i k flags fl_short] assms show False
    by (auto simp: short_names_distinct_def neq_iff)
qed

text \<open>Every result of \<open>getopt_long\<close> selects the flag it names.\<close>

lemma flag_index_short:
  assumes "short_names_distinct flags" "i < length flags" "isgraph wide (fl_short (flags ! i))"
  shows "flag_index wide flags (fl_short (flags ! i)) = i"
proof -
  from assms(1,2) have "0 \<le> fl_short (flags ! i)" "fl_short (flags ! i) < 128" by (simp_all add: short_names_distinct_def)
  with assms(3) have c: "33 \<le> fl_short (flags ! i)" "fl_short (flags ! i) \<le> 126" by (simp_all add: isgraph_def)
  then show ?thesis
    using assms(3) short_name_unique [OF assms(1,2) _ _ c] by (auto simp: flag_index_def intro: find_short_spec [OF assms(2)])
qed

lemma flag_index_long:
  assumes "i < length flags" "\<not> wide (LONG_OPTION_START + int i)" "length flags < 2 ^ 62"
  shows "flag_index wide flags (LONG_OPTION_START + int i) = i"
proof -
  have "int i mod 2 ^ 64 = int i" using assms(1,3) by (intro mod_pos_pos_trivial) auto
  then show ?thesis using assms(2) by (simp add: flag_index_def isgraph_def LONG_OPTION_START_def)
qed

lemma flag_index_wide:
  assumes "short_names_distinct flags" "wide (LONG_OPTION_START + int i)"
  shows "flag_index wide flags (LONG_OPTION_START + int i) = length flags"
proof -
  have "LONG_OPTION_START + int i \<notin> fl_short ` set flags"
    using assms(1) by (force simp: short_names_distinct_def LONG_OPTION_START_def)
  then show ?thesis
    using assms(2) by (simp add: flag_index_def isgraph_def LONG_OPTION_START_def find_short_absent)
qed

section \<open>Types\<close>

fun val_type :: "val \<Rightarrow> string" where
  "val_type (VBool _) = ''bool''"
| "val_type (VInt _) = ''int''"
| "val_type (VString _) = ''const char *''"
| "val_type (VULong _) = ''unsigned long''"
| "val_type (VDouble _) = ''double''"
| "val_type (VLongLong _) = ''long long''"
| "val_type (VPercentiles _) = ''struct percentiles''"

text \<open>
  A well-typed parser: every flag's variable holds a value of the flag's type, its parser stores one
  and its printer can print one; and a parser is there for each type \<open>default_parser\<close> does not know.
\<close>

definition keeps_type :: "flag_parser \<Rightarrow> string \<Rightarrow> bool" where
  "keeps_type p type \<longleftrightarrow> (\<forall>arg old w v w'. val_type old = type \<longrightarrow> p arg old w = Ret v w' \<longrightarrow> val_type v = type)"

definition prints_type :: "flag_printer \<Rightarrow> string \<Rightarrow> bool" where
  "prints_type p type \<longleftrightarrow> (\<forall>name v w. val_type v = type \<longrightarrow> (\<exists>x. p name v w = Ret () (PRINT name x w)))"

definition flag_ok :: "flag \<Rightarrow> bool" where
  "flag_ok fl \<longleftrightarrow> (case fl_parser fl of None \<Rightarrow> True | Some p \<Rightarrow> keeps_type p (fl_type fl))
     \<and> (case fl_printer fl of None \<Rightarrow> fl_type fl \<noteq> ''struct percentiles'' | Some p \<Rightarrow> prints_type p (fl_type fl))"

definition typed :: "flags_parser \<Rightarrow> bool" where
  "typed fp \<longleftrightarrow> (\<forall>fl\<in>set (fp_flags fp). val_type (fp_store fp (fl_var fl)) = fl_type fl \<and> flag_ok fl)"

lemma default_parser_keeps_type: "keeps_type (default_parser type) type"
  by (auto simp: keeps_type_def default_parser_def split: if_splits option.splits)

lemma parse_results_typed:
  "parse_results wide flags rs store w = Ret store' w' \<Longrightarrow>
   \<forall>fl\<in>set flags. val_type (store (fl_var fl)) = fl_type fl \<and> flag_ok fl \<Longrightarrow>
   \<forall>fl\<in>set flags. val_type (store' (fl_var fl)) = fl_type fl"
proof (induction wide flags rs store w rule: parse_results.induct)
  case (2 wide flags c optarg rs store w)
  let ?i = "flag_index wide flags c"
  let ?fl = "flags ! ?i"
  let ?parse = "case fl_parser ?fl of Some p \<Rightarrow> p | None \<Rightarrow> default_parser (fl_type ?fl)"
  from "2.prems"(1) have i: "c \<noteq> int (char_code (CHR ''?''))" "\<not> length flags \<le> ?i"
    by (auto simp: usage_exit_def Let_def split: if_splits)
  with "2.prems"(1) obtain v w1 where v: "?parse optarg (store (fl_var ?fl)) w = Ret v w1"
    "parse_results wide flags rs (store(fl_var ?fl := v)) w1 = Ret store' w'"
    by (auto simp: Let_def obind_eq_Ret)
  have fl: "?fl \<in> set flags" using i(2) by simp
  with "2.prems"(2) have "keeps_type ?parse (fl_type ?fl)" "val_type (store (fl_var ?fl)) = fl_type ?fl"
    by (auto simp: flag_ok_def default_parser_keeps_type split: option.splits)
  with v(1) have "val_type v = fl_type ?fl" unfolding keeps_type_def by blast
  with "2.prems"(2) fl have "\<forall>fl\<in>set flags. val_type ((store(fl_var ?fl := v)) (fl_var fl)) = fl_type fl \<and> flag_ok fl"
    by (metis fun_upd_apply)
  from "2.IH" [OF i(1) refl i(2) refl refl v(1) v(2) this] show ?case .
qed simp

lemma print_flag_typed:
  assumes "val_type (store (fl_var fl)) = fl_type fl" "flag_ok fl"
  shows "\<exists>x. print_flag fl store w = Ret () (PRINT (fl_name fl) x w)"
  using assms
  by (cases "store (fl_var fl)") (auto simp: print_flag_def Let_def flag_ok_def prints_type_def dest: sym split: option.splits)

lemma flags_parser_run_Ret:
  assumes "flags_parser_run wide getopt_long fp w = Ret fp' w'"
  shows "fp_flags fp' = fp_flags fp" "typed fp \<Longrightarrow> typed fp'"
proof -
  have "fp_flags fp' = fp_flags fp \<and> (typed fp \<longrightarrow> typed fp')"
  proof (cases "fp_flags fp = []")
    case False
    obtain results others where g:
      "getopt_long (shortopts wide (sort_flags (fp_flags fp))) (longopts (sort_flags (fp_flags fp))) = (results, others)"
      by fastforce
    with assms False obtain store w1 where r: "parse_results wide (sort_flags (fp_flags fp)) results (fp_store fp) w = Ret store w1"
      "fp' = fp\<lparr>fp_store := store\<rparr>"
      by (auto simp: flags_parser_run_def Let_def obind_eq_Ret usage_exit_def split: if_splits)
    from parse_results_typed [OF r(1)] r(2) show ?thesis by (auto simp: typed_def)
  qed (use assms in \<open>auto simp: flags_parser_run_def\<close>)
  then show "fp_flags fp' = fp_flags fp" "typed fp \<Longrightarrow> typed fp'" by auto
qed

lemma dump_flags_typed:
  "\<forall>fl\<in>set fls. val_type (store (fl_var fl)) = fl_type fl \<and> flag_ok fl \<Longrightarrow>
   \<exists>w'. dump_flags fls store w = Ret () w' \<and> w_inputs w' = w_inputs w \<and> w_trace w' = w_trace w
     \<and> map fst (w_out w') = map fst (w_out w) @ map fl_name (filter (\<lambda>fl. fl_var fl \<noteq> Help \<and> fl_var fl \<noteq> Version) fls)"
proof (induction fls arbitrary: w)
  case (Cons fl fls)
  show ?case
  proof (cases "fl_var fl = Help \<or> fl_var fl = Version")
    case True
    with Cons show ?thesis by auto
  next
    case False
    from Cons.prems obtain x where "print_flag fl store w = Ret () (PRINT (fl_name fl) x w)"
      using print_flag_typed by fastforce
    with False Cons.IH [of "PRINT (fl_name fl) x w"] Cons.prems show ?thesis by auto
  qed
qed simp

section \<open>Properties\<close>

text \<open>
  Where the memory behind the character table makes \<open>isgraph\<close> say yes to the value of a long
  option, that option is looked up as a short one, is not found, and a flag past the end of the array
  is used.
\<close>

lemma long_option_misread:
  assumes "short_names_distinct flags" "wide (LONG_OPTION_START + int i)"
  shows "parse_results wide flags ((LONG_OPTION_START + int i, optarg) # rs) store w = Fault w"
proof -
  have "char_code CHR ''?'' = 63" by (simp add: char_code_def)
  then show ?thesis
    using flag_index_wide [of flags wide i, OF assms] by (simp add: LONG_OPTION_START_def)
qed

text \<open>
  C26: What each flag is reached by, if the short names differ: in the sorted array there is an index whose entry in the
  table of long options carries the flag's name and kind of argument. The flag's short name, if \<open>getopt_long\<close> is told about it,
  selects that index. The value of its long name is 1000 or more, for which \<open>isgraph\<close> is undefined: if what the program
  finds behind the character table (\<open>wide\<close>, about which nothing is assumed) says no, it selects that index too, and
  if it says yes, a flag past the end of the array is used. The buffer of the short options is large enough.
\<close>

theorem flags_dispatch:
  assumes "short_names_distinct (fp_flags fp)" "length (fp_flags fp) < 2 ^ 62" "fl \<in> set (fp_flags fp)"
  shows "let flags = sort_flags (fp_flags fp) in
    (\<exists>i<length flags. flags ! i = fl \<and> longopts flags ! i = (fl_long fl, fl_has_arg fl, LONG_OPTION_START + int i)
       \<and> (isgraph wide (fl_short fl) \<longrightarrow> flag_index wide flags (fl_short fl) = i)
       \<and> (if wide (LONG_OPTION_START + int i)
          then parse_results wide flags ((LONG_OPTION_START + int i, optarg) # rs) store w = Fault w
          else flag_index wide flags (LONG_OPTION_START + int i) = i))
    \<and> length (shortopts wide flags) \<le> 3 * length flags"
proof -
  let ?flags = "sort_flags (fp_flags fp)"
  have dist: "short_names_distinct ?flags"
    using assms(1) short_names_distinct_mset [OF sort_flags_spec(1)] by simp
  obtain i where i: "i < length ?flags" "?flags ! i = fl"
    using assms(3) by (metis in_set_conv_nth sort_flags_simps(1))
  have "\<not> wide (LONG_OPTION_START + int i) \<Longrightarrow> flag_index wide ?flags (LONG_OPTION_START + int i) = i"
    using assms(2) by (intro flag_index_long [OF i(1)]) auto
  moreover have "isgraph wide (fl_short fl) \<longrightarrow> flag_index wide ?flags (fl_short fl) = i"
    using flag_index_short [OF dist i(1)] i(2) by auto
  moreover have "longopts ?flags ! i = (fl_long fl, fl_has_arg fl, LONG_OPTION_START + int i)"
    using i by (simp add: longopts_def)
  moreover have "length (shortopts wide flags) \<le> 3 * length flags" for flags
    by (induction flags) (auto simp: shortopts_def shortopt_def)
  ultimately show ?thesis using i long_option_misread [OF dist] by (auto simp: Let_def)
qed

text \<open>
  C27: Parsing the command line keeps the parser well typed: whatever the arguments, if it returns,
  every flag's variable still holds a value of the flag's declared type; and dumping such a parser
  never reads a variable as another type and prints one line for each flag but help and version.
\<close>

theorem flags_typed:
  assumes "typed fp" "flags_parser_run wide getopt_long fp w = Ret fp' w'"
  shows "typed fp' \<and> (\<exists>w''. flags_parser_dump version fp' w' = Ret () w''
    \<and> map fst (w_out w'') = map fst (w_out w') @ ''VERSION''
        # map fl_name (filter (\<lambda>fl. fl_var fl \<noteq> Help \<and> fl_var fl \<noteq> Version) (fp_flags fp)))"
proof -
  have "typed fp'" "fp_flags fp' = fp_flags fp"
    using flags_parser_run_Ret [OF assms(2)] assms(1) by auto
  with dump_flags_typed [of "fp_flags fp'" "fp_store fp'" "PRINT ''VERSION'' (PStr version) w'"] show ?thesis
    by (auto simp: flags_parser_dump_def typed_def)
qed

lemma created_flags: "map (\<lambda>fl. (fl_short fl, fl_var fl, fl_type fl, fl_has_arg fl)) (fp_flags (flags_parser_create store))
  = [(0, Field ''script'', ''const char *'', required_argument), (118, Version, ''bool'', no_argument), (104, Help, ''bool'', no_argument)]"
  by (simp add: flags_parser_create_def DEFINE_FLAG_def flags_parser_add_def char_code_def)

theorem flags_dispatch_witness:
  "\<exists>i<3. longopts (sort_flags (fp_flags (flags_parser_create (\<lambda>_. VBool False)))) ! i = (''help'', no_argument, 1000 + int i)
     \<and> flag_index (\<lambda>_. False) (sort_flags (fp_flags (flags_parser_create (\<lambda>_. VBool False)))) (1000 + int i) = i
     \<and> flag_index (\<lambda>_. False) (sort_flags (fp_flags (flags_parser_create (\<lambda>_. VBool False)))) 104 = i"
proof -
  let ?fp = "flags_parser_create (\<lambda>_. VBool False)" and ?h = "last (fp_flags (flags_parser_create (\<lambda>_. VBool False)))"
  have "short_names_distinct (fp_flags ?fp)" "length (fp_flags ?fp) = 3" "?h \<in> set (fp_flags ?fp)"
    "fl_long ?h = ''help''" "fl_has_arg ?h = no_argument" "fl_short ?h = 104"
    by (simp_all add: flags_parser_create_def DEFINE_FLAG_def flags_parser_add_def short_names_distinct_def char_code_def
        remap_long_name_def)
  with flags_dispatch [of ?fp ?h "\<lambda>_. False"] show ?thesis by (auto simp: Let_def LONG_OPTION_START_def isgraph_def)
qed

theorem flags_typed_witness:
  "\<exists>w'. flags_parser_dump ''v1'' (flags_parser_create (\<lambda>_. VBool False)) (world0 []) = Ret () w'
     \<and> map fst (w_out w') = [''VERSION'', ''script'']"
proof -
  let ?fp = "flags_parser_create (\<lambda>_. VBool False)"
  have t: "typed ?fp"
    by (simp add: typed_def flags_parser_create_def DEFINE_FLAG_def flags_parser_add_def flag_ok_def)
  have r: "flags_parser_run (\<lambda>_. False) (\<lambda>_ _. ([], [])) ?fp (world0 []) = Ret ?fp (world0 [])"
    by (simp add: flags_parser_run_def flags_parser_create_def DEFINE_FLAG_def flags_parser_add_def Let_def)
  from flags_typed [OF t r, of "''v1''"] show ?thesis
    by (simp add: flags_parser_create_def DEFINE_FLAG_def flags_parser_add_def)
qed

end
