(* ===== verification/Mains.thy ===== *)
theory Mains
  imports Streams TcpRR Flags
begin

text \<open>
  \<open>tcp_rr_main.c\<close>, \<open>tcp_stream_main.c\<close> and \<open>udp_stream_main.c\<close>: the tables of flags, the checks of the
  options, and the main functions up to the call of the test, which is a parameter. What the checks
  establish is what the workers' safety theorems assume.
\<close>

section \<open>The options as the flags' variables\<close>

text \<open>\<open>struct options opts = {0}\<close>; a field no flag was defined for stays zero.\<close>

definition zero_store :: "var \<Rightarrow> val" where
  "zero_store = (\<lambda>_. VInt 0)"

fun bool_of :: "val \<Rightarrow> bool" where "bool_of (VBool b) = b" | "bool_of _ = False"
fun int_of :: "val \<Rightarrow> int" where "int_of (VInt n) = n" | "int_of _ = 0"
fun string_of :: "val \<Rightarrow> string option" where "string_of (VString s) = s" | "string_of _ = None"
fun ulong_of :: "val \<Rightarrow> nat" where "ulong_of (VULong n) = n" | "ulong_of _ = 0"
fun double_of :: "val \<Rightarrow> double" where "double_of (VDouble d) = d" | "double_of _ = Fin 0"
fun long_of :: "val \<Rightarrow> int" where "long_of (VLongLong n) = n" | "long_of _ = 0"
fun percentiles_of :: "val \<Rightarrow> percentiles" where "percentiles_of (VPercentiles p) = p" | "percentiles_of _ = no_percentiles"

definition options_of :: "(var \<Rightarrow> val) \<Rightarrow> options" where
  "options_of store = (let f = (\<lambda>name. store (Field name)) in
     \<lparr>magic = word_of_int (int_of (f ''magic'')), min_rto = int_of (f ''min_rto''),
      maxevents = int_of (f ''maxevents''), num_flows = int_of (f ''num_flows''),
      num_threads = int_of (f ''num_threads''), num_clients = int_of (f ''num_clients''),
      test_length = int_of (f ''test_length''), buffer_size = int_of (f ''buffer_size''),
      listen_backlog = int_of (f ''listen_backlog''), suicide_length = int_of (f ''suicide_length''),
      ipv4 = bool_of (f ''ipv4''), ipv6 = bool_of (f ''ipv6''), client = bool_of (f ''client''),
      debug = bool_of (f ''debug''), dry_run = bool_of (f ''dry_run''), pin_cpu = bool_of (f ''pin_cpu''),
      reuseaddr = bool_of (f ''reuseaddr''), reuseport = bool_of (f ''reuseport''),
      opt_logtostderr = bool_of (f ''logtostderr''), nonblocking = bool_of (f ''nonblocking''),
      interval_secs = double_of (f ''interval''), max_pacing_rate = long_of (f ''max_pacing_rate''),
      local_host = string_of (f ''local_host''), host = string_of (f ''host''),
      control_port = (case string_of (f ''control_port'') of Some s \<Rightarrow> s | None \<Rightarrow> []),
      port = (case string_of (f ''port'') of Some s \<Rightarrow> s | None \<Rightarrow> []),
      all_samples = string_of (f ''all_samples''), script = string_of (f ''script''),
      enable_read = bool_of (f ''enable_read''), enable_write = bool_of (f ''enable_write''),
      edge_trigger = bool_of (f ''edge_trigger''), delay = ulong_of (f ''delay''),
      request_size = int_of (f ''request_size''), response_size = int_of (f ''response_size''),
      opt_percentiles = percentiles_of (f ''percentiles'')\<rparr>)"

section \<open>The tables of flags\<close>

definition short :: "char \<Rightarrow> int" where "short c = int (char_code c)"

definition tcp_rr_flags :: "(flags_parser \<Rightarrow> flags_parser) list" where
  "tcp_rr_flags =
    [DEFINE_FLAG ''int'' ''magic'' (VInt 42) 0
       ''Magic number used by control connections'',
     DEFINE_FLAG ''int'' ''min_rto'' (VInt 0) 0
       ''TCP_MIN_RTO (ms)'',
     DEFINE_FLAG ''int'' ''maxevents'' (VInt 1000) 0
       ''Number of epoll events per epoll_wait() call'',
     DEFINE_FLAG ''int'' ''num_flows'' (VInt 1) (short CHR ''F'')
       ''Total number of flows'',
     DEFINE_FLAG ''int'' ''num_threads'' (VInt 1) (short CHR ''T'')
       ''Number of threads'',
     DEFINE_FLAG ''int'' ''num_clients'' (VInt 1) 0
       ''Number of clients'',
     DEFINE_FLAG ''int'' ''test_length'' (VInt 10) (short CHR ''l'')
       ''Test length in seconds'',
     DEFINE_FLAG ''int'' ''request_size'' (VInt 1) (short CHR ''Q'')
       ''Number of bytes in a request from client to server'',
     DEFINE_FLAG ''int'' ''response_size'' (VInt 1) (short CHR ''R'')
       ''Number of bytes in a response from server to client'',
     DEFINE_FLAG ''int'' ''buffer_size'' (VInt 65536) (short CHR ''B'')
       ''Number of bytes that each read()/send() can transfer at once'',
     DEFINE_FLAG ''int'' ''listen_backlog'' (VInt 128) 0
       ''Backlog size for listen()'',
     DEFINE_FLAG ''int'' ''suicide_length'' (VInt 0) (short CHR ''s'')
       ''Suicide length in seconds'',
     DEFINE_FLAG ''bool'' ''ipv4'' (VBool False) (short CHR ''4'')
       ''Set desired address family to AF_INET'',
     DEFINE_FLAG ''bool'' ''ipv6'' (VBool False) (short CHR ''6'')
       ''Set desired address family to AF_INET6'',
     DEFINE_FLAG ''bool'' ''client'' (VBool False) (short CHR ''c'')
       ''Is client?'',
     DEFINE_FLAG ''bool'' ''debug'' (VBool False) (short CHR ''d'')
       ''Set SO_DEBUG socket option'',
     DEFINE_FLAG ''bool'' ''dry_run'' (VBool False) (short CHR ''n'')
       ''Turn on dry-run mode'',
     DEFINE_FLAG ''bool'' ''pin_cpu'' (VBool False) (short CHR ''U'')
       ''Pin threads to CPU cores'',
     DEFINE_FLAG ''bool'' ''logtostderr'' (VBool False) (short CHR ''V'')
       ''Log to stderr'',
     DEFINE_FLAG ''bool'' ''nonblocking'' (VBool False) 0
       ''Make sure syscalls are all nonblocking'',
     DEFINE_FLAG ''double'' ''interval'' (VDouble (Fin 1)) (short CHR ''I'')
       ''For how many seconds that a sample is generated'',
     DEFINE_FLAG ''long long'' ''max_pacing_rate'' (VLongLong 0) (short CHR ''m'')
       ''SO_MAX_PACING_RATE value; use as 32-bit unsigned'',
     flags_parser_set_parser (Field ''max_pacing_rate'') parse_max_pacing_rate,
     DEFINE_FLAG ''const char *'' ''local_host'' (VString None) (short CHR ''L'')
       ''Local hostname or IP address'',
     DEFINE_FLAG ''const char *'' ''host'' (VString None) (short CHR ''H'')
       ''Server hostname or IP address'',
     DEFINE_FLAG ''const char *'' ''control_port'' (VString (Some ''12866'')) (short CHR ''C'')
       ''Server control port'',
     DEFINE_FLAG ''const char *'' ''port'' (VString (Some ''12867'')) (short CHR ''P'')
       ''Server data port'',
     DEFINE_FLAG ''const char *'' ''all_samples'' (VString None) (short CHR ''A'')
       ''Print all samples? If yes, this is the output file name'',
     flags_parser_set_optional (Field ''all_samples''),
     flags_parser_set_parser (Field ''all_samples'') parse_all_samples,
     DEFINE_FLAG ''struct percentiles'' ''percentiles'' (VPercentiles no_percentiles) (short CHR ''p'')
       ''Latency percentiles'',
     flags_parser_set_parser (Field ''percentiles'') parse_percentiles_flag,
     flags_parser_set_printer (Field ''percentiles'') print_percentiles_flag]"

definition tcp_stream_flags :: "(flags_parser \<Rightarrow> flags_parser) list" where
  "tcp_stream_flags =
    [DEFINE_FLAG ''int'' ''magic'' (VInt 42) 0
       ''Magic number used by control connections'',
     DEFINE_FLAG ''int'' ''min_rto'' (VInt 0) 0
       ''TCP_MIN_RTO (ms)'',
     DEFINE_FLAG ''int'' ''maxevents'' (VInt 1000) 0
       ''Number of epoll events per epoll_wait() call'',
     DEFINE_FLAG ''int'' ''num_flows'' (VInt 1) (short CHR ''F'')
       ''Total number of flows'',
     DEFINE_FLAG ''int'' ''num_threads'' (VInt 1) (short CHR ''T'')
       ''Number of threads'',
     DEFINE_FLAG ''int'' ''num_clients'' (VInt 1) 0
       ''Number of clients'',
     DEFINE_FLAG ''int'' ''test_length'' (VInt 10) (short CHR ''l'')
       ''Test length in seconds'',
     DEFINE_FLAG ''int'' ''buffer_size'' (VInt 16384) (short CHR ''B'')
       ''Number of bytes that each read/write uses as the buffer'',
     DEFINE_FLAG ''int'' ''listen_backlog'' (VInt 128) 0
       ''Backlog size for listen()'',
     DEFINE_FLAG ''int'' ''suicide_length'' (VInt 0) (short CHR ''s'')
       ''Suicide length in seconds'',
     DEFINE_FLAG ''bool'' ''ipv4'' (VBool False) (short CHR ''4'')
       ''Set desired address family to AF_INET'',
     DEFINE_FLAG ''bool'' ''ipv6'' (VBool False) (short CHR ''6'')
       ''Set desired address family to AF_INET6'',
     DEFINE_FLAG ''bool'' ''client'' (VBool False) (short CHR ''c'')
       ''Is client?'',
     DEFINE_FLAG ''bool'' ''debug'' (VBool False) (short CHR ''d'')
       ''Set SO_DEBUG socket option'',
     DEFINE_FLAG ''bool'' ''dry_run'' (VBool False) (short CHR ''n'')
       ''Turn on dry-run mode'',
     DEFINE_FLAG ''bool'' ''pin_cpu'' (VBool False) (short CHR ''U'')
       ''Pin threads to CPU cores'',
     DEFINE_FLAG ''bool'' ''reuseaddr'' (VBool False) (short CHR ''R'')
       ''Use SO_REUSEADDR on sockets'',
     DEFINE_FLAG ''bool'' ''logtostderr'' (VBool False) (short CHR ''V'')
       ''Log to stderr'',
     DEFINE_FLAG ''bool'' ''nonblocking'' (VBool False) 0
       ''Make sure syscalls are all nonblocking'',
     DEFINE_FLAG ''bool'' ''enable_read'' (VBool False) (short CHR ''r'')
       ''Read from flows? enabled by default for the server'',
     DEFINE_FLAG ''bool'' ''enable_write'' (VBool False) (short CHR ''w'')
       ''Write to flows? Enabled by default for the client'',
     DEFINE_FLAG ''bool'' ''edge_trigger'' (VBool False) (short CHR ''E'')
       ''Edge-triggered epoll'',
     DEFINE_FLAG ''double'' ''interval'' (VDouble (Fin 1)) (short CHR ''I'')
       ''For how many seconds that a sample is generated'',
     DEFINE_FLAG ''long long'' ''max_pacing_rate'' (VLongLong 0) (short CHR ''m'')
       ''SO_MAX_PACING_RATE value; use as 32-bit unsigned'',
     flags_parser_set_parser (Field ''max_pacing_rate'') parse_max_pacing_rate,
     DEFINE_FLAG ''unsigned long'' ''delay'' (VULong 0) (short CHR ''D'')
       ''Nanosecond delay between each send()/write()'',
     DEFINE_FLAG ''const char *'' ''local_host'' (VString None) (short CHR ''L'')
       ''Local hostname or IP address'',
     DEFINE_FLAG ''const char *'' ''host'' (VString None) (short CHR ''H'')
       ''Server hostname or IP address'',
     DEFINE_FLAG ''const char *'' ''control_port'' (VString (Some ''12866'')) (short CHR ''C'')
       ''Server control port'',
     DEFINE_FLAG ''const char *'' ''port'' (VString (Some ''12867'')) (short CHR ''P'')
       ''Server data port'',
     DEFINE_FLAG ''const char *'' ''all_samples'' (VString None) (short CHR ''A'')
       ''Print all samples? If yes, this is the output file name'',
     flags_parser_set_optional (Field ''all_samples''),
     flags_parser_set_parser (Field ''all_samples'') parse_all_samples]"

definition udp_stream_flags :: "(flags_parser \<Rightarrow> flags_parser) list" where
  "udp_stream_flags =
    [DEFINE_FLAG ''int'' ''magic'' (VInt 42) 0
       ''Magic number used by control connections'',
     DEFINE_FLAG ''int'' ''maxevents'' (VInt 1000) 0
       ''Number of epoll events per epoll_wait() call'',
     DEFINE_FLAG ''int'' ''num_flows'' (VInt 1) (short CHR ''F'')
       ''Total number of flows'',
     DEFINE_FLAG ''int'' ''num_threads'' (VInt 1) (short CHR ''T'')
       ''Number of threads'',
     DEFINE_FLAG ''int'' ''num_clients'' (VInt 1) 0
       ''Number of clients'',
     DEFINE_FLAG ''int'' ''test_length'' (VInt 10) (short CHR ''l'')
       ''Test length in seconds'',
     DEFINE_FLAG ''int'' ''buffer_size'' (VInt 16384) (short CHR ''B'')
       ''Number of bytes that each read/write uses as the buffer'',
     DEFINE_FLAG ''int'' ''suicide_length'' (VInt 0) (short CHR ''s'')
       ''Suicide length in seconds'',
     DEFINE_FLAG ''bool'' ''ipv4'' (VBool False) (short CHR ''4'')
       ''Set desired address family to AF_INET'',
     DEFINE_FLAG ''bool'' ''ipv6'' (VBool False) (short CHR ''6'')
       ''Set desired address family to AF_INET6'',
     DEFINE_FLAG ''bool'' ''client'' (VBool False) (short CHR ''c'')
       ''Is client?'',
     DEFINE_FLAG ''bool'' ''dry_run'' (VBool False) (short CHR ''n'')
       ''Turn on dry-run mode'',
     DEFINE_FLAG ''bool'' ''reuseport'' (VBool False) 0
       ''Multiplex server port (use SO_REUSEPORT)'',
     DEFINE_FLAG ''bool'' ''logtostderr'' (VBool False) (short CHR ''V'')
       ''Log to stderr'',
     DEFINE_FLAG ''bool'' ''nonblocking'' (VBool False) 0
       ''Make sure syscalls are all nonblocking'',
     DEFINE_FLAG ''bool'' ''edge_trigger'' (VBool False) (short CHR ''E'')
       ''Edge-triggered epoll'',
     DEFINE_FLAG ''double'' ''interval'' (VDouble (Fin 1)) (short CHR ''I'')
       ''For how many seconds that a sample is generated'',
     DEFINE_FLAG ''const char *'' ''local_host'' (VString None) (short CHR ''L'')
       ''Local hostname or IP address'',
     DEFINE_FLAG ''const char *'' ''host'' (VString None) (short CHR ''H'')
       ''Server hostname or IP address'',
     DEFINE_FLAG ''const char *'' ''control_port'' (VString (Some ''12866'')) (short CHR ''C'')
       ''Server control port'',
     DEFINE_FLAG ''const char *'' ''port'' (VString (Some ''12867'')) (short CHR ''P'')
       ''Server data port'',
     DEFINE_FLAG ''const char *'' ''all_samples'' (VString None) (short CHR ''A'')
       ''Print all samples? If yes, this is the output file name'',
     flags_parser_set_optional (Field ''all_samples''),
     flags_parser_set_parser (Field ''all_samples'') parse_all_samples]"

definition parser_of :: "(flags_parser \<Rightarrow> flags_parser) list \<Rightarrow> flags_parser" where
  "parser_of table = fold (\<lambda>define. define) table (flags_parser_create zero_store)"

section \<open>Checking the options\<close>

definition CHECK :: "bool \<Rightarrow> string \<Rightarrow> world \<Rightarrow> unit outcome" where
  "CHECK cond msg w = (if \<not> cond then LOG_FATAL msg w else Ret () w)"

text \<open>The number \<open>fscanf\<close> stores is the data of its answer.\<close>

definition procfile_int :: "string \<Rightarrow> world \<Rightarrow> int outcome" where
  "procfile_int path w =
     obind (sys (COpen path) w) (\<lambda>f w.
       if r_ret f = -1 then LOG_FATAL ''fopen'' w
       else obind (sys (CFscanfInt (r_ret f)) w) (\<lambda>r w.
         if r_ret r \<noteq> 1 then LOG_FATAL ''fscanf'' w
         else obind (sys (CClose (r_ret f)) w) (\<lambda>_ w. Ret (sint (u32_of_bytes (r_data r))) w)))"

definition check_counts :: "options \<Rightarrow> world \<Rightarrow> unit outcome" where
  "check_counts opts w =
     obind (CHECK (maxevents opts \<ge> 1) ''Number of epoll events must be positive.'' w) (\<lambda>_ w.
     obind (CHECK (num_flows opts \<ge> 1) ''There must be at least 1 flow.'' w) (\<lambda>_ w.
     obind (CHECK (num_threads opts \<ge> 1) ''There must be at least 1 thread.'' w) (\<lambda>_ w.
     CHECK (client opts \<longrightarrow> num_flows opts \<ge> num_threads opts) ''There should not be less flows than threads.'' w)))"

text \<open>\<open>(1U << 31) / 1000000\<close>; the comparison is unsigned.\<close>

definition check_rates :: "options \<Rightarrow> world \<Rightarrow> unit outcome" where
  "check_rates opts w =
     obind (CHECK (min_rto opts \<ge> 0) ''TCP_MIN_RTO must be positive.'' w) (\<lambda>_ w.
     obind (CHECK (min_rto opts mod 2 ^ 32 < 2147) ''TCP_MIN_RTO * 1,000,000 must be less than 2^31 (nanoseconds).'' w) (\<lambda>_ w.
     obind (CHECK (max_pacing_rate opts \<ge> 0) ''Max pacing rate must be non-negative.'' w) (\<lambda>_ w.
     CHECK (max_pacing_rate opts \<le> 2 ^ 32 - 1) ''Max pacing rate cannot exceed 32 bits.'' w)))"

definition check_backlog :: "options \<Rightarrow> world \<Rightarrow> unit outcome" where
  "check_backlog opts w =
     obind (procfile_int ''/proc/sys/net/core/somaxconn'' w) (\<lambda>n w.
       CHECK (listen_backlog opts \<le> n) ''listen() backlog cannot exceed /proc/sys/net/core/somaxconn'' w)"

definition check_local_host :: "options \<Rightarrow> world \<Rightarrow> unit outcome" where
  "check_local_host opts w = CHECK (client opts \<or> local_host opts = None) ''local_host may only be set for clients.'' w"

definition tcp_rr_check_options :: "options \<Rightarrow> world \<Rightarrow> unit outcome" where
  "tcp_rr_check_options opts w =
     obind (CHECK (test_length opts \<ge> 1) ''Test length must be at least 1 second.'' w) (\<lambda>_ w.
     obind (check_counts opts w) (\<lambda>_ w.
     obind (CHECK (request_size opts > 0) ''Request size must be positive.'' w) (\<lambda>_ w.
     obind (CHECK (response_size opts > 0) ''Response size must be positive.'' w) (\<lambda>_ w.
     obind (CHECK (dlt (Fin 0) (interval_secs opts)) ''Interval must be positive.'' w) (\<lambda>_ w.
     obind (check_rates opts w) (\<lambda>_ w.
     obind (CHECK (buffer_size opts > 0) ''Buffer size must be positive.'' w) (\<lambda>_ w.
     obind (check_local_host opts w) (\<lambda>_ w. check_backlog opts w))))))))"

definition tcp_stream_check_options :: "options \<Rightarrow> world \<Rightarrow> unit outcome" where
  "tcp_stream_check_options opts w =
     obind (check_counts opts w) (\<lambda>_ w.
     obind (CHECK (test_length opts \<ge> 1) ''Test length must be at least 1 second.'' w) (\<lambda>_ w.
     obind (CHECK (buffer_size opts > 0) ''Buffer size must be positive.'' w) (\<lambda>_ w.
     obind (CHECK (dlt (Fin 0) (interval_secs opts)) ''Interval must be positive.'' w) (\<lambda>_ w.
     obind (check_rates opts w) (\<lambda>_ w.
     obind (check_local_host opts w) (\<lambda>_ w. check_backlog opts w))))))"

definition udp_stream_check_options :: "options \<Rightarrow> world \<Rightarrow> unit outcome" where
  "udp_stream_check_options opts w =
     obind (check_counts opts w) (\<lambda>_ w.
     obind (CHECK (test_length opts \<ge> 1) ''Test length must be at least 1 second.'' w) (\<lambda>_ w.
     obind (CHECK (buffer_size opts > 0) ''Buffer size must be positive.'' w) (\<lambda>_ w.
     obind (CHECK (dlt (Fin 0) (interval_secs opts)) ''Interval must be positive.'' w) (\<lambda>_ w.
     check_local_host opts w))))"

section \<open>The main functions\<close>

text \<open>The five calls of \<open>create_suicide_timeout\<close>; the first that fails ends it.\<close>

definition call_or_fail :: "call \<Rightarrow> (world \<Rightarrow> int outcome) \<Rightarrow> world \<Rightarrow> int outcome" where
  "call_or_fail c k w = obind (sys c w) (\<lambda>r w. if r_ret r = -1 then Ret (-1) w else k w)"

definition create_suicide_timeout :: "int \<Rightarrow> world \<Rightarrow> int outcome" where
  "create_suicide_timeout sec_to_suicide =
     call_or_fail CSigaction (call_or_fail CSigprocmask (call_or_fail CTimerCreate
       (call_or_fail (CTimerSettime sec_to_suicide) (call_or_fail CSigprocmask (Ret 0)))))"

definition get_version :: string where "get_version = ''0.3.0''"

type_synonym getopt = "int list \<Rightarrow> (string \<times> arg_kind \<times> int) list \<Rightarrow> (int \<times> string option) list \<times> string list"

text \<open>
  The main functions up to the checked options. The request/response test dumps the flags before it
  fixes the modes, the stream tests after.
\<close>

definition tcp_rr_setup :: "(int \<Rightarrow> bool) \<Rightarrow> getopt \<Rightarrow> world \<Rightarrow> options outcome" where
  "tcp_rr_setup wide getopt_long w =
     obind (flags_parser_run wide getopt_long (parser_of tcp_rr_flags) w) (\<lambda>fp w.
     obind (flags_parser_dump get_version fp w) (\<lambda>_ w.
       let opts = (options_of (fp_store fp))\<lparr>enable_write := True, enable_read := True, reuseport := True\<rparr>
       in obind (tcp_rr_check_options opts w) (\<lambda>_ w. Ret opts w)))"

definition fix_mode :: "flags_parser \<Rightarrow> flags_parser" where
  "fix_mode fp = fp\<lparr>fp_store := (fp_store fp)
     (Field (if client (options_of (fp_store fp)) then ''enable_write'' else ''enable_read'') := VBool True)\<rparr>"

definition tcp_stream_setup :: "(int \<Rightarrow> bool) \<Rightarrow> getopt \<Rightarrow> world \<Rightarrow> options outcome" where
  "tcp_stream_setup wide getopt_long w =
     obind (flags_parser_run wide getopt_long (parser_of tcp_stream_flags) w) (\<lambda>fp w.
       let fp = fix_mode fp in
       obind (flags_parser_dump get_version fp w) (\<lambda>_ w.
       let opts = (options_of (fp_store fp))\<lparr>reuseport := True\<rparr>
       in obind (tcp_stream_check_options opts w) (\<lambda>_ w. Ret opts w)))"

definition udp_stream_setup :: "(int \<Rightarrow> bool) \<Rightarrow> getopt \<Rightarrow> world \<Rightarrow> options outcome" where
  "udp_stream_setup wide getopt_long w =
     obind (flags_parser_run wide getopt_long (parser_of udp_stream_flags) w) (\<lambda>fp w.
       let fp = fix_mode fp in
       obind (flags_parser_dump get_version fp w) (\<lambda>_ w.
       let opts = options_of (fp_store fp)
       in obind (udp_stream_check_options opts w) (\<lambda>_ w. Ret opts w)))"

definition main_of :: "(world \<Rightarrow> options outcome) \<Rightarrow> (options \<Rightarrow> world \<Rightarrow> int outcome) \<Rightarrow> world \<Rightarrow> int outcome" where
  "main_of setup test w =
     obind (setup w) (\<lambda>opts w.
       if suicide_length opts \<noteq> 0
       then obind (create_suicide_timeout (suicide_length opts) w) (\<lambda>r w.
              if r \<noteq> 0 then LOG_FATAL ''create_suicide_timeout'' w else test opts w)
       else test opts w)"

section \<open>The parsers of the tables\<close>

text \<open>What the operations on a parser do to the variables, the short names and the store.\<close>

lemma update_flags_maps:
  assumes "\<And>fl. fl_var (f fl) = fl_var fl \<and> fl_short (f fl) = fl_short fl"
  shows "map fl_var (fp_flags (update_flags a f fp)) = map fl_var (fp_flags fp)"
    "map fl_short (fp_flags (update_flags a f fp)) = map fl_short (fp_flags fp)"
    "fp_store (update_flags a f fp) = fp_store fp"
  using assms by (simp_all add: update_flags_def)

lemma table_maps:
  "map fl_var (fp_flags (DEFINE_FLAG type f v c usage fp)) = Field f # map fl_var (fp_flags fp)"
  "map fl_short (fp_flags (DEFINE_FLAG type f v c usage fp)) = c # map fl_short (fp_flags fp)"
  "fp_store (DEFINE_FLAG type f v c usage fp) = (fp_store fp)(Field f := v)"
  "map fl_var (fp_flags (flags_parser_set_parser a p fp)) = map fl_var (fp_flags fp)"
  "map fl_short (fp_flags (flags_parser_set_parser a p fp)) = map fl_short (fp_flags fp)"
  "fp_store (flags_parser_set_parser a p fp) = fp_store fp"
  "map fl_var (fp_flags (flags_parser_set_printer a pr fp)) = map fl_var (fp_flags fp)"
  "map fl_short (fp_flags (flags_parser_set_printer a pr fp)) = map fl_short (fp_flags fp)"
  "fp_store (flags_parser_set_printer a pr fp) = fp_store fp"
  "map fl_var (fp_flags (flags_parser_set_optional a fp)) = map fl_var (fp_flags fp)"
  "map fl_short (fp_flags (flags_parser_set_optional a fp)) = map fl_short (fp_flags fp)"
  "fp_store (flags_parser_set_optional a fp) = fp_store fp"
  by (simp_all add: DEFINE_FLAG_def flags_parser_add_def flags_parser_set_parser_def flags_parser_set_printer_def
      flags_parser_set_optional_def update_flags_maps)

lemma created_parser:
  "map fl_var (fp_flags (flags_parser_create store)) = [Field ''script'', Version, Help]"
  "map fl_short (fp_flags (flags_parser_create store)) = [0, 118, 104]"
  "fp_store (flags_parser_create store) = store(Help := VBool False, Version := VBool False, Field ''script'' := VString None)"
  "typed (flags_parser_create store)"
  by (simp_all add: flags_parser_create_def DEFINE_FLAG_def flags_parser_add_def char_code_def typed_def flag_ok_def)

lemmas table_defs = parser_of_def table_maps created_parser(1-3) zero_store_def

lemma option_parsers_keep_type:
  "keeps_type parse_max_pacing_rate ''long long''" "keeps_type parse_all_samples ''const char *''"
  "keeps_type parse_percentiles_flag ''struct percentiles''"
  by (auto simp: keeps_type_def parse_max_pacing_rate_def parse_all_samples_def parse_percentiles_flag_def obind_eq_Ret
      split: option.splits val.splits)

lemma print_percentiles_prints: "prints_type print_percentiles_flag ''struct percentiles''"
proof -
  have "\<exists>x. print_percentiles_flag name v w = Ret () (PRINT name x w)" if "val_type v = ''struct percentiles''" for name v w
  proof (cases v)
    case (VPercentiles p)
    with percentiles_text_fits [of p] show ?thesis by (auto simp: print_percentiles_flag_def print_percentiles_def)
  qed (use that in simp_all)
  then show ?thesis by (simp add: prints_type_def)
qed

lemma typed_define:
  "typed fp \<Longrightarrow> Field f \<notin> set (map fl_var (fp_flags fp)) \<Longrightarrow> val_type v = type \<Longrightarrow> type \<noteq> ''struct percentiles'' \<Longrightarrow>
   typed (DEFINE_FLAG type f v c usage fp)"
  by (auto simp: typed_def DEFINE_FLAG_def flags_parser_add_def flag_ok_def image_iff)

lemma typed_set_parser:
  "typed fp \<Longrightarrow> keeps_type p (val_type (fp_store fp a)) \<Longrightarrow> typed (flags_parser_set_parser a p fp)"
  by (auto simp: typed_def flags_parser_set_parser_def update_flags_def flag_ok_def split: option.splits)

lemma typed_set_optional: "typed fp \<Longrightarrow> typed (flags_parser_set_optional a fp)"
  by (auto simp: typed_def flags_parser_set_optional_def update_flags_def flag_ok_def split: option.splits)

text \<open>A structure has no printer of its own: \<open>typed\<close> holds once its printer is set.\<close>

lemma typed_define_printed:
  "typed fp \<Longrightarrow> Field f \<notin> set (map fl_var (fp_flags fp)) \<Longrightarrow> keeps_type p (val_type v) \<Longrightarrow> prints_type pr (val_type v) \<Longrightarrow>
   typed (flags_parser_set_printer (Field f) pr (flags_parser_set_parser (Field f) p
     (DEFINE_FLAG (val_type v) f v c usage fp)))"
  by (auto simp: typed_def flags_parser_set_parser_def flags_parser_set_printer_def update_flags_def flag_ok_def image_iff
      DEFINE_FLAG_def flags_parser_add_def split: option.splits)

lemma tables_typed:
  "typed (parser_of tcp_rr_flags)" "typed (parser_of tcp_stream_flags)" "typed (parser_of udp_stream_flags)"
  using typed_define_printed [where f = "''percentiles''" and v = "VPercentiles no_percentiles",
      OF _ _ option_parsers_keep_type(3) [folded val_type.simps(7) [of no_percentiles]]
         print_percentiles_prints [folded val_type.simps(7) [of no_percentiles]], unfolded val_type.simps]
  by (simp_all add: tcp_rr_flags_def tcp_stream_flags_def udp_stream_flags_def parser_of_def created_parser
      typed_define typed_set_parser typed_set_optional option_parsers_keep_type table_maps del: set_map)

lemma short_names_distinct_map:
  "short_names_distinct flags \<longleftrightarrow> distinct (filter (\<lambda>c. 33 \<le> c \<and> c \<le> 126) (map fl_short flags))
     \<and> (\<forall>c\<in>set (map fl_short flags). 0 \<le> c \<and> c < 128)"
  by (simp add: short_names_distinct_def)

lemma tables_short_names:
  "short_names_distinct (fp_flags (parser_of tcp_rr_flags))" "short_names_distinct (fp_flags (parser_of tcp_stream_flags))"
  "short_names_distinct (fp_flags (parser_of udp_stream_flags))"
  unfolding short_names_distinct_map
  by (simp_all add: short_def char_code_def tcp_rr_flags_def tcp_stream_flags_def udp_stream_flags_def table_defs del: set_map)

definition table_ok :: "(flags_parser \<Rightarrow> flags_parser) list \<Rightarrow> bool" where
  "table_ok table \<longleftrightarrow> typed (parser_of table) \<and> short_names_distinct (fp_flags (parser_of table))"

section \<open>Ranges\<close>

text \<open>
  What a variable can hold after parsing: \<open>atoi\<close> gives an \<open>int\<close>, and the array of percentiles keeps
  its length. Variables without a flag are never written.
\<close>

fun sane :: "val \<Rightarrow> bool" where
  "sane (VInt n) = int_ok n"
| "sane (VPercentiles p) = (length (chosen p) = 101)"
| "sane _ = True"

definition keeps_sane :: "flag_parser \<Rightarrow> bool" where
  "keeps_sane p \<longleftrightarrow> (\<forall>arg old w v w'. sane old \<longrightarrow> p arg old w = Ret v w' \<longrightarrow> sane v)"

lemma int_ok_atoi: "int_ok (atoi s)"
  using sint_lt [of "word_of_int (fst (strtol10 s)) :: 32 word"] sint_ge [of "word_of_int (fst (strtol10 s)) :: 32 word"]
  by (simp add: int_ok_def atoi_def case_prod_beta)

lemma default_parser_keeps_sane: "keeps_sane (default_parser type)"
  by (auto simp: keeps_sane_def default_parser_def int_ok_atoi split: if_splits option.splits)

lemma parse_percentiles_length: "parse_percentiles arg p w = Ret p' w' \<Longrightarrow> length (chosen p') = length (chosen p)"
proof (induction arg p w rule: parse_percentiles.induct)
  case (1 arg p w)
  show ?case
    using "1.prems" [unfolded parse_percentiles.simps [of arg p w]] "1.IH"
    by (auto simp: Let_def LOG_FATAL_def split: prod.splits if_splits list.splits)
qed

lemma option_parsers_keep_sane:
  "keeps_sane parse_max_pacing_rate" "keeps_sane parse_all_samples" "keeps_sane parse_percentiles_flag"
  by (auto simp: keeps_sane_def parse_max_pacing_rate_def parse_all_samples_def parse_percentiles_flag_def obind_eq_Ret
      dest: parse_percentiles_length split: option.splits val.splits)

definition parser_sane :: "flags_parser \<Rightarrow> bool" where
  "parser_sane fp \<longleftrightarrow> (\<forall>a. sane (fp_store fp a))
     \<and> (\<forall>fl\<in>set (fp_flags fp). case fl_parser fl of None \<Rightarrow> True | Some p \<Rightarrow> keeps_sane p)"

lemma parse_results_sane:
  "parse_results wide flags rs store w = Ret store' w' \<Longrightarrow> \<forall>a. sane (store a) \<Longrightarrow>
   \<forall>fl\<in>set flags. case fl_parser fl of None \<Rightarrow> True | Some p \<Rightarrow> keeps_sane p \<Longrightarrow>
   (\<forall>a. sane (store' a)) \<and> (\<forall>a. a \<notin> fl_var ` set flags \<longrightarrow> store' a = store a)"
proof (induction wide flags rs store w rule: parse_results.induct)
  case (2 wide flags c optarg rs store w)
  let ?i = "flag_index wide flags c"
  let ?fl = "flags ! ?i"
  let ?parse = "case fl_parser ?fl of Some p \<Rightarrow> p | None \<Rightarrow> default_parser (fl_type ?fl)"
  from "2.prems"(1) have i: "c \<noteq> int (char_code (CHR ''?''))" "\<not> length flags \<le> ?i"
    by (auto simp: usage_exit_def Let_def split: if_splits)
  with "2.prems"(1) obtain v w1 where v: "?parse optarg (store (fl_var ?fl)) w = Ret v w1"
    "parse_results wide flags rs (store(fl_var ?fl := v)) w1 = Ret store' w'"
    by (auto simp: Let_def obind_eq_Ret)
  have fl: "?fl \<in> set flags" using i(2) by simp
  with "2.prems"(3) have "keeps_sane ?parse"
    by (auto simp: default_parser_keeps_sane split: option.splits)
  with v(1) "2.prems"(2) have "sane v" unfolding keeps_sane_def by blast
  with "2.prems"(2) have "\<forall>a. sane ((store(fl_var ?fl := v)) a)" by simp
  from "2.IH" [OF i(1) refl i(2) refl refl v(1) v(2) this "2.prems"(3)] fl show ?case by auto
qed simp

lemma flags_parser_run_sane:
  assumes "flags_parser_run wide getopt_long fp w = Ret fp' w'" "parser_sane fp"
  shows "\<forall>a. sane (fp_store fp' a)" "a \<notin> fl_var ` set (fp_flags fp) \<Longrightarrow> fp_store fp' a = fp_store fp a"
proof -
  have "(\<forall>a. sane (fp_store fp' a)) \<and> (\<forall>a. a \<notin> fl_var ` set (fp_flags fp) \<longrightarrow> fp_store fp' a = fp_store fp a)"
  proof (cases "fp_flags fp = []")
    case False
    obtain results others where g:
      "getopt_long (shortopts wide (sort_flags (fp_flags fp))) (longopts (sort_flags (fp_flags fp))) = (results, others)"
      by fastforce
    with assms(1) False obtain store w1 where r: "parse_results wide (sort_flags (fp_flags fp)) results (fp_store fp) w = Ret store w1"
      "fp' = fp\<lparr>fp_store := store\<rparr>"
      by (auto simp: flags_parser_run_def Let_def obind_eq_Ret usage_exit_def split: if_splits)
    from parse_results_sane [OF r(1)] assms(2) r(2) show ?thesis by (simp add: parser_sane_def)
  qed (use assms in \<open>auto simp: flags_parser_run_def parser_sane_def\<close>)
  then show "\<forall>a. sane (fp_store fp' a)" "a \<notin> fl_var ` set (fp_flags fp) \<Longrightarrow> fp_store fp' a = fp_store fp a" by auto
qed

lemma parser_sane_define [simp]: "parser_sane fp \<Longrightarrow> sane v \<Longrightarrow> parser_sane (DEFINE_FLAG type f v c usage fp)"
  by (auto simp: parser_sane_def DEFINE_FLAG_def flags_parser_add_def)

lemma parser_sane_set [simp]:
  "parser_sane fp \<Longrightarrow> keeps_sane p \<Longrightarrow> parser_sane (flags_parser_set_parser a p fp)"
  "parser_sane fp \<Longrightarrow> parser_sane (flags_parser_set_printer a pr fp)"
  "parser_sane fp \<Longrightarrow> parser_sane (flags_parser_set_optional a fp)"
  by (auto simp: parser_sane_def flags_parser_set_parser_def flags_parser_set_printer_def flags_parser_set_optional_def update_flags_def)

lemma tables_sane:
  "parser_sane (parser_of tcp_rr_flags)" "parser_sane (parser_of tcp_stream_flags)" "parser_sane (parser_of udp_stream_flags)"
proof -
  have start: "parser_sane (flags_parser_create zero_store)"
    by (auto simp: parser_sane_def flags_parser_create_def DEFINE_FLAG_def flags_parser_add_def zero_store_def int_ok_def)
  then show "parser_sane (parser_of tcp_rr_flags)" "parser_sane (parser_of tcp_stream_flags)" "parser_sane (parser_of udp_stream_flags)"
    by (simp_all add: parser_of_def tcp_rr_flags_def tcp_stream_flags_def udp_stream_flags_def option_parsers_keep_sane
        int_ok_def no_percentiles_def)
qed

text \<open>The stream tests have no flags for the sizes of messages.\<close>

lemma stream_tables_sizes:
  "Field ''request_size'' \<notin> set (map fl_var (fp_flags (parser_of tcp_stream_flags)))"
  "Field ''response_size'' \<notin> set (map fl_var (fp_flags (parser_of tcp_stream_flags)))"
  "Field ''request_size'' \<notin> set (map fl_var (fp_flags (parser_of udp_stream_flags)))"
  "Field ''response_size'' \<notin> set (map fl_var (fp_flags (parser_of udp_stream_flags)))"
  "Field ''min_rto'' \<notin> set (map fl_var (fp_flags (parser_of udp_stream_flags)))"
  by (simp_all add: tcp_stream_flags_def udp_stream_flags_def table_defs del: set_map)

lemma stream_tables_zero:
  "fp_store (parser_of tcp_stream_flags) (Field ''request_size'') = VInt 0"
  "fp_store (parser_of tcp_stream_flags) (Field ''response_size'') = VInt 0"
  "fp_store (parser_of udp_stream_flags) (Field ''request_size'') = VInt 0"
  "fp_store (parser_of udp_stream_flags) (Field ''response_size'') = VInt 0"
  "fp_store (parser_of udp_stream_flags) (Field ''min_rto'') = VInt 0"
  by (simp_all add: tcp_stream_flags_def udp_stream_flags_def table_defs)

section \<open>What the checks establish\<close>

lemma CHECK_eq_Ret [simp]: "CHECK cond msg w = Ret u w' \<longleftrightarrow> cond \<and> w' = w"
  by (auto simp: CHECK_def LOG_FATAL_def)

text \<open>
  What the reports and the workers rely on. The check of the interval lets infinity pass, for which no
  interval would ever end.
\<close>

definition checked :: "options \<Rightarrow> bool" where
  "checked opts \<longleftrightarrow> 1 \<le> test_length opts \<and> 1 \<le> maxevents opts \<and> 1 \<le> num_threads opts \<and> 1 \<le> num_flows opts
     \<and> (client opts \<longrightarrow> num_threads opts \<le> num_flows opts) \<and> 0 < buffer_size opts
     \<and> dlt (Fin 0) (interval_secs opts) \<and> (client opts \<or> local_host opts = None)"

definition rates_checked :: "options \<Rightarrow> bool" where
  "rates_checked opts \<longleftrightarrow> 0 \<le> min_rto opts \<and> min_rto opts mod 2 ^ 32 < 2147 \<and> 0 \<le> max_pacing_rate opts
     \<and> max_pacing_rate opts < 2 ^ 32"

lemma check_parts_Ret:
  "check_counts opts w = Ret () w' \<Longrightarrow> 1 \<le> maxevents opts \<and> 1 \<le> num_flows opts \<and> 1 \<le> num_threads opts
     \<and> (client opts \<longrightarrow> num_threads opts \<le> num_flows opts)"
  "check_rates opts w = Ret () w' \<Longrightarrow> rates_checked opts"
  "check_local_host opts w = Ret () w' \<Longrightarrow> client opts \<or> local_host opts = None"
  by (auto simp: check_counts_def check_rates_def check_local_host_def rates_checked_def obind_eq_Ret)

lemma check_options_Ret:
  "tcp_rr_check_options opts w = Ret () w' \<Longrightarrow> checked opts \<and> rates_checked opts \<and> 0 < request_size opts \<and> 0 < response_size opts"
  "tcp_stream_check_options opts w = Ret () w' \<Longrightarrow> checked opts \<and> rates_checked opts"
  "udp_stream_check_options opts w = Ret () w' \<Longrightarrow> checked opts"
  by (auto simp: tcp_rr_check_options_def tcp_stream_check_options_def udp_stream_check_options_def checked_def obind_eq_Ret
      dest!: check_parts_Ret)


lemma rates_checked_rto: "rates_checked opts \<Longrightarrow> min_rto opts < 2 ^ 31 \<Longrightarrow> rto_ok opts"
  using mod_pos_pos_trivial [of "min_rto opts" "2 ^ 32"] by (auto simp: rates_checked_def rto_ok_def)

text \<open>A field read from a sane store is an \<open>int\<close>.\<close>

lemma sane_int: "sane v \<Longrightarrow> int_of v < 2 ^ 31" "sane v \<Longrightarrow> - (2 ^ 31) \<le> int_of v"
  by (cases v; simp add: int_ok_def)+

lemma sane_options:
  assumes "\<forall>a. sane (store a)"
  shows "request_size (options_of store) < 2 ^ 31" "response_size (options_of store) < 2 ^ 31"
    "buffer_size (options_of store) < 2 ^ 31" "min_rto (options_of store) < 2 ^ 31"
    "num_threads (options_of store) < 2 ^ 31" "num_flows (options_of store) < 2 ^ 31"
    "length (chosen (opt_percentiles (options_of store))) = 101"
proof -
  have "length (chosen (percentiles_of v)) = 101" if "sane v" for v
    using that by (cases v) (simp_all add: no_percentiles_def)
  with assms sane_int(1) show "request_size (options_of store) < 2 ^ 31" "response_size (options_of store) < 2 ^ 31"
    "buffer_size (options_of store) < 2 ^ 31" "min_rto (options_of store) < 2 ^ 31"
    "num_threads (options_of store) < 2 ^ 31" "num_flows (options_of store) < 2 ^ 31"
    "length (chosen (opt_percentiles (options_of store))) = 101"
    by (simp_all add: options_of_def Let_def)
qed

lemma fix_mode_store:
  "name \<noteq> ''enable_write'' \<Longrightarrow> name \<noteq> ''enable_read'' \<Longrightarrow> fp_store (fix_mode fp) (Field name) = fp_store fp (Field name)"
  by (simp add: fix_mode_def)

lemma fix_mode_sane: "\<forall>a. sane (fp_store fp a) \<Longrightarrow> \<forall>a. sane (fp_store (fix_mode fp) a)"
  by (simp add: fix_mode_def)

lemma options_of_Ret:
  assumes "flags_parser_run wide getopt_long (parser_of table) w = Ret fp w'" "parser_sane (parser_of table)"
  shows "\<forall>a. sane (fp_store fp a)" "\<forall>a. sane (fp_store (fix_mode fp) a)"
  using flags_parser_run_sane(1) [OF assms] fix_mode_sane by blast+

lemma stream_sizes_Ret:
  assumes "flags_parser_run wide getopt_long (parser_of table) w = Ret fp w'"
    "table = tcp_stream_flags \<or> table = udp_stream_flags"
  shows "request_size (options_of (fp_store (fix_mode fp))) = 0" "response_size (options_of (fp_store (fix_mode fp))) = 0"
    "table = udp_stream_flags \<Longrightarrow> min_rto (options_of (fp_store (fix_mode fp))) = 0"
proof -
  have s: "parser_sane (parser_of table)" using assms(2) tables_sane by auto
  show "request_size (options_of (fp_store (fix_mode fp))) = 0" "response_size (options_of (fp_store (fix_mode fp))) = 0"
    "table = udp_stream_flags \<Longrightarrow> min_rto (options_of (fp_store (fix_mode fp))) = 0"
    using assms(2) flags_parser_run_sane(2) [OF assms(1) s] stream_tables_sizes stream_tables_zero
    by (auto simp: options_of_def Let_def fix_mode_def)
qed

section \<open>Properties\<close>

lemma tcp_rr_setup_Ret:
  assumes "tcp_rr_setup wide getopt_long w = Ret opts w'"
  shows "rr_valid opts \<and> rto_ok opts \<and> checked opts \<and> length (chosen (opt_percentiles opts)) = 101
    \<and> worker_opts (interval_secs opts) opts"
proof -
  from assms obtain fp w1 w2 where r: "flags_parser_run wide getopt_long (parser_of tcp_rr_flags) w = Ret fp w1"
    and opts: "opts = (options_of (fp_store fp))\<lparr>enable_write := True, enable_read := True, reuseport := True\<rparr>"
    and c: "tcp_rr_check_options opts w2 = Ret () w'"
    by (auto simp: tcp_rr_setup_def obind_eq_Ret Let_def)
  note sane = sane_options [OF options_of_Ret(1) [OF r tables_sane(1)]]
  from check_options_Ret(1) [OF c] have ok: "checked opts" "rates_checked opts" "0 < request_size opts" "0 < response_size opts"
    by auto
  then have "rr_valid opts" "rto_ok opts" "length (chosen (opt_percentiles opts)) = 101"
    using sane rates_checked_rto [of opts] by (simp_all add: opts rr_valid_def checked_def)
  with ok show ?thesis by (auto simp: worker_opts_def checked_def)
qed

text \<open>
  C23: The options \<open>tcp_rr\<close>'s main function hands to the test are the ones its workers need: the sizes
  are positive and fit an \<open>int\<close>, TCP_MIN_RTO does not overflow in nanoseconds, a client has a flow for
  every thread, and the workers' assumptions hold (an infinite interval is allowed: it never ends). The array of chosen
  percentiles has its full length.
\<close>

theorem tcp_rr_setup_valid:
  assumes "tcp_rr_setup wide getopt_long w = Ret opts w'"
  shows "rr_valid opts \<and> rto_ok opts \<and> checked opts \<and> length (chosen (opt_percentiles opts)) = 101
    \<and> worker_opts (interval_secs opts) opts"
  using assms by (rule tcp_rr_setup_Ret)

lemma stream_setup_Ret:
  assumes "tcp_stream_setup wide getopt_long w = Ret opts w' \<or> udp_stream_setup wide getopt_long w = Ret opts w'"
  shows "stream_valid opts \<and> rto_ok opts \<and> checked opts \<and> (if client opts then enable_write opts else enable_read opts)
    \<and> worker_opts (interval_secs opts) opts"
proof -
  from assms obtain table fp w1 w2 b where
    r: "flags_parser_run wide getopt_long (parser_of table) w = Ret fp w1" and
    table: "table = tcp_stream_flags \<or> table = udp_stream_flags" and
    opts: "opts = (options_of (fp_store (fix_mode fp)))\<lparr>reuseport := b\<rparr>" and
    c: "checked opts" "rates_checked opts \<or> table = udp_stream_flags"
  proof (elim disjE, goal_cases)
    case 1
    then show ?thesis
      by (auto simp: tcp_stream_setup_def obind_eq_Ret Let_def dest!: check_options_Ret(2) intro: 1(1))
  next
    case 2
    then obtain fp w1 w2 where "flags_parser_run wide getopt_long (parser_of udp_stream_flags) w = Ret fp w1"
      "opts = options_of (fp_store (fix_mode fp))" "udp_stream_check_options opts w2 = Ret () w'"
      by (auto simp: udp_stream_setup_def obind_eq_Ret Let_def)
    with 2(1) [of udp_stream_flags fp w1 "reuseport opts"] show ?thesis
      by (auto dest!: check_options_Ret(3))
  qed
  from table have "parser_sane (parser_of table)" using tables_sane by auto
  note sane = sane_options [OF options_of_Ret(2) [OF r this]] and sizes = stream_sizes_Ret [OF r table]
  have "stream_valid opts" using sane(3) sizes(1,2) c(1) by (simp add: opts stream_valid_def checked_def)
  moreover have "rto_ok opts"
    using table sizes(3) c(2) sane(4) rates_checked_rto [of opts] by (auto simp: opts rto_ok_def)
  moreover have "if client opts then enable_write opts else enable_read opts"
    by (simp add: opts fix_mode_def options_of_def Let_def)
  ultimately show ?thesis using c(1) by (auto simp: worker_opts_def checked_def)
qed

text \<open>
  C24: The same for the stream tests. They have no options for the sizes of messages, which stay 0, and
  \<open>udp_stream\<close> has none for TCP_MIN_RTO. The server always reads, the client always writes.
\<close>

theorem stream_setup_valid:
  assumes "tcp_stream_setup wide getopt_long w = Ret opts w' \<or> udp_stream_setup wide getopt_long w = Ret opts w'"
  shows "stream_valid opts \<and> rto_ok opts \<and> checked opts \<and> (if client opts then enable_write opts else enable_read opts)
    \<and> worker_opts (interval_secs opts) opts"
  using assms by (rule stream_setup_Ret)

text \<open>
  The flag tables of the three programs are well formed: short names differ, every variable starts
  with a value of its flag's type, and the special parsers and printers keep to that type. So (with the
  facts about \<open>flags.c\<close>) the command line never stores a value of the wrong type in the options.
\<close>

theorem flag_tables_ok:
  "table_ok tcp_rr_flags \<and> table_ok tcp_stream_flags \<and> table_ok udp_stream_flags"
  using tables_typed tables_short_names by (simp add: table_ok_def)

section \<open>Witnesses\<close>

text \<open>A command line without arguments.\<close>

definition no_arguments :: getopt where "no_arguments = (\<lambda>_ _. ([], []))"

lemma run_no_arguments:
  "fp_store fp Help \<noteq> VBool True \<Longrightarrow> fp_store fp Version \<noteq> VBool True \<Longrightarrow>
   flags_parser_run (\<lambda>_. False) no_arguments fp w = Ret fp w"
  by (simp add: flags_parser_run_def no_arguments_def Let_def)

lemma table_defaults:
  "table \<in> {tcp_rr_flags, tcp_stream_flags, udp_stream_flags} \<Longrightarrow>
   fp_store (parser_of table) Help \<noteq> VBool True \<and> fp_store (parser_of table) Version \<noteq> VBool True"
  by (auto simp: tcp_rr_flags_def tcp_stream_flags_def udp_stream_flags_def table_defs)

lemma options_of_fields:
  "test_length (options_of store) = int_of (store (Field ''test_length''))"
  "maxevents (options_of store) = int_of (store (Field ''maxevents''))"
  "num_flows (options_of store) = int_of (store (Field ''num_flows''))"
  "num_threads (options_of store) = int_of (store (Field ''num_threads''))"
  "request_size (options_of store) = int_of (store (Field ''request_size''))"
  "response_size (options_of store) = int_of (store (Field ''response_size''))"
  "buffer_size (options_of store) = int_of (store (Field ''buffer_size''))"
  "listen_backlog (options_of store) = int_of (store (Field ''listen_backlog''))"
  "min_rto (options_of store) = int_of (store (Field ''min_rto''))"
  "max_pacing_rate (options_of store) = long_of (store (Field ''max_pacing_rate''))"
  "interval_secs (options_of store) = double_of (store (Field ''interval''))"
  "client (options_of store) = bool_of (store (Field ''client''))"
  "local_host (options_of store) = string_of (store (Field ''local_host''))"
  by (simp_all add: options_of_def Let_def)

lemma tcp_rr_defaults:
  "fp_store (parser_of tcp_rr_flags) (Field ''test_length'') = VInt 10"
  "fp_store (parser_of tcp_rr_flags) (Field ''maxevents'') = VInt 1000"
  "fp_store (parser_of tcp_rr_flags) (Field ''num_flows'') = VInt 1"
  "fp_store (parser_of tcp_rr_flags) (Field ''num_threads'') = VInt 1"
  "fp_store (parser_of tcp_rr_flags) (Field ''request_size'') = VInt 1"
  "fp_store (parser_of tcp_rr_flags) (Field ''response_size'') = VInt 1"
  "fp_store (parser_of tcp_rr_flags) (Field ''buffer_size'') = VInt 65536"
  "fp_store (parser_of tcp_rr_flags) (Field ''listen_backlog'') = VInt 128"
  "fp_store (parser_of tcp_rr_flags) (Field ''min_rto'') = VInt 0"
  "fp_store (parser_of tcp_rr_flags) (Field ''max_pacing_rate'') = VLongLong 0"
  "fp_store (parser_of tcp_rr_flags) (Field ''interval'') = VDouble (Fin 1)"
  "fp_store (parser_of tcp_rr_flags) (Field ''client'') = VBool False"
  "fp_store (parser_of tcp_rr_flags) (Field ''local_host'') = VString None"
  by (simp_all add: tcp_rr_flags_def table_defs)

lemma udp_stream_defaults:
  "fp_store (parser_of udp_stream_flags) (Field ''test_length'') = VInt 10"
  "fp_store (parser_of udp_stream_flags) (Field ''maxevents'') = VInt 1000"
  "fp_store (parser_of udp_stream_flags) (Field ''num_flows'') = VInt 1"
  "fp_store (parser_of udp_stream_flags) (Field ''num_threads'') = VInt 1"
  "fp_store (parser_of udp_stream_flags) (Field ''buffer_size'') = VInt 16384"
  "fp_store (parser_of udp_stream_flags) (Field ''interval'') = VDouble (Fin 1)"
  "fp_store (parser_of udp_stream_flags) (Field ''client'') = VBool False"
  "fp_store (parser_of udp_stream_flags) (Field ''local_host'') = VString None"
  by (simp_all add: udp_stream_flags_def table_defs)

lemmas check_defs = check_counts_def check_rates_def check_local_host_def check_backlog_def CHECK_def options_of_fields fix_mode_store

lemma typed_fix_mode:
  "typed fp \<Longrightarrow> Field ''enable_write'' \<notin> set (map fl_var (fp_flags fp)) \<Longrightarrow> Field ''enable_read'' \<notin> set (map fl_var (fp_flags fp)) \<Longrightarrow>
   typed (fix_mode fp)"
  by (auto simp: typed_def fix_mode_def image_iff)

lemma udp_stream_no_modes:
  "Field ''enable_write'' \<notin> set (map fl_var (fp_flags (parser_of udp_stream_flags)))"
  "Field ''enable_read'' \<notin> set (map fl_var (fp_flags (parser_of udp_stream_flags)))"
  by (simp_all add: udp_stream_flags_def table_defs del: set_map)

lemma dump_typed:
  assumes "typed fp"
  obtains w' where "flags_parser_dump version fp w = Ret () w'" "w_inputs w' = w_inputs w"
  using dump_flags_typed [of "fp_flags fp" "fp_store fp" "PRINT ''VERSION'' (PStr version) w"] assms
  by (auto simp: flags_parser_dump_def typed_def)

text \<open>The file of the kernel's limit holds 4096.\<close>

definition limit_answers :: "kernel list" where
  "limit_answers = [\<lambda>_ _. resp0\<lparr>r_ret := 3\<rparr>, \<lambda>_ _. resp0\<lparr>r_ret := 1, r_data := [0, 16, 0, 0]\<rparr>, \<lambda>_ _. resp0]"

lemma limit_read: "w_inputs w = limit_answers \<Longrightarrow> \<exists>w'. procfile_int path w = Ret 4096 w'"
  by (simp add: procfile_int_def limit_answers_def sys_def resp0_def u32_of_bytes_def Let_def)

theorem tcp_rr_setup_valid_witness:
  "\<exists>opts w'. tcp_rr_setup (\<lambda>_. False) no_arguments (world0 limit_answers) = Ret opts w' \<and> rr_valid opts"
proof -
  let ?fp = "parser_of tcp_rr_flags"
  obtain w1 where d: "flags_parser_dump get_version ?fp (world0 limit_answers) = Ret () w1" "w_inputs w1 = limit_answers"
    using dump_typed [OF tables_typed(1), of get_version "world0 limit_answers"] by (auto simp: world0_def)
  obtain w2 where p: "procfile_int ''/proc/sys/net/core/somaxconn'' w1 = Ret 4096 w2"
    using limit_read [OF d(2)] by blast
  have r: "tcp_rr_setup (\<lambda>_. False) no_arguments (world0 limit_answers)
    = Ret ((options_of (fp_store ?fp))\<lparr>enable_write := True, enable_read := True, reuseport := True\<rparr>) w2"
    using table_defaults [of tcp_rr_flags]
    by (simp add: tcp_rr_setup_def run_no_arguments d(1) tcp_rr_check_options_def check_defs tcp_rr_defaults p)
  from tcp_rr_setup_valid [OF r] r show ?thesis by blast
qed

theorem stream_setup_valid_witness:
  "\<exists>opts w'. udp_stream_setup (\<lambda>_. False) no_arguments (world0 []) = Ret opts w' \<and> stream_valid opts \<and> enable_read opts"
proof -
  let ?fp = "fix_mode (parser_of udp_stream_flags)"
  have "typed ?fp" using typed_fix_mode [OF tables_typed(3) udp_stream_no_modes] .
  then obtain w1 where d: "flags_parser_dump get_version ?fp (world0 []) = Ret () w1"
    using dump_typed by blast
  have r: "udp_stream_setup (\<lambda>_. False) no_arguments (world0 []) = Ret (options_of (fp_store ?fp)) w1"
    using table_defaults [of udp_stream_flags]
    by (simp add: udp_stream_setup_def run_no_arguments d udp_stream_check_options_def check_defs udp_stream_defaults)
  have "\<not> client (options_of (fp_store ?fp))"
    by (simp add: check_defs udp_stream_defaults)
  with stream_setup_valid [OF disjI2 [OF r]] r show ?thesis by auto
qed

end
