(* ===== verification/Thread.thy ===== *)
theory Thread
  imports ControlPlane Cpuinfo Sample
begin

text \<open>
  \<open>thread.c\<close>: the main thread. It opens the control connection, creates and starts the workers, waits
  for the end of the test, stops and joins the workers, and reports. What the workers have done when
  they are joined (the state of their threads and the shared start of the measurement) is a parameter
  of the definitions; the theorems about the workers say what it can be.
\<close>

section \<open>CPU sets\<close>

definition CPU_SETSIZE :: nat where "CPU_SETSIZE = 1024"

text \<open>The macro ignores a processor outside the set; a set is the list of its processors.\<close>

definition CPU_SET :: "int \<Rightarrow> nat list \<Rightarrow> nat list" where
  "CPU_SET cpu cpuset =
     (if 0 \<le> cpu \<and> cpu < int CPU_SETSIZE \<and> nat cpu \<notin> set cpuset then cpuset @ [nat cpu] else cpuset)"

fun find_core :: "int \<times> int \<Rightarrow> (int \<times> int) list \<Rightarrow> nat" where
  "find_core core [] = 0"
| "find_core core (c # cs) = (if c = core then 0 else Suc (find_core core cs))"

definition add_cpu :: "cpuinfo \<Rightarrow> (int \<times> int) list \<times> nat list list \<Rightarrow> (int \<times> int) list \<times> nat list list" where
  "add_cpu cpu st = (case st of (cores, cpusets) \<Rightarrow>
     let core = (physical_id cpu, core_id cpu); j = find_core core cores;
         (cores, cpusets) = (if j = length cores then (cores @ [core], cpusets @ [[]]) else (cores, cpusets))
     in (cores, cpusets[j := CPU_SET (processor cpu) (cpusets ! j)]))"

definition get_cpuset :: "world \<Rightarrow> nat list list outcome" where
  "get_cpuset w =
     obind (get_cpuinfo CPU_SETSIZE w) (\<lambda>res w. case res of
       None \<Rightarrow> LOG_FATAL ''get_cpuinfo'' w
     | Some cpus \<Rightarrow>
         if cpus = [] then LOG_FATAL ''no cpu found in /proc/cpuinfo'' w
         else let w = fold (\<lambda>_. LOG_INFO ''%d %d %d %d %d'') cpus w
              in Ret (snd (fold add_cpu cpus ([], []))) w)"

section \<open>Workers\<close>

record main_context =
  mc_cp :: control_plane
  mc_workers :: "thread list"
  mc_rusage_end :: rusage

definition call_or_die :: "call \<Rightarrow> string \<Rightarrow> world \<Rightarrow> unit outcome" where
  "call_or_die c msg w = obind (sys c w) (\<lambda>r w. if r_ret r \<noteq> 0 then LOG_FATAL msg w else Ret () w)"

fun start_threads :: "bool \<Rightarrow> nat list list \<Rightarrow> nat \<Rightarrow> nat \<Rightarrow> world \<Rightarrow> unit outcome" where
  "start_threads pin cpusets i 0 w = Ret () w"
| "start_threads pin cpusets i (Suc n) w =
     obind (if pin
            then if cpusets = [] then Fault w \<comment> \<open>\<open>i % 0\<close>\<close>
                 else call_or_die (CAttrSetaffinity (cpusets ! (i mod length cpusets))) ''pthread_attr_setaffinity_np: %s'' w
            else Ret () w) (\<lambda>_ w.
     obind (call_or_die (CPthreadCreate i) ''pthread_create: %s'' w) (\<lambda>_ w.
       start_threads pin cpusets (i + 1) n w))"

definition start_worker_threads :: "bool \<Rightarrow> nat \<Rightarrow> world \<Rightarrow> unit outcome" where
  "start_worker_threads pin n_workers w =
     obind (if pin then get_cpuset w else Ret [[]] w) (\<lambda>cpusets w.
     obind (call_or_die CAttrInit ''pthread_attr_init: %s'' w) (\<lambda>_ w.
     obind (start_threads pin cpusets 0 n_workers w) (\<lambda>_ w.
     call_or_die CAttrDestroy ''pthread_attr_destroy: %s'' w)))"

text \<open>One thread after the other; the rest of the structure is zero from \<open>calloc\<close>.\<close>

fun create_threads :: "addrinfo \<Rightarrow> script_engine \<Rightarrow> nat \<Rightarrow> nat \<Rightarrow> world \<Rightarrow> thread list outcome" where
  "create_threads ai se i 0 w = Ret [] w"
| "create_threads ai se i (Suc n) w =
     obind (sys CEventfd w) (\<lambda>r w.
       if r_ret r = -1 then LOG_FATAL ''eventfd'' w
       else obind (script_slave_create se w) (\<lambda>s w. case s of
         Inl _ \<Rightarrow> LOG_FATAL ''failed to create script slave: %s'' w
       | Inr ss \<Rightarrow>
           obind (create_threads ai se (i + 1) n w) (\<lambda>ts w.
             Ret (\<lparr>t_index = int i, t_stop_efd = r_ret r, t_ai = copy_addrinfo ai, t_samples = [],
               t_transactions = 0, t_next_flow_id = 0, t_stop = False, t_script = ss, t_flows = Map.empty,
               t_next_ptr = 0\<rparr> # ts) w)))"

definition create_worker_threads :: "options \<Rightarrow> addrinfo \<Rightarrow> script_engine \<Rightarrow> world \<Rightarrow> thread list outcome" where
  "create_worker_threads opts ai se w = create_threads ai se 0 (nat (num_threads opts)) w"

fun tell_threads :: "thread list \<Rightarrow> world \<Rightarrow> unit outcome" where
  "tell_threads [] w = Ret () w"
| "tell_threads (t # ts) w =
     obind (call_or_die (CEventfdWrite (t_stop_efd t)) ''eventfd_write'' w) (\<lambda>_ w.
       tell_threads ts (LOG_INFO ''told thread %d to stop'' w))"

fun join_threads :: "nat \<Rightarrow> nat \<Rightarrow> world \<Rightarrow> unit outcome" where
  "join_threads i 0 w = Ret () w"
| "join_threads i (Suc n) w =
     obind (call_or_die (CPthreadJoin i) ''pthread_join: %s'' w) (\<lambda>_ w.
       join_threads (i + 1) n (LOG_INFO ''joined thread %d'' w))"

definition stop_worker_threads :: "thread list \<Rightarrow> world \<Rightarrow> unit outcome" where
  "stop_worker_threads ts w = obind (tell_threads ts w) (\<lambda>_ w. join_threads 0 (length ts) w)"

fun free_worker_threads :: "thread list \<Rightarrow> world \<Rightarrow> unit outcome" where
  "free_worker_threads [] w = Ret () w"
| "free_worker_threads (t # ts) w =
     obind (do_close (t_stop_efd t) w) (\<lambda>_ w. let samples = free_samples (t_samples t) in free_worker_threads ts w)"

fun push_script_data :: "script_engine \<Rightarrow> thread list \<Rightarrow> world \<Rightarrow> unit outcome" where
  "push_script_data se [] w = Ret () w"
| "push_script_data se (t # ts) w =
     obind (script_engine_push_data se (t_script t) w) (\<lambda>_ w. push_script_data se ts w)"

fun pull_script_data :: "script_engine \<Rightarrow> thread list \<Rightarrow> world \<Rightarrow> unit outcome" where
  "pull_script_data se [] w = Ret () w"
| "pull_script_data se (t # ts) w =
     obind (script_engine_pull_data se (t_script t) w) (\<lambda>_ w. pull_script_data se ts w)"

text \<open>The slaves hold a pointer to the engine, so they see the hooks it has when the workers run.\<close>

definition with_engine :: "script_engine \<Rightarrow> thread \<Rightarrow> thread" where
  "with_engine se t = t\<lparr>t_script := (t_script t)\<lparr>ss_se := se\<rparr>\<rparr>"

text \<open>What the workers leave behind: their threads, and the start of the measurement with its usage.\<close>

type_synonym workers_run = "thread list \<Rightarrow> world \<Rightarrow> thread list \<times> timespec \<times> rusage"

definition run_worker_threads :: "workers_run \<Rightarrow> options \<Rightarrow> script_engine \<Rightarrow> main_context \<Rightarrow> world \<Rightarrow> main_context outcome" where
  "run_worker_threads workers_run opts se ctx w =
     (let workers = map (with_engine se) (mc_workers ctx) in
     obind (push_script_data se workers w) (\<lambda>_ w.
     obind (start_worker_threads (pin_cpu opts) (length workers) w) (\<lambda>_ w.
     obind (sys CBarrierWait (LOG_INFO ''started worker threads'' w)) (\<lambda>_ w.
     obind (sys (CGetrusage RUSAGE_SELF) (LOG_INFO ''worker threads are ready'' w)) (\<lambda>r w.
     obind (control_plane_wait_until_done opts (mc_cp ctx) (w\<lparr>w_rusage_start := r_rusage r\<rparr>)) (\<lambda>cp w.
     obind (sys (CGetrusage RUSAGE_SELF) w) (\<lambda>r w.
     obind (stop_worker_threads workers w) (\<lambda>_ w.
     case workers_run workers w of (workers, time_start, rusage_start) \<Rightarrow>
     obind (pull_script_data se workers
         (LOG_INFO ''stopped worker threads'' (w\<lparr>w_time_start := time_start, w_rusage_start := rusage_start\<rparr>))) (\<lambda>_ w.
     Ret \<lparr>mc_cp = cp, mc_workers = workers, mc_rusage_end = r_rusage r\<rparr> w)))))))))"

section \<open>The main thread\<close>

definition report_rusage :: "rusage \<Rightarrow> world \<Rightarrow> world" where
  "report_rusage rusage_end w =
     (let rusage_start = w_rusage_start w;
          w = PRINT ''time_start'' (PTime (w_time_start w)) w;
          w = PRINT ''utime_start'' (PTimeval (ru_utime rusage_start)) w;
          w = PRINT ''utime_end'' (PTimeval (ru_utime rusage_end)) w;
          w = PRINT ''stime_start'' (PTimeval (ru_stime rusage_start)) w;
          w = PRINT ''stime_end'' (PTimeval (ru_stime rusage_end)) w;
          w = PRINT ''maxrss_start'' (PInt (ru_maxrss rusage_start)) w;
          w = PRINT ''maxrss_end'' (PInt (ru_maxrss rusage_end)) w;
          w = PRINT ''minflt_start'' (PInt (ru_minflt rusage_start)) w;
          w = PRINT ''minflt_end'' (PInt (ru_minflt rusage_end)) w;
          w = PRINT ''majflt_start'' (PInt (ru_majflt rusage_start)) w;
          w = PRINT ''majflt_end'' (PInt (ru_majflt rusage_end)) w;
          w = PRINT ''nvcsw_start'' (PInt (ru_nvcsw rusage_start)) w;
          w = PRINT ''nvcsw_end'' (PInt (ru_nvcsw rusage_end)) w;
          w = PRINT ''nivcsw_start'' (PInt (ru_nivcsw rusage_start)) w
      in PRINT ''nivcsw_end'' (PInt (ru_nivcsw rusage_end)) w)"

text \<open>The test proper, from a script if there is one.\<close>

definition run_test :: "workers_run \<Rightarrow> api_call list \<Rightarrow> options \<Rightarrow> script_engine \<Rightarrow> main_context \<Rightarrow> world \<Rightarrow>
    main_context outcome" where
  "run_test workers_run calls opts se ctx w = (case script opts of
       Some file \<Rightarrow>
         obind (run_script file calls (run_worker_threads workers_run opts) se ctx w) (\<lambda>(r, se, ctx) w.
           if r < 0 then LOG_FATAL ''script failed: %s: %s'' w else Ret ctx w)
     | None \<Rightarrow> run_worker_threads workers_run opts se ctx w)"

definition run_main_thread :: "workers_run \<Rightarrow> api_call list \<Rightarrow> (options \<Rightarrow> thread list \<Rightarrow> world \<Rightarrow> unit outcome) \<Rightarrow>
    options \<Rightarrow> world \<Rightarrow> int outcome" where
  "run_main_thread workers_run calls report opts w =
     (let w = PRINT ''total_run_time'' (PInt (test_length opts)) w in
     if dry_run opts then Ret 0 w
     else obind (script_engine_create (client opts) w) (\<lambda>s w. case s of
       Inl _ \<Rightarrow> LOG_FATAL ''failed to create script engine: %s'' w
     | Inr se \<Rightarrow>
       obind (control_plane_start opts control_plane_create w) (\<lambda>(cp, ai) w.
       obind (call_or_die (CBarrierInit (num_threads opts + 1)) ''pthread_barrier_init: %s'' w) (\<lambda>_ w.
       obind (create_worker_threads opts ai se w) (\<lambda>workers w.
       obind (run_test workers_run calls opts se \<lparr>mc_cp = cp, mc_workers = workers, mc_rusage_end = rusage0\<rparr> w) (\<lambda>ctx w.
       obind (call_or_die CBarrierDestroy ''pthread_barrier_destroy: %s'' w) (\<lambda>_ w.
       obind (control_plane_stop opts (mc_cp ctx) w) (\<lambda>_ w.
       let w = report_rusage (mc_rusage_end ctx)
             (PRINT ''invalid_secret_count'' (PInt (control_plane_incidents (mc_cp ctx))) w) in
       obind (report opts (mc_workers ctx) w) (\<lambda>_ w.
       obind (free_worker_threads (mc_workers ctx) w) (\<lambda>_ w. Ret 0 w))))))))))"

section \<open>Cores\<close>

lemma find_core_spec:
  "find_core c cs \<le> length cs" "c \<in> set cs \<Longrightarrow> find_core c cs < length cs \<and> cs ! find_core c cs = c"
  "c \<notin> set cs \<Longrightarrow> find_core c cs = length cs"
  by (induction cs) auto

definition core_of :: "cpuinfo \<Rightarrow> int \<times> int" where
  "core_of cpu = (physical_id cpu, core_id cpu)"

definition cores_ok :: "cpuinfo list \<Rightarrow> (int \<times> int) list \<times> nat list list \<Rightarrow> bool" where
  "cores_ok cpus st \<longleftrightarrow> (case st of (cores, cpusets) \<Rightarrow>
     distinct cores \<and> length cpusets = length cores \<and> set cores = core_of ` set cpus
     \<and> (\<forall>j<length cores. set (cpusets ! j)
           = {nat (processor cpu) |cpu. cpu \<in> set cpus \<and> core_of cpu = cores ! j \<and> 0 \<le> processor cpu \<and> processor cpu < 1024}))"

lemma set_CPU_SET: "set (CPU_SET p s) = set s \<union> (if 0 \<le> p \<and> p < 1024 then {nat p} else {})"
  by (auto simp: CPU_SET_def CPU_SETSIZE_def)

lemma add_cpu_ok:
  assumes "cores_ok cpus (cores, cpusets)"
  shows "cores_ok (cpus @ [cpu]) (add_cpu cpu (cores, cpusets))"
proof -
  let ?j = "find_core (core_of cpu) cores"
  define cores' where "cores' = (if ?j = length cores then cores @ [core_of cpu] else cores)"
  define cpusets' where "cpusets' = (if ?j = length cores then cpusets @ [[]] else cpusets)"
  have add: "add_cpu cpu (cores, cpusets) = (cores', cpusets'[?j := CPU_SET (processor cpu) (cpusets' ! ?j)])"
    by (simp add: add_cpu_def Let_def core_of_def cores'_def cpusets'_def)
  note j = find_core_spec [of "core_of cpu" cores]
  have new: "?j = length cores \<longleftrightarrow> core_of cpu \<notin> set cores" using j(2,3) by auto
  have len: "distinct cores'" "length cpusets' = length cores'" "set cores' = core_of ` set (cpus @ [cpu])" "?j < length cores'"
    "cores' ! ?j = core_of cpu"
    using assms j new by (auto simp: cores_ok_def cores'_def cpusets'_def nth_append)
  have old: "set (cpusets' ! k)
      = {nat (processor c) |c. c \<in> set cpus \<and> core_of c = cores' ! k \<and> 0 \<le> processor c \<and> processor c < 1024}"
    if "k < length cores'" for k
  proof (cases "k < length cores")
    case True
    with assms show ?thesis by (simp add: cores_ok_def cores'_def cpusets'_def nth_append)
  next
    case False
    with that have "k = length cores" "core_of cpu \<notin> set cores" using new by (auto simp: cores'_def split: if_splits)
    with assms new have "core_of cpu \<notin> core_of ` set cpus" "cores' ! k = core_of cpu" "cpusets' ! k = []"
      by (auto simp: cores_ok_def cores'_def cpusets'_def nth_append)
    then show ?thesis by (auto simp: image_iff)
  qed
  have "set (cpusets'[?j := CPU_SET (processor cpu) (cpusets' ! ?j)] ! k)
      = {nat (processor c) |c. c \<in> set (cpus @ [cpu]) \<and> core_of c = cores' ! k \<and> 0 \<le> processor c \<and> processor c < 1024}"
    if k: "k < length cores'" for k
  proof (cases "k = ?j")
    case True
    with old [OF k] k len(2,5) show ?thesis by (auto simp: set_CPU_SET)
  next
    case False
    with len(1,4,5) k have "cores' ! k \<noteq> core_of cpu" by (metis nth_eq_iff_index_eq)
    with old [OF k] False show ?thesis by auto
  qed
  with len show ?thesis by (simp add: add cores_ok_def)
qed

lemma cores_fold: "cores_ok cpus (fold add_cpu cpus ([], []))"
proof (induction cpus rule: rev_induct)
  case (snoc cpu cpus)
  then show ?case using add_cpu_ok [of cpus _ _ cpu] by (cases "fold add_cpu cpus ([], [])") simp
qed (simp add: cores_ok_def)

lemma get_cpuset_Ret:
  assumes "get_cpuset w = Ret cpusets w'"
  obtains cpus cores w1 where "get_cpuinfo CPU_SETSIZE w = Ret (Some cpus) w1" "cores_ok cpus (cores, cpusets)" "cpus \<noteq> []"
proof -
  from assms obtain cpus w1 where "get_cpuinfo CPU_SETSIZE w = Ret (Some cpus) w1" "cpus \<noteq> []"
    "cpusets = snd (fold add_cpu cpus ([], []))"
    by (auto simp: get_cpuset_def obind_eq_Ret LOG_FATAL_def Let_def split: option.splits if_splits)
  with that [of cpus w1 "fst (fold add_cpu cpus ([], []))"] cores_fold [of cpus] show ?thesis by simp
qed

section \<open>Calls that leave the threads alone\<close>

lemma quiet_magic:
  "quietly w (recv_magic fd w)" "quietly w (send_bytes fd bs w)" "quietly w (write_secret fd w)" "quietly w (accept_conn fd w)"
proof -
  show "quietly w (recv_magic fd w)"
    by (induction fd w rule: recv_magic.induct) (subst recv_magic.simps, auto intro!: quiet_intros)
  show "quietly w (send_bytes fd bs w)"
    by (induction fd bs w rule: send_bytes.induct) (subst send_bytes.simps, auto intro!: quiet_intros)
  show "quietly w (write_secret fd w)"
    by (induction fd w rule: write_secret.induct) (subst write_secret.simps, auto intro!: quiet_intros)
  show "quietly w (accept_conn fd w)"
    by (induction fd w rule: accept_conn.induct) (subst accept_conn.simps, auto intro!: quiet_intros)
qed

lemmas quietly_magic [quiet_intros] = quiet_magic [THEN quietly_from]

lemma quiet_read_secret: "quietly w (read_secret fd w)"
  by (induction fd w rule: read_secret.induct) (subst read_secret.simps, auto intro!: quiet_intros)

lemma quiet_bind_first: "quietly w (bind_first rps w)"
proof (induction rps arbitrary: w)
  case (Cons rp rps)
  show ?case by (auto intro!: quiet_intros quietly_from [OF Cons.IH])
qed (simp add: quiet_intros)

lemmas quietly_control [quiet_intros] = quiet_read_secret [THEN quietly_from] quiet_bind_first [THEN quietly_from]

lemma quiet_start: "quietly w (control_plane_start opts cp w)"
  by (auto simp: control_plane_start_def ctrl_connect_def ctrl_handshake_def ctrl_listen_def Let_def intro!: quiet_intros)

lemma quiet_stop: "quietly w (control_plane_stop opts cp w)"
  by (auto simp: control_plane_stop_def ctrl_notify_server_def send_magic_def intro!: quiet_intros)

lemmas quietly_planes [quiet_intros] = quiet_start [THEN quietly_from] quiet_stop [THEN quietly_from]

lemma quiet_wait_client: "quietly w (ctrl_wait_client fd m w)"
proof (induction fd m w rule: ctrl_wait_client.induct)
  case (1 fd m w)
  then show ?case
    by (subst ctrl_wait_client.simps) (rule quietly_obind [OF quiet_magic(1)], auto intro: quiet_intros)
qed

lemma quiet_for_fds: "(\<And>fd v. quietly v (act fd v)) \<Longrightarrow> quietly w (for_fds act fds w)"
proof (induction fds arbitrary: w)
  case (Cons fd fds)
  show ?case by (auto intro!: quietly_obind Cons)
qed (simp add: quiet_intros)

lemmas quietly_for_fds = quiet_for_fds [THEN quietly_from]

text \<open>\<open>ctrl_accept\<close> may fault, so only a run that returns is quiet.\<close>

lemma ctrl_accept_quiet: "ctrl_accept ctrl_port n m w = Ret a w' \<Longrightarrow> quiet w w'"
proof (induction ctrl_port n m w rule: ctrl_accept.induct)
  case (1 ctrl_port n m w)
  from "1.prems" obtain c w1 r w2 where c: "accept_conn ctrl_port w = Ret c w1" "sys CGetnameinfo w1 = Ret r w2"
    and rest: "(let w = if r_ret r \<noteq> 0 then LOG_ERROR ''getnameinfo: %s'' w2 else w2
      in obind (read_secret c w) (\<lambda>got w. case got of
         None \<Rightarrow> ctrl_accept ctrl_port n m w
       | Some data \<Rightarrow>
           let buf = data @ replicate (1024 - length data) 0 in
           if \<not> secret_matches buf
           then obind (reject buf (length data) w) (\<lambda>_ w.
                obind (do_close c w) (\<lambda>_ w. ctrl_accept ctrl_port (n + 1) m w))
           else obind (send_magic c m w) (\<lambda>_ w.
                Ret (c, n) (LOG_INFO ''Control connection established with %s:%s'' w)))) = Ret a w'"
    by (subst (asm) ctrl_accept.simps) (auto simp: obind_eq_Ret)
  define w3 where "w3 = (if r_ret r \<noteq> 0 then LOG_ERROR ''getnameinfo: %s'' w2 else w2)"
  have "quiet w w1" by (rule quietly_Ret_quiet [OF quiet_magic(4) c(1)])
  moreover have "quiet w1 w2" by (rule quietly_Ret_quiet [OF quiet_sys c(2)]) simp
  moreover have "quiet w2 w3" by (simp add: w3_def)
  ultimately have q3: "quiet w w3" by (blast intro: quiet_trans)
  from rest obtain got w4 where got: "read_secret c w3 = Ret got w4"
    and tail: "(case got of
         None \<Rightarrow> ctrl_accept ctrl_port n m w4
       | Some data \<Rightarrow>
           let buf = data @ replicate (1024 - length data) 0 in
           if \<not> secret_matches buf
           then obind (reject buf (length data) w4) (\<lambda>_ w.
                obind (do_close c w) (\<lambda>_ w. ctrl_accept ctrl_port (n + 1) m w))
           else obind (send_magic c m w4) (\<lambda>_ w.
                Ret (c, n) (LOG_INFO ''Control connection established with %s:%s'' w))) = Ret a w'"
    by (auto simp: obind_eq_Ret Let_def w3_def)
  have q4: "quiet w w4" using q3 quietly_Ret_quiet [OF quiet_read_secret got] by (rule quiet_trans)
  show ?case
  proof (cases got)
    case None
    with tail "1.IH"(1) [OF c w3_def got] q4 show ?thesis by (auto intro: quiet_trans)
  next
    case (Some data)
    let ?buf = "data @ replicate (1024 - length data) 0"
    show ?thesis
    proof (cases "secret_matches ?buf")
      case True
      with tail Some obtain u w5 where "send_magic c m w4 = Ret u w5" "w' = LOG_INFO ''Control connection established with %s:%s'' w5"
        by (auto simp: obind_eq_Ret Let_def)
      with q4 quietly_Ret_quiet [OF quiet_magic(2)] show ?thesis
        unfolding send_magic_def by (auto intro: quiet_trans)
    next
      case False
      with tail Some obtain u w5 v w6 where r: "reject ?buf (length data) w4 = Ret u w5" "do_close c w5 = Ret v w6"
        "ctrl_accept ctrl_port (n + 1) m w6 = Ret a w'"
        by (auto simp: obind_eq_Ret Let_def)
      have "quiet w4 w5" using r(1) by (auto simp: reject_def split: checked.splits)
      moreover have "quiet w5 w6" by (rule quietly_Ret_quiet [OF quiet_do_close r(2)])
      moreover have "quiet w6 w'" by (rule "1.IH"(2) [OF c w3_def got Some refl False r])
      ultimately show ?thesis using q4 by (blast intro: quiet_trans)
    qed
  qed
qed

lemma accept_clients_quiet: "accept_clients ctrl_port m n inc w = Ret a w' \<Longrightarrow> quiet w w'"
proof (induction n arbitrary: inc w a)
  case (Suc n)
  then obtain fd inc1 w1 a1 where c: "ctrl_accept ctrl_port inc m w = Ret (fd, inc1) w1"
    "accept_clients ctrl_port m n inc1 (LOG_INFO ''client %d connected'' w1) = Ret a1 w'"
    by (auto simp: obind_eq_Ret)
  from ctrl_accept_quiet [OF c(1)] Suc.IH [OF c(2)] show ?case by (auto intro: quiet_trans)
qed auto

lemma wait_until_done_quiet:
  assumes "control_plane_wait_until_done opts cp w = Ret cp' w'"
  shows "quiet w w'"
proof (cases "client opts")
  case True
  have "quietly w (control_plane_wait_until_done opts cp w)"
    using True by (auto simp: control_plane_wait_until_done_def intro!: quiet_intros)
  from quietly_Ret_quiet [OF this assms] show ?thesis .
next
  case False
  with assms obtain fds inc w1 where a: "accept_clients (cp_ctrl_port cp) (magic opts) (nat (num_clients opts)) (cp_num_incidents cp)
      (LOG_INFO ''expecting %d clients'' w) = Ret (fds, inc) w1"
    and rest: "obind (do_close (cp_ctrl_port cp) w1) (\<lambda>_ w.
        obind (for_fds set_nonblocking (if nonblocking opts then fds else []) w) (\<lambda>_ w.
        let w = LOG_INFO ''expecting %d notifications'' w in
        obind (for_fds (\<lambda>fd w. obind (ctrl_wait_client fd (magic opts) w) (\<lambda>_ w.
                 Ret () (LOG_INFO ''received notification %d'' w))) fds w) (\<lambda>_ w.
        obind (for_fds do_close fds w) (\<lambda>_ w.
          Ret (cp\<lparr>cp_num_incidents := inc\<rparr>) w)))) = Ret cp' w'" (is "?m = _")
    by (auto simp: control_plane_wait_until_done_def Let_def obind_eq_Ret LOG_FATAL_def split: if_splits)
  have "quietly w1 ?m"
    by (auto simp: Let_def intro!: quietly_obind quietly_for_fds quiet_intros quiet_do_close quiet_setters quiet_wait_client)
  from quietly_Ret_quiet [OF this rest] accept_clients_quiet [OF a] show ?thesis by (auto intro: quiet_trans)
qed

lemma wait_until_done_calls:
  "control_plane_wait_until_done opts cp w = Ret cp' w' \<Longrightarrow> thread_calls (w_trace w') = thread_calls (w_trace w)"
  using wait_until_done_quiet by (simp add: quiet_def calm_def)

lemma quiet_calls: "quiet w w' \<Longrightarrow> thread_calls (w_trace w') = thread_calls (w_trace w)"
  by (simp add: quiet_def calm_def)

lemma quietly_calls: "quietly w m \<Longrightarrow> m = Ret a w' \<Longrightarrow> thread_calls (w_trace w') = thread_calls (w_trace w)"
  by (auto dest: quietly_Ret_quiet quiet_calls)

lemma sys_calls:
  "sys c w = Ret r w' \<Longrightarrow> thread_calls (w_trace w') = thread_calls (w_trace w) @ (if manages_threads c then [c] else [])"
  by (auto simp: sys_answer(1) thread_calls_def)

lemma call_or_die_calls:
  "call_or_die c msg w = Ret u w' \<Longrightarrow>
   thread_calls (w_trace w') = thread_calls (w_trace w) @ (if manages_threads c then [c] else [])"
  by (auto simp: call_or_die_def obind_eq_Ret LOG_FATAL_def sys_calls split: if_splits)

lemma quiet_call_or_die: "\<not> watches c \<Longrightarrow> quietly w (call_or_die c msg w)"
  by (auto simp: call_or_die_def intro!: quiet_intros)

lemma quiet_prelude: "load_prelude has_cb w = Ret e w' \<Longrightarrow> quiet w w'"
  by (auto simp: load_prelude_def obind_eq_Ret Let_def split: if_splits option.splits
      dest!: quietly_Ret_quiet [OF quiet_sys, rotated])

section \<open>The life of the workers\<close>

lemma start_threads_calls:
  "start_threads pin cpusets i n w = Ret u w' \<Longrightarrow>
   thread_calls (w_trace w') = thread_calls (w_trace w) @ map CPthreadCreate [i..<i + n]"
proof (induction n arbitrary: i w u)
  case (Suc n)
  then obtain w1 w2 where
    a: "(if pin then if cpusets = [] then Fault w
         else call_or_die (CAttrSetaffinity (cpusets ! (i mod length cpusets))) ''pthread_attr_setaffinity_np: %s'' w
        else Ret () w) = Ret () w1"
    and b: "call_or_die (CPthreadCreate i) ''pthread_create: %s'' w1 = Ret () w2"
    and c: "start_threads pin cpusets (i + 1) n w2 = Ret u w'"
    by (auto simp: obind_eq_Ret)
  from a have "thread_calls (w_trace w1) = thread_calls (w_trace w)"
    by (auto split: if_splits dest: call_or_die_calls)
  with call_or_die_calls [OF b] Suc.IH [OF c] show ?case by (simp add: upt_conv_Cons)
qed simp

lemma quiet_get_cpuset: "quietly w (get_cpuset w)"
proof -
  have logs: "quiet w (fold (\<lambda>_. LOG_INFO s) xs w)" for s xs and w
  proof (induction xs arbitrary: w)
    case (Cons x xs)
    from this [of "LOG_INFO s w"] show ?case by simp
  qed simp
  have info: "quietly w (get_cpuinfo n w)" for n and w
    by (auto simp: get_cpuinfo_def Let_def intro!: quiet_intros)
  show ?thesis
    using logs by (auto simp: get_cpuset_def Let_def intro!: quietly_obind [OF info] quiet_intros split: option.split)
qed

lemma start_workers_calls:
  assumes "start_worker_threads pin n w = Ret u w'"
  shows "thread_calls (w_trace w') = thread_calls (w_trace w) @ map CPthreadCreate [0..<n]"
proof -
  from assms obtain cpusets w1 w2 w3 where s: "(if pin then get_cpuset w else Ret [[]] w) = Ret cpusets w1"
    "call_or_die CAttrInit ''pthread_attr_init: %s'' w1 = Ret () w2"
    "start_threads pin cpusets 0 n w2 = Ret () w3"
    "call_or_die CAttrDestroy ''pthread_attr_destroy: %s'' w3 = Ret u w'"
    by (auto simp: start_worker_threads_def obind_eq_Ret)
  from s(1) have "thread_calls (w_trace w1) = thread_calls (w_trace w)"
    using quietly_calls [OF quiet_get_cpuset] by (auto split: if_splits)
  with call_or_die_calls [OF s(2)] start_threads_calls [OF s(3)] call_or_die_calls [OF s(4)] show ?thesis by simp
qed

lemma create_threads_calls:
  "create_threads ai se i n w = Ret ts w' \<Longrightarrow>
   thread_calls (w_trace w') = thread_calls (w_trace w) @ replicate n CEventfd \<and> map t_index ts = map int [i..<i + n]
   \<and> (\<forall>t\<in>set ts. t_samples t = [] \<and> t_flows t = Map.empty \<and> t_next_flow_id t = 0 \<and> t_script t = script_slave_new se)"
proof (induction n arbitrary: i w ts)
  case (Suc n)
  then obtain r w1 s w2 where "sys CEventfd w = Ret r w1" "script_slave_create se w1 = Ret s w2"
    "(case s of Inl _ \<Rightarrow> LOG_FATAL ''failed to create script slave: %s'' w2
       | Inr ss \<Rightarrow>
           obind (create_threads ai se (i + 1) n w2) (\<lambda>ts w.
             Ret (\<lparr>t_index = int i, t_stop_efd = r_ret r, t_ai = copy_addrinfo ai, t_samples = [],
               t_transactions = 0, t_next_flow_id = 0, t_stop = False, t_script = ss, t_flows = Map.empty,
               t_next_ptr = 0\<rparr> # ts) w)) = Ret ts w'"
    by (auto simp: obind_eq_Ret LOG_FATAL_def split: if_splits)
  then obtain ss ts1 where r: "sys CEventfd w = Ret r w1" "script_slave_create se w1 = Ret (Inr ss) w2"
    "create_threads ai se (i + 1) n w2 = Ret ts1 w'"
    and ts: "ts = \<lparr>t_index = int i, t_stop_efd = r_ret r, t_ai = copy_addrinfo ai, t_samples = [],
               t_transactions = 0, t_next_flow_id = 0, t_stop = False, t_script = ss, t_flows = Map.empty,
               t_next_ptr = 0\<rparr> # ts1"
    by (cases s) (auto simp: obind_eq_Ret LOG_FATAL_def)
  from r(2) have "ss = script_slave_new se" "thread_calls (w_trace w2) = thread_calls (w_trace w1)"
    by (auto simp: script_slave_create_def obind_eq_Ret split: if_splits dest: quiet_calls [OF quiet_prelude])
  with sys_calls [OF r(1)] Suc.IH [OF r(3)] show ?case by (simp add: ts upt_conv_Cons)
qed simp

lemma stop_workers_calls:
  assumes "stop_worker_threads ts w = Ret u w'"
  shows "thread_calls (w_trace w') = thread_calls (w_trace w)
    @ map (\<lambda>t. CEventfdWrite (t_stop_efd t)) ts @ map CPthreadJoin [0..<length ts]"
proof -
  have tell: "tell_threads ts w = Ret u w' \<Longrightarrow>
      thread_calls (w_trace w') = thread_calls (w_trace w) @ map (\<lambda>t. CEventfdWrite (t_stop_efd t)) ts" for ts w u w'
    by (induction ts arbitrary: w) (fastforce simp: obind_eq_Ret dest!: call_or_die_calls)+
  have join: "join_threads i n w = Ret u w' \<Longrightarrow>
      thread_calls (w_trace w') = thread_calls (w_trace w) @ map CPthreadJoin [i..<i + n]" for i n w u w'
    by (induction n arbitrary: i w) (fastforce simp: obind_eq_Ret upt_conv_Cons dest!: call_or_die_calls)+
  from assms obtain w1 where "tell_threads ts w = Ret () w1" "join_threads 0 (length ts) w1 = Ret u w'"
    by (auto simp: stop_worker_threads_def obind_eq_Ret)
  from tell [OF this(1)] join [OF this(2)] show ?thesis by simp
qed

lemma sys_quiet: "sys c w = Ret r w' \<Longrightarrow> \<not> watches c \<Longrightarrow> quiet w w'"
  by (rule quietly_Ret_quiet [OF quiet_sys])

lemma pull_collected_quiet: "pull_collected ss cs w = Ret u w' \<Longrightarrow> quiet w w'"
proof (induction cs arbitrary: w)
  case (Cons c cs)
  then obtain r w1 where s: "sys (CLuaCollect c) w = Ret r w1" "pull_collected ss cs w1 = Ret u w'"
    by (auto simp: obind_eq_Ret LOG_FATAL_def split: if_splits)
  have "quiet w w1" by (rule quietly_Ret_quiet [OF quiet_sys s(1)]) simp
  with Cons.IH [OF s(2)] show ?case by (rule quiet_trans [rotated])
qed simp

lemma pull_script_data_quiet: "pull_script_data se ts w = Ret u w' \<Longrightarrow> quiet w w'"
  by (induction ts arbitrary: w)
    (auto simp: obind_eq_Ret script_engine_pull_data_def intro: quiet_trans dest!: pull_collected_quiet)

lemma push_script_data_same: "push_script_data se ts w = Ret () w"
  by (induction ts) (simp_all add: script_engine_push_data_def)

text \<open>The calls of one run of the workers.\<close>

definition worker_calls :: "thread list \<Rightarrow> call list" where
  "worker_calls ts = map CPthreadCreate [0..<length ts] @ map (\<lambda>t. CEventfdWrite (t_stop_efd t)) ts
     @ map CPthreadJoin [0..<length ts]"

lemma run_workers_calls:
  assumes "run_worker_threads workers_run opts se ctx w = Ret ctx' w'"
  shows "thread_calls (w_trace w') = thread_calls (w_trace w) @ worker_calls (mc_workers ctx)"
proof -
  let ?ts = "map (with_engine se) (mc_workers ctx)"
  from assms obtain w1 r2 w2 r3 w3 cp w4 r5 w5 w6 ts ts0 ru0 where s:
    "start_worker_threads (pin_cpu opts) (length ?ts) w = Ret () w1"
    "sys CBarrierWait (LOG_INFO ''started worker threads'' w1) = Ret r2 w2"
    "sys (CGetrusage RUSAGE_SELF) (LOG_INFO ''worker threads are ready'' w2) = Ret r3 w3"
    "control_plane_wait_until_done opts (mc_cp ctx) (w3\<lparr>w_rusage_start := r_rusage r3\<rparr>) = Ret cp w4"
    "sys (CGetrusage RUSAGE_SELF) w4 = Ret r5 w5"
    "stop_worker_threads ?ts w5 = Ret () w6"
    "pull_script_data se ts (LOG_INFO ''stopped worker threads'' (w6\<lparr>w_time_start := ts0, w_rusage_start := ru0\<rparr>)) = Ret () w'"
    by (auto simp: run_worker_threads_def Let_def obind_eq_Ret push_script_data_same case_prod_unfold)
  have "map (\<lambda>t. CEventfdWrite (t_stop_efd t)) ?ts = map (\<lambda>t. CEventfdWrite (t_stop_efd t)) (mc_workers ctx)"
    by (simp add: with_engine_def)
  with start_workers_calls [OF s(1)] sys_calls [OF s(2)] sys_calls [OF s(3)] wait_until_done_calls [OF s(4)]
    sys_calls [OF s(5)] stop_workers_calls [OF s(6)] quiet_calls [OF pull_script_data_quiet [OF s(7)]]
  show ?thesis by (simp add: worker_calls_def)
qed

section \<open>The script runs the test once\<close>

text \<open>The state of \<open>run_func\<close> before and after: still pending, or run once, from some engine.\<close>

definition ran :: "(script_engine \<Rightarrow> 'c \<Rightarrow> world \<Rightarrow> 'c outcome) \<Rightarrow> 'c \<Rightarrow> world \<Rightarrow> 'c \<Rightarrow> world \<Rightarrow> bool" where
  "ran f ctx w ctx' w' \<longleftrightarrow> (\<exists>se v v'. f se ctx v = Ret ctx' v' \<and> quiet w v \<and> quiet v' w')"

lemma ran_quiet: "ran f ctx v ctx' v' \<Longrightarrow> quiet w v \<Longrightarrow> quiet v' w' \<Longrightarrow> ran f ctx w ctx' w'"
  unfolding ran_def by (blast intro: quiet_trans)

lemma checktype_quiet:
  "luaL_checktype type a w k = Ret b w' \<Longrightarrow> (\<And>v. quiet w v \<Longrightarrow> k v = Ret b w' \<Longrightarrow> quiet v w') \<Longrightarrow> quiet w w'"
proof -
  assume t: "luaL_checktype type a w k = Ret b w'" and k: "\<And>v. quiet w v \<Longrightarrow> k v = Ret b w' \<Longrightarrow> quiet v w'"
  from t obtain r v where s: "sys (CLuaChecktype type) w = Ret r v" "k v = Ret b w' \<or> w' = v"
    by (auto simp: luaL_checktype_def obind_eq_Ret split: if_splits)
  have q: "quiet w v" by (rule sys_quiet [OF s(1)]) simp
  with s(2) k [of v] have "quiet v w'" by auto
  with q show "quiet w w'" by (rule quiet_trans)
qed

lemma store_hook_quiet: "store_hook se mode hid w = Ret se' w' \<Longrightarrow> quiet w w'"
  unfolding store_hook_def
  by (erule checktype_quiet)
    (auto simp: serialize_hook_def LOG_FATAL_def obind_eq_Ret split: if_splits option.splits dest: sys_quiet)

lemma register_collector_quiet: "register_collector_cb c se w = Ret se' w' \<Longrightarrow> quiet w w'"
  unfolding register_collector_cb_def by (erule checktype_quiet) auto

lemma empty_collectors_quiet: "empty_engine_collectors cs w = Ret u w' \<Longrightarrow> quiet w w'"
proof (induction cs arbitrary: w)
  case (Cons c cs)
  then obtain r w1 where s: "sys (CLuaEmpty c) w = Ret r w1" "empty_engine_collectors cs w1 = Ret u w'"
    by (auto simp: obind_eq_Ret split: if_splits)
  have "quiet w w1" by (rule sys_quiet [OF s(1)]) simp
  with Cons.IH [OF s(2)] show ?case by (rule quiet_trans [rotated])
qed simp

lemma run_cb_ran: "run_cb f (se, True, ctx) w = Ret (se', p', ctx') w' \<Longrightarrow> \<not> p' \<and> ran f ctx w ctx' w'"
  unfolding run_cb_def by (auto simp: obind_eq_Ret ran_def intro: empty_collectors_quiet)

lemma script_cb_ran:
  "script_cb f c (se, pending, ctx) w = Ret (se', pending', ctx') w' \<Longrightarrow>
   pending' = pending \<and> ctx' = ctx \<and> quiet w w' \<or> pending \<and> \<not> pending' \<and> ran f ctx w ctx' w'"
proof (cases c)
  case RunTest
  assume "script_cb f c (se, pending, ctx) w = Ret (se', pending', ctx') w'"
  with RunTest show ?thesis using run_cb_ran by (cases pending) (fastforce simp: run_cb_def)+
qed (auto simp: obind_eq_Ret intro: store_hook_quiet register_collector_quiet)

lemma script_calls_ran:
  "script_calls f cs (se, pending, ctx) w = Ret (se', pending', ctx') w' \<Longrightarrow>
   pending' = pending \<and> ctx' = ctx \<and> quiet w w' \<or> pending \<and> \<not> pending' \<and> ran f ctx w ctx' w'"
proof (induction cs arbitrary: se pending ctx w)
  case (Cons c cs)
  then obtain se1 p1 ctx1 w1 where c: "script_cb f c (se, pending, ctx) w = Ret (se1, p1, ctx1) w1"
    "script_calls f cs (se1, p1, ctx1) w1 = Ret (se', pending', ctx') w'"
    by (auto simp: obind_eq_Ret)
  from script_cb_ran [OF c(1)] Cons.IH [OF c(2)] show ?case
    by (auto intro: quiet_trans ran_quiet)
qed auto

lemma lua_failed_negative: "lua_failed what err x w = Ret (r, x') w' \<Longrightarrow> r < 0"
  by (auto simp: lua_failed_def errno_lua_def Let_def hook_error_defs split: option.splits if_splits)

lemma run_script_ran:
  assumes "run_script input calls f se ctx w = Ret (r, se', ctx') w'" "0 \<le> r"
  shows "ran f ctx w ctx' w'"
proof -
  from assms obtain l w1 se1 p1 ctx1 w2 r3 w3 p4 where s: "sys (CLuaLoadfile input) w = Ret l w1"
    "script_calls f calls (se, True, ctx) w1 = Ret (se1, p1, ctx1) w2" "sys (CLuaRun input) w2 = Ret r3 w3"
    "run_cb f (se1, p1, ctx1) w3 = Ret (se', p4, ctx') w'"
    by (auto simp: run_script_def obind_eq_Ret split: if_splits dest: lua_failed_negative)
  have q: "quiet w w1" "quiet w2 w3"
    by (rule quietly_Ret_quiet [OF quiet_sys s(1)], simp) (rule quietly_Ret_quiet [OF quiet_sys s(3)], simp)
  then have q': "quiet w1 w2 \<Longrightarrow> quiet w w3" by (blast intro: quiet_trans)
  from script_calls_ran [OF s(2)] show ?thesis
  proof (elim disjE conjE, goal_cases)
    case 1
    with s(4) have "ran f ctx w3 ctx' w'" using run_cb_ran by fastforce
    from ran_quiet [OF this q' [OF 1(3)]] show ?case by simp
  next
    case 2
    with s(4) have "ctx1 = ctx'" "w3 = w'" by (auto simp: run_cb_def)
    with 2(3) q show ?case by (auto intro: ran_quiet)
  qed
qed

lemma run_test_ran:
  assumes "run_test workers_run calls opts se ctx w = Ret ctx' w'"
  shows "ran (run_worker_threads workers_run opts) ctx w ctx' w'"
proof (cases "script opts")
  case None
  with assms show ?thesis by (auto simp: run_test_def ran_def)
next
  case (Some path)
  with assms obtain r se' where "run_script path calls (run_worker_threads workers_run opts) se ctx w = Ret (r, se', ctx') w'" "0 \<le> r"
    by (auto simp: run_test_def obind_eq_Ret LOG_FATAL_def split: if_splits)
  then show ?thesis by (rule run_script_ran)
qed

section \<open>The main thread\<close>

lemma free_workers_quiet: "quietly w (free_worker_threads ts w)"
proof (induction ts arbitrary: w)
  case (Cons t ts)
  show ?case using Cons.IH by (auto simp: Let_def intro: quietly_obind quiet_do_close)
qed (simp add: quiet_intros)

lemma report_rusage_calls [simp]: "w_trace (report_rusage ru w) = w_trace w" "w_inputs (report_rusage ru w) = w_inputs w"
  by (simp_all add: report_rusage_def Let_def)

lemma main_thread_calls:
  assumes "run_main_thread workers_run calls report opts w = Ret r w'" "\<not> dry_run opts"
    and report: "\<And>ts v v'. report opts ts v = Ret () v' \<Longrightarrow> thread_calls (w_trace v') = thread_calls (w_trace v)"
  shows "\<exists>efds. length efds = nat (num_threads opts) \<and> thread_calls (w_trace w') = thread_calls (w_trace w)
    @ CBarrierInit (num_threads opts + 1) # replicate (nat (num_threads opts)) CEventfd
    @ map CPthreadCreate [0..<nat (num_threads opts)] @ map CEventfdWrite efds
    @ map CPthreadJoin [0..<nat (num_threads opts)] @ [CBarrierDestroy]"
proof -
  from assms(1,2) obtain s w1 where e: "script_engine_create (client opts) (PRINT ''total_run_time'' (PInt (test_length opts)) w) = Ret s w1"
    and rest: "(case s of
       Inl _ \<Rightarrow> LOG_FATAL ''failed to create script engine: %s'' w1
     | Inr se \<Rightarrow>
       obind (control_plane_start opts control_plane_create w1) (\<lambda>(cp, ai) w.
       obind (call_or_die (CBarrierInit (num_threads opts + 1)) ''pthread_barrier_init: %s'' w) (\<lambda>_ w.
       obind (create_worker_threads opts ai se w) (\<lambda>workers w.
       obind (run_test workers_run calls opts se \<lparr>mc_cp = cp, mc_workers = workers, mc_rusage_end = rusage0\<rparr> w) (\<lambda>ctx w.
       obind (call_or_die CBarrierDestroy ''pthread_barrier_destroy: %s'' w) (\<lambda>_ w.
       obind (control_plane_stop opts (mc_cp ctx) w) (\<lambda>_ w.
       let w = report_rusage (mc_rusage_end ctx)
             (PRINT ''invalid_secret_count'' (PInt (control_plane_incidents (mc_cp ctx))) w) in
       obind (report opts (mc_workers ctx) w) (\<lambda>_ w.
       obind (free_worker_threads (mc_workers ctx) w) (\<lambda>_ w. Ret 0 w))))))))) = Ret r w'"
    by (auto simp: run_main_thread_def Let_def obind_eq_Ret)
  from rest obtain se cp ai w2 w3 workers w4 ctx w5 w6 w7 w8 where s: "s = Inr se"
    "control_plane_start opts control_plane_create w1 = Ret (cp, ai) w2"
    "call_or_die (CBarrierInit (num_threads opts + 1)) ''pthread_barrier_init: %s'' w2 = Ret () w3"
    "create_worker_threads opts ai se w3 = Ret workers w4"
    "run_test workers_run calls opts se \<lparr>mc_cp = cp, mc_workers = workers, mc_rusage_end = rusage0\<rparr> w4 = Ret ctx w5"
    "call_or_die CBarrierDestroy ''pthread_barrier_destroy: %s'' w5 = Ret () w6"
    "control_plane_stop opts (mc_cp ctx) w6 = Ret () w7"
    "report opts (mc_workers ctx) (report_rusage (mc_rusage_end ctx)
       (PRINT ''invalid_secret_count'' (PInt (control_plane_incidents (mc_cp ctx))) w7)) = Ret () w8"
    "free_worker_threads (mc_workers ctx) w8 = Ret () w'"
    by (cases s) (auto simp: obind_eq_Ret LOG_FATAL_def Let_def)
  have "thread_calls (w_trace w1) = thread_calls (w_trace w)"
    using e by (auto simp: script_engine_create_def obind_eq_Ret split: if_splits dest!: quiet_calls [OF quiet_prelude])
  moreover have n: "length workers = nat (num_threads opts)"
    using arg_cong [OF conjunct1 [OF conjunct2 [OF create_threads_calls [OF s(4) [unfolded create_worker_threads_def]]]], of length]
    by simp
  moreover obtain se' v v' where v: "run_worker_threads workers_run opts se' \<lparr>mc_cp = cp, mc_workers = workers, mc_rusage_end = rusage0\<rparr> v
      = Ret ctx v'" "quiet w4 v" "quiet v' w5"
    using run_test_ran [OF s(5)] by (auto simp: ran_def)
  ultimately show ?thesis
    using quietly_calls [OF quiet_start s(2)] call_or_die_calls [OF s(3)]
      create_threads_calls [OF s(4) [unfolded create_worker_threads_def]]
      quiet_calls [OF v(2)] run_workers_calls [OF v(1)] quiet_calls [OF v(3)] call_or_die_calls [OF s(6)]
      quietly_calls [OF quiet_stop s(7)] report [OF s(8)] quietly_calls [OF free_workers_quiet s(9)]
    by (intro exI [of _ "map t_stop_efd workers"]) (simp add: worker_calls_def comp_def)
qed

section \<open>Properties\<close>

text \<open>
  C30: If running a user's script ends without an error, the test has been run exactly once, from
  whatever engine the script had built up to then, no matter how often the script called \<open>run()\<close>, or
  whether it did; everything else the script made the engine do was silent.
\<close>

theorem script_runs_once:
  assumes "run_script input calls f se ctx w = Ret (r, se', ctx') w'" "0 \<le> r"
  shows "\<exists>se1 v v'. f se1 ctx v = Ret ctx' v' \<and> quiet w v \<and> quiet v' w'"
  using run_script_ran [OF assms] by (simp add: ran_def)

text \<open>
  C34: A script file that cannot be read ends in an assertion failure: \<open>luaL_loadfile\<close> answers an error
  number that \<open>errno_lua\<close> does not know.
\<close>

theorem script_file_missing:
  assumes "w_inputs w = k # ks" "r_ret (k (w_trace w) (CLuaLoadfile input)) = 6"
  shows "\<exists>w'. run_script input calls f se ctx w = Fault w'"
  using assms by (simp add: run_script_def sys_def Let_def lua_failed_def errno_lua_def)

text \<open>
  C31: The CPU sets for pinning split the processors by their cores: the sets belong to different cores,
  each holds exactly the processors of its core (those an affinity mask can hold), and there is at
  least one, so that every worker gets a set.
\<close>

theorem cpusets_partition:
  assumes "get_cpuset w = Ret cpusets w'"
  shows "\<exists>cpus cores w1. get_cpuinfo CPU_SETSIZE w = Ret (Some cpus) w1 \<and> distinct cores \<and> length cpusets = length cores
    \<and> set cores = core_of ` set cpus \<and> cpusets \<noteq> []
    \<and> (\<forall>j<length cores. set (cpusets ! j)
         = {nat (processor cpu) |cpu. cpu \<in> set cpus \<and> core_of cpu = cores ! j \<and> 0 \<le> processor cpu \<and> processor cpu < 1024})"
proof -
  obtain cpus cores w1 where c: "get_cpuinfo CPU_SETSIZE w = Ret (Some cpus) w1" "cores_ok cpus (cores, cpusets)" "cpus \<noteq> []"
    using get_cpuset_Ret [OF assms] by blast
  then have "cores \<noteq> []" by (auto simp: cores_ok_def)
  with c show ?thesis unfolding cores_ok_def by (intro exI [of _ cpus] exI [of _ cores] exI [of _ w1]) auto
qed

section \<open>Witnesses\<close>

definition loading_answers :: "kernel list" where
  "loading_answers = [\<lambda>_ _. resp0, \<lambda>_ _. resp0]"

theorem script_runs_once_witness:
  "\<exists>se1 v v'. (\<lambda>se n w. Ret (n + 1) w) se1 (0::nat) v = Ret 1 v' \<and> quiet (world0 loading_answers) v"
proof -
  have "\<exists>se' w'. run_script ''a.lua'' [RunTest, RunTest] (\<lambda>se n w. Ret (n + 1) w) (ss_se slave0) (0::nat) (world0 loading_answers)
      = Ret (0, se', 1) w'"
    by (simp add: run_script_def loading_answers_def sys_def Let_def resp0_def run_cb_def slave0_def)
  then obtain se' w' where "run_script ''a.lua'' [RunTest, RunTest] (\<lambda>se n w. Ret (n + 1) w) (ss_se slave0) (0::nat)
      (world0 loading_answers) = Ret (0, se', 1) w'" by blast
  from script_runs_once [OF this] show ?thesis by auto
qed

theorem script_file_missing_witness:
  "\<exists>w'. run_script ''missing.lua'' [] (\<lambda>se n w. Ret n w) (ss_se slave0) (0::nat) (world0 [\<lambda>_ _. resp0\<lparr>r_ret := 6\<rparr>]) = Fault w'"
  using script_file_missing [of "world0 [\<lambda>_ _. resp0\<lparr>r_ret := 6\<rparr>]" "\<lambda>_ _. resp0\<lparr>r_ret := 6\<rparr>" "[]"]
  by (simp add: resp0_def)

definition cpuinfo_answers :: "kernel list" where
  "cpuinfo_answers = [\<lambda>_ _. resp0\<lparr>r_ret := 3, r_data := map (\<lambda>c. of_nat (of_char c)) (concat (map block_text two_blocks))\<rparr>,
     \<lambda>_ _. resp0]"

theorem cpusets_partition_witness:
  "\<exists>cpusets w'. get_cpuset (world0 cpuinfo_answers) = Ret cpusets w' \<and> cpusets \<noteq> []"
proof -
  have "get_cpus CPU_SETSIZE cpuinfo0 (concat (map block_text two_blocks)) \<noteq> []"
    by (simp add: get_cpus_blocks [OF two_blocks_ok] CPU_SETSIZE_def) (simp add: two_blocks_def)
  moreover have "map (\<lambda>b :: byte. char_of (unat b)) (map (\<lambda>c. of_nat (of_char c)) s) = s" for s
    by (induction s) (simp_all add: unat_of_nat)
  ultimately have "\<exists>cpusets w'. get_cpuset (world0 cpuinfo_answers) = Ret cpusets w'"
    by (simp add: get_cpuset_def get_cpuinfo_def cpuinfo_answers_def sys_def Let_def resp0_def del: map_map)
  then obtain cpusets w' where r: "get_cpuset (world0 cpuinfo_answers) = Ret cpusets w'" by blast
  from cpusets_partition [OF r] r show ?thesis by blast
qed

end
