(* ===== verification/Programs.thy ===== *)
theory Programs
  imports RRReport TcpStream UdpStream Mains Thread
begin

text \<open>
  The programs \<open>tcp_rr\<close>, \<open>tcp_stream\<close> and \<open>udp_stream\<close> put together: the main thread of
  \<open>thread.c\<close> run with each program's report. What the parts guarantee of options, samples and
  thread-managing calls is combined here; the properties of the whole are in the root theory.
\<close>

section \<open>The reports and the threads\<close>

lemma print_samples_quiet: "print_samples pcts samples name w = Ret a w' \<Longrightarrow> quiet w w'"
proof (cases "print_rows pcts samples")
  case None
  assume "print_samples pcts samples name w = Ret a w'"
  with None obtain r w1 where r: "sys (COpen name) w = Ret r w1" "w' = LOG_ERROR ''fopen(%s): %s'' w1"
    by (auto simp: print_samples_def obind_eq_Ret Let_def split: if_splits)
  have "quiet w w1" by (rule quietly_Ret_quiet [OF quiet_sys r(1)]) simp
  with r(2) show ?thesis by simp
next
  case (Some rows)
  assume p: "print_samples pcts samples name w = Ret a w'"
  have "quietly w (print_samples pcts samples name w)"
    using Some by (auto simp: print_samples_def Let_def intro!: quiet_intros)
  from quietly_Ret_quiet [OF this p] show ?thesis .
qed

lemma print_latency_percentiles_calls:
  "print_latency_percentiles p all is w = Ret u w' \<Longrightarrow> w_trace w' = w_trace w"
  by (induction "is" arbitrary: w) (auto split: if_splits option.splits)

lemma report_latency_calls: "report_latency samples opts w = Ret u w' \<Longrightarrow> w_trace w' = w_trace w"
  by (auto simp: report_latency_def Let_def split: if_splits list.splits option.splits dest!: print_latency_percentiles_calls)

lemma optional_csv_calls:
  "(case name of None \<Rightarrow> Ret () w | Some file \<Rightarrow> obind (print_samples pcts samples file w) (\<lambda>_ w. Ret () w)) = Ret u w' \<Longrightarrow>
   thread_calls (w_trace w') = thread_calls (w_trace w)"
  by (auto simp: obind_eq_Ret split: option.splits dest: quiet_calls [OF print_samples_quiet])

lemma report_stats_calls: "report_stats opts ts w = Ret u w' \<Longrightarrow> thread_calls (w_trace w') = thread_calls (w_trace w)"
  by (auto simp: report_stats_def obind_eq_Ret Let_def split: list.splits if_splits option.splits
      dest!: optional_csv_calls report_latency_calls quiet_calls [OF print_samples_quiet])

lemma print_throughput_per_thread_trace [simp]: "w_trace (print_throughput_per_thread i sts w) = w_trace w"
  by (induction i sts w rule: print_throughput_per_thread.induct) simp_all

lemma print_stream_stats_trace [simp]: "w_trace (print_stream_stats st sts w) = w_trace w"
  by (simp add: print_stream_stats_def Let_def)

lemma report_stream_stats_calls:
  "report_stream_stats opts ts w = Ret u w' \<Longrightarrow> thread_calls (w_trace w') = thread_calls (w_trace w)"
  by (auto simp: report_stream_stats_def obind_eq_Ret Let_def split: if_splits option.splits
      dest!: quiet_calls [OF print_samples_quiet])

section \<open>The programs\<close>

definition tcp_rr :: "workers_run \<Rightarrow> api_call list \<Rightarrow> options \<Rightarrow> world \<Rightarrow> int outcome" where
  "tcp_rr workers_run calls opts = run_main_thread workers_run calls report_stats opts"

definition tcp_stream :: "workers_run \<Rightarrow> api_call list \<Rightarrow> options \<Rightarrow> world \<Rightarrow> int outcome" where
  "tcp_stream workers_run calls opts = run_main_thread workers_run calls report_stream_stats opts"

definition udp_stream :: "workers_run \<Rightarrow> api_call list \<Rightarrow> options \<Rightarrow> world \<Rightarrow> int outcome" where
  "udp_stream workers_run calls opts = run_main_thread workers_run calls report_stream_stats opts"

section \<open>A client is safe from end to end\<close>

text \<open>
  What the joined workers have done: each thread is as it was created, or what its function returned
  when it ran on some kernel that keeps its contract.
\<close>

definition ran_on_posix :: "(thread \<Rightarrow> world \<Rightarrow> thread outcome) \<Rightarrow> thread \<Rightarrow> thread \<Rightarrow> bool" where
  "ran_on_posix worker t t' \<longleftrightarrow> t' = t \<or> (\<exists>v v'. fresh_thread False t v \<and> worker t v = Ret t' v')"

definition workers_of :: "(thread \<Rightarrow> world \<Rightarrow> thread outcome) \<Rightarrow> workers_run \<Rightarrow> bool" where
  "workers_of worker workers_run \<longleftrightarrow> (\<forall>ts w. list_all2 (ran_on_posix worker) ts (fst (workers_run ts w)))"

text \<open>
  The answers of the Lua interpreter that the code does not survive: the prelude does not load; loading or running the
  user's script ends with an error number that \<open>errno_lua\<close> does not know; a function or a collected value cannot be
  serialised; a collector does not hold exactly one element when the test starts. All but the first need a script.
\<close>

fun lua_misbehaves :: "options \<Rightarrow> call \<times> resp \<Rightarrow> bool" where
  "lua_misbehaves opts (CLuaRun what, r) \<longleftrightarrow> what = ''require script_prelude'' \<and> r_ret r \<noteq> 0
     \<or> script opts = Some what \<and> r_ret r \<notin> {0, LUA_ERRRUN, LUA_ERRSYNTAX, LUA_ERRMEM, LUA_ERRERR}"
| "lua_misbehaves opts (CLuaLoadfile file, r) \<longleftrightarrow>
     script opts = Some file \<and> r_ret r \<notin> {0, LUA_ERRRUN, LUA_ERRSYNTAX, LUA_ERRMEM, LUA_ERRERR}"
| "lua_misbehaves opts (CLuaSerialize hid, r) \<longleftrightarrow> script opts \<noteq> None \<and> r_lua r = None"
| "lua_misbehaves opts (CLuaEmpty c, r) \<longleftrightarrow> script opts \<noteq> None \<and> r_lua r \<noteq> Some 1"
| "lua_misbehaves opts (CLuaCollect c, r) \<longleftrightarrow> script opts \<noteq> None \<and> r_lua r = None"
| "lua_misbehaves opts _ \<longleftrightarrow> False"

text \<open>A run that faults does so on such an answer, the last it got.\<close>

definition blames_lua :: "options \<Rightarrow> 'a outcome \<Rightarrow> bool" where
  "blames_lua opts m \<longleftrightarrow> (\<forall>w'. m = Fault w' \<longrightarrow> w_trace w' \<noteq> [] \<and> lua_misbehaves opts (last (w_trace w')))"

named_theorems blame_intros "operations that fault only on answers of the interpreter"

definition no_fault :: "'a outcome \<Rightarrow> bool" where
  "no_fault m \<longleftrightarrow> wp m (\<lambda>_ _. True)"

lemma quietly_no_fault: "quietly w m \<Longrightarrow> no_fault m"
  by (auto simp: quietly_def no_fault_def elim: wp_mono)

lemma no_fault_obind: "no_fault m \<Longrightarrow> (\<And>a w. m = Ret a w \<Longrightarrow> no_fault (f a w)) \<Longrightarrow> no_fault (obind m f)"
  by (cases m) (simp_all add: no_fault_def)

lemma no_fault_Ret [simp]: "no_fault (Ret a w)"
  by (simp add: no_fault_def)

lemma no_fault_sys: "no_fault (sys c w)"
  by (auto simp: no_fault_def sys_def Let_def split: list.split)

lemma no_fault_call_or_die: "no_fault (call_or_die c msg w)"
  by (auto simp: call_or_die_def no_fault_def LOG_FATAL_def intro!: wp_mono [OF no_fault_sys [unfolded no_fault_def]])

lemma no_fault_blames: "no_fault m \<Longrightarrow> blames_lua opts m"
  by (auto simp: no_fault_def blames_lua_def)

lemma blames_obind [blame_intros]:
  "blames_lua opts m \<Longrightarrow> (\<And>a w. m = Ret a w \<Longrightarrow> blames_lua opts (f a w)) \<Longrightarrow> blames_lua opts (obind m f)"
  by (cases m) (auto simp: blames_lua_def)

lemma blames_simps [simp]: "blames_lua opts (Ret a w)" "blames_lua opts (LOG_FATAL msg w)"
  by (simp_all add: blames_lua_def LOG_FATAL_def)

lemma blames_if [blame_intros]:
  "(b \<Longrightarrow> blames_lua opts m) \<Longrightarrow> (\<not> b \<Longrightarrow> blames_lua opts n) \<Longrightarrow> blames_lua opts (if b then m else n)"
  by simp

text \<open>A step that asks the interpreter and then faults at once, or goes on.\<close>

lemma blames_ask [blame_intros]:
  assumes "\<And>r v. sys c w = Ret r v \<Longrightarrow> w_trace v = w_trace w @ [(c, r)] \<Longrightarrow> blames_lua opts (f r v)"
  shows "blames_lua opts (obind (sys c w) f)"
  by (rule blames_obind [OF no_fault_blames [OF no_fault_sys]]) (use assms sys_answer(1) in blast)

lemma blames_Fault: "blames_lua opts (Fault w) \<longleftrightarrow> w_trace w \<noteq> [] \<and> lua_misbehaves opts (last (w_trace w))"
  by (simp add: blames_lua_def)

lemma errno_lua_None: "errno_lua e = None \<longleftrightarrow> e \<notin> {LUA_ERRRUN, LUA_ERRSYNTAX, LUA_ERRMEM, LUA_ERRERR}"
  by (simp add: errno_lua_def)

lemma prelude_blames [blame_intros]: "blames_lua opts (load_prelude has_cb w)"
  unfolding load_prelude_def by (rule blames_ask) (simp add: blames_Fault Let_def split: option.split)

lemma lua_failed_blames:
  "w_trace w \<noteq> [] \<Longrightarrow> (errno_lua e = None \<Longrightarrow> lua_misbehaves opts (last (w_trace w))) \<Longrightarrow> blames_lua opts (lua_failed msg e x w)"
  by (simp add: lua_failed_def Let_def blames_Fault split: option.split)

lemma create_threads_blames: "blames_lua opts (create_threads ai se i n w)"
proof (induction n arbitrary: i w)
  case (Suc n)
  show ?case
    unfolding create_threads.simps script_slave_create_def
    by (auto intro!: blame_intros Suc.IH split: sum.split)
qed simp

lemma empty_blames: "script opts \<noteq> None \<Longrightarrow> blames_lua opts (empty_engine_collectors cs w)"
proof (induction cs arbitrary: w)
  case (Cons c cs)
  show ?case
    unfolding empty_engine_collectors.simps
    by (rule blames_ask) (use Cons in \<open>auto simp: blames_Fault\<close>)
qed simp

lemma pull_blames: "script opts \<noteq> None \<Longrightarrow> blames_lua opts (pull_collected ss cs w)"
proof (induction cs arbitrary: w)
  case (Cons c cs)
  show ?case
    unfolding pull_collected.simps
    by (rule blames_ask) (use Cons in \<open>auto simp: blames_Fault\<close>)
qed simp

lemma store_hook_blames: "script opts \<noteq> None \<Longrightarrow> blames_lua opts (store_hook se mode hid w)"
  unfolding store_hook_def luaL_checktype_def serialize_hook_def
  by (auto intro!: blames_ask blames_obind simp: blames_Fault split: option.split)

lemma register_collector_blames: "blames_lua opts (register_collector_cb c se w)"
  unfolding register_collector_cb_def luaL_checktype_def by (auto intro!: blames_ask)

lemma run_cb_blames:
  assumes "script opts \<noteq> None" "\<And>se ctx w. blames_lua opts (f se ctx w)"
  shows "blames_lua opts (run_cb f st w)"
  using assms by (auto simp: run_cb_def intro!: blames_obind empty_blames split: prod.split)

lemma script_calls_blames:
  assumes "script opts \<noteq> None" "\<And>se ctx w. blames_lua opts (f se ctx w)"
  shows "blames_lua opts (script_calls f cs st w)"
proof (induction cs arbitrary: st w)
  case (Cons c cs)
  obtain se pending ctx where st: "st = (se, pending, ctx)" by (metis surj_pair)
  have "blames_lua opts (script_cb f c st w)"
    using assms by (cases c) (auto simp: st intro!: blames_obind store_hook_blames register_collector_blames run_cb_blames)
  then show ?case by (auto intro!: blames_obind Cons)
qed simp

lemma run_script_blames:
  assumes "script opts = Some input" "\<And>se ctx w. blames_lua opts (f se ctx w)"
  shows "blames_lua opts (run_script input calls f se ctx w)"
proof -
  have s: "script opts \<noteq> None" using assms(1) by simp
  show ?thesis
    unfolding run_script_def
    by (intro blames_ask blames_if blames_obind [OF script_calls_blames [OF s assms(2)]])
      (auto simp: assms(1) errno_lua_None intro!: lua_failed_blames blames_ask blames_obind [OF run_cb_blames [OF s assms(2)]])
qed

lemma start_threads_no_fault: "cpusets \<noteq> [] \<Longrightarrow> no_fault (start_threads pin cpusets i n w)"
  by (induction n arbitrary: i w) (auto intro!: no_fault_obind no_fault_call_or_die)

lemma start_workers_no_fault: "no_fault (start_worker_threads pin n w)"
proof -
  have "cpusets \<noteq> []" if "(if pin then get_cpuset w else Ret [[]] w) = Ret cpusets w'" for cpusets w'
  proof (cases pin)
    case True
    with that have "get_cpuset w = Ret cpusets w'" by simp
    then obtain cpus cores w1 where "cores_ok cpus (cores, cpusets)" "cpus \<noteq> []"
      by (rule get_cpuset_Ret)
    then show ?thesis by (auto simp: cores_ok_def)
  qed (use that in auto)
  moreover have "no_fault (if pin then get_cpuset w else Ret [[]] w)"
    by (simp add: quietly_no_fault [OF quiet_get_cpuset])
  ultimately show ?thesis
    unfolding start_worker_threads_def
    by (auto intro!: no_fault_obind no_fault_call_or_die start_threads_no_fault)
qed

lemma stop_workers_no_fault: "no_fault (stop_worker_threads ts w)"
proof -
  have "no_fault (tell_threads ts w)" for ts w
    by (induction ts arbitrary: w) (auto intro!: no_fault_obind no_fault_call_or_die)
  moreover have "no_fault (join_threads i n w)" for i n w
    by (induction n arbitrary: i w) (auto intro!: no_fault_obind no_fault_call_or_die)
  ultimately show ?thesis by (auto simp: stop_worker_threads_def intro: no_fault_obind)
qed

lemma pull_nothing: "se_collectors se = [] \<Longrightarrow> pull_script_data se ts w = Ret () w"
  by (induction ts) (simp_all add: script_engine_pull_data_def)

lemma pull_data_blames:
  "script opts \<noteq> None \<or> se_collectors se = [] \<Longrightarrow> blames_lua opts (pull_script_data se ts w)"
proof (elim disjE)
  assume s: "script opts \<noteq> None"
  show ?thesis
    by (induction ts arbitrary: w) (auto simp: script_engine_pull_data_def intro!: blames_obind pull_blames [OF s])
qed (simp add: pull_nothing)

lemma run_workers_blames:
  assumes "client opts" "script opts \<noteq> None \<or> se_collectors se = []"
  shows "blames_lua opts (run_worker_threads workers_run opts se ctx w)"
proof -
  have wait: "no_fault (control_plane_wait_until_done opts cp w)" for cp w
    using assms(1) by (auto simp: control_plane_wait_until_done_def intro: no_fault_obind no_fault_sys)
  note calm = start_workers_no_fault no_fault_sys wait stop_workers_no_fault
  show ?thesis
    unfolding run_worker_threads_def Let_def push_script_data_same case_prod_unfold obind_simps
    by (intro blames_obind calm [THEN no_fault_blames] pull_data_blames [OF assms(2)]) simp
qed

lemma run_workers_Ret:
  "run_worker_threads workers_run opts se ctx w = Ret ctx' w' \<Longrightarrow>
   \<exists>v. mc_workers ctx' = fst (workers_run (map (with_engine se) (mc_workers ctx)) v)"
  by (auto simp: run_worker_threads_def Let_def push_script_data_same case_prod_unfold obind_eq_Ret)

lemma run_test_blames:
  assumes "client opts" "se_collectors se = []"
  shows "blames_lua opts (run_test workers_run calls opts se ctx w)"
proof (cases "script opts")
  case None
  with assms show ?thesis by (simp add: run_test_def run_workers_blames)
next
  case (Some name)
  have "blames_lua opts (run_script name calls (run_worker_threads workers_run opts) se ctx w)"
    by (rule run_script_blames [OF Some]) (use assms(1) Some in \<open>simp add: run_workers_blames\<close>)
  with Some show ?thesis by (auto simp: run_test_def intro!: blames_obind)
qed

text \<open>What holds of the samples of every worker, whichever thread it is.\<close>

definition indexed :: "(sample \<Rightarrow> bool) \<Rightarrow> thread list \<Rightarrow> bool" where
  "indexed P ts \<longleftrightarrow> (\<forall>i<length ts. \<forall>smp\<in>set (t_samples (ts ! i)). s_tid smp = int i \<and> P smp)"

lemma workers_indexed:
  assumes worker: "\<And>t v. fresh_thread False t v \<Longrightarrow>
      wp (worker t v) (\<lambda>t' _. \<forall>smp\<in>set (t_samples t'). s_tid smp = t_index t \<and> P smp)"
    and run: "list_all2 (ran_on_posix worker) ts ts'"
    and ts: "map t_index ts = map int [0..<length ts]" "\<forall>t\<in>set ts. t_samples t = []"
  shows "indexed P ts'"
  unfolding indexed_def
proof (intro allI impI ballI)
  fix i smp
  assume i: "i < length ts'" and smp: "smp \<in> set (t_samples (ts' ! i))"
  have len: "length ts = length ts'" using run by (rule list_all2_lengthD)
  then have idx: "t_index (ts ! i) = int i"
    using arg_cong [OF ts(1), of "\<lambda>xs. xs ! i"] i by simp
  from run i len have "ran_on_posix worker (ts ! i) (ts' ! i)" by (simp add: list_all2_conv_all_nth)
  then show "s_tid smp = int i \<and> P smp"
    unfolding ran_on_posix_def
  proof (elim disjE exE conjE)
    fix v v'
    assume "fresh_thread False (ts ! i) v" "worker (ts ! i) v = Ret (ts' ! i) v'"
    from wp_Ret [OF worker [OF this(1)] this(2)] smp idx show ?thesis by auto
  qed (use smp ts(2) i len in auto)
qed

text \<open>What is left of the workers when the test has run: of each what it did, in some order of the calls of a script.\<close>

lemma test_indexed:
  assumes run: "run_test workers_run calls opts se \<lparr>mc_cp = cp, mc_workers = workers, mc_rusage_end = rusage0\<rparr> w4 = Ret ctx w5"
    and created: "map t_index workers = map int [0..<length workers]" "\<forall>t\<in>set workers. t_samples t = []"
    and workers: "workers_of worker workers_run"
    and worker: "\<And>t v. fresh_thread False t v \<Longrightarrow>
      wp (worker t v) (\<lambda>t' _. \<forall>smp\<in>set (t_samples t'). s_tid smp = t_index t \<and> P smp)"
  shows "length (mc_workers ctx) = length workers \<and> indexed P (mc_workers ctx)"
proof -
  let ?ctx = "\<lparr>mc_cp = cp, mc_workers = workers, mc_rusage_end = rusage0\<rparr>"
  obtain se' v v' where "run_worker_threads workers_run opts se' ?ctx v = Ret ctx v'"
    using run_test_ran [OF run] by (auto simp: ran_def)
  from run_workers_Ret [OF this] obtain v where v: "mc_workers ctx = fst (workers_run (map (with_engine se') workers) v)" by auto
  let ?ts = "map (with_engine se') workers"
  have all: "list_all2 (ran_on_posix worker) ?ts (mc_workers ctx)" using workers v by (simp add: workers_of_def)
  have "t_index (with_engine se' t) = t_index t" "t_samples (with_engine se' t) = t_samples t" for t
    by (simp_all add: with_engine_def)
  with created have "indexed P (mc_workers ctx)" by (intro workers_indexed [OF worker all]) (auto simp: comp_def)
  with list_all2_lengthD [OF all] show ?thesis by simp
qed

lemma client_blames:
  assumes client: "client opts" and workers: "workers_of worker workers_run"
    and worker: "\<And>t v. fresh_thread False t v \<Longrightarrow>
      wp (worker t v) (\<lambda>t' _. \<forall>smp\<in>set (t_samples t'). s_tid smp = t_index t \<and> P smp)"
    and report: "\<And>ts v. length ts = nat (num_threads opts) \<Longrightarrow> indexed P ts \<Longrightarrow> no_fault (report opts ts v)"
  shows "blames_lua opts (run_main_thread workers_run calls report opts w)"
proof (cases "dry_run opts")
  case False
  note steps = no_fault_blames [OF no_fault_call_or_die] no_fault_blames [OF quietly_no_fault [OF quiet_start]]
    no_fault_blames [OF quietly_no_fault [OF quiet_stop]] no_fault_blames [OF quietly_no_fault [OF free_workers_quiet]]
  show ?thesis
    unfolding run_main_thread_def Let_def if_not_P [OF False]
  proof (rule blames_obind)
    show "blames_lua opts (script_engine_create (client opts) (PRINT ''total_run_time'' (PInt (test_length opts)) w))"
      unfolding script_engine_create_def by (auto intro!: blames_obind prelude_blames)
    fix s w1
    assume s: "script_engine_create (client opts) (PRINT ''total_run_time'' (PInt (test_length opts)) w) = Ret s w1"
    show "blames_lua opts (case s of Inl _ \<Rightarrow> LOG_FATAL ''failed to create script engine: %s'' w1
      | Inr se \<Rightarrow> obind (control_plane_start opts control_plane_create w1) (\<lambda>(cp, ai) w.
       obind (call_or_die (CBarrierInit (num_threads opts + 1)) ''pthread_barrier_init: %s'' w) (\<lambda>_ w.
       obind (create_worker_threads opts ai se w) (\<lambda>workers w.
       obind (run_test workers_run calls opts se \<lparr>mc_cp = cp, mc_workers = workers, mc_rusage_end = rusage0\<rparr> w) (\<lambda>ctx w.
       obind (call_or_die CBarrierDestroy ''pthread_barrier_destroy: %s'' w) (\<lambda>_ w.
       obind (control_plane_stop opts (mc_cp ctx) w) (\<lambda>_ w.
       obind (report opts (mc_workers ctx) (report_rusage (mc_rusage_end ctx)
         (PRINT ''invalid_secret_count'' (PInt (control_plane_incidents (mc_cp ctx))) w))) (\<lambda>_ w.
       obind (free_worker_threads (mc_workers ctx) w) (\<lambda>_ w. Ret 0 w)))))))))"
    proof (cases s)
      case (Inr se)
      with s have se: "se_collectors se = []" by (auto simp: script_engine_create_def obind_eq_Ret split: if_splits)
      have rest: "blames_lua opts (obind (run_test workers_run calls opts se \<lparr>mc_cp = cp, mc_workers = workers, mc_rusage_end = rusage0\<rparr> w4) (\<lambda>ctx w.
         obind (call_or_die CBarrierDestroy ''pthread_barrier_destroy: %s'' w) (\<lambda>_ w.
         obind (control_plane_stop opts (mc_cp ctx) w) (\<lambda>_ w.
         obind (report opts (mc_workers ctx) (report_rusage (mc_rusage_end ctx)
           (PRINT ''invalid_secret_count'' (PInt (control_plane_incidents (mc_cp ctx))) w))) (\<lambda>_ w.
         obind (free_worker_threads (mc_workers ctx) w) (\<lambda>_ w. Ret 0 w))))))"
        if c: "create_worker_threads opts ai se w3 = Ret workers w4" for cp ai w3 w4 workers
      proof (rule blames_obind [OF run_test_blames [OF client se]])
        fix ctx w5
        assume run: "run_test workers_run calls opts se \<lparr>mc_cp = cp, mc_workers = workers, mc_rusage_end = rusage0\<rparr> w4 = Ret ctx w5"
        note created = create_threads_calls [OF c [unfolded create_worker_threads_def]]
        have n: "length workers = nat (num_threads opts)"
          using arg_cong [OF conjunct1 [OF conjunct2 [OF created]], of length] by simp
        have "no_fault (report opts (mc_workers ctx) v)" for v
          using test_indexed [OF run _ _ workers worker] created n by (intro report) auto
        then show "blames_lua opts (obind (call_or_die CBarrierDestroy ''pthread_barrier_destroy: %s'' w5) (\<lambda>_ w.
         obind (control_plane_stop opts (mc_cp ctx) w) (\<lambda>_ w.
         obind (report opts (mc_workers ctx) (report_rusage (mc_rusage_end ctx)
           (PRINT ''invalid_secret_count'' (PInt (control_plane_incidents (mc_cp ctx))) w))) (\<lambda>_ w.
         obind (free_worker_threads (mc_workers ctx) w) (\<lambda>_ w. Ret 0 w)))))"
          by (intro blames_obind steps no_fault_blames) auto
      qed
      show ?thesis
        unfolding Inr sum.case case_prod_unfold
        by (intro blames_obind steps rest [unfolded case_prod_unfold]) (simp_all add: create_worker_threads_def create_threads_blames)
    qed simp
  qed
qed (simp add: run_main_thread_def)

section \<open>Runs that end\<close>

text \<open>
  A kernel that agrees to everything, workers that return at once, and a total rule for outcomes: the run
  ends normally and its result satisfies \<open>Q\<close>.
\<close>

definition agreeable :: kernel where
  "agreeable tr c = (case c of
     CGetaddrinfo _ _ _ _ \<Rightarrow> resp0\<lparr>r_addrs := [addrinfo0]\<rparr>
   | CWrite _ (Bytes bs) \<Rightarrow> resp0\<lparr>r_ret := int (length bs)\<rparr>
   | CRead _ n \<Rightarrow> resp0\<lparr>r_ret := n, r_data := replicate (nat n) 0\<rparr>
   | _ \<Rightarrow> resp0)"
definition idle_run :: workers_run where "idle_run ts w = (ts, Timespec 0 0, rusage0)"
definition twp :: "'a outcome \<Rightarrow> ('a \<Rightarrow> world \<Rightarrow> bool) \<Rightarrow> bool" where
  "twp m Q \<longleftrightarrow> (\<exists>a w. m = Ret a w \<and> Q a w)"

definition agreeing :: "world \<Rightarrow> bool" where
  "agreeing w \<longleftrightarrow> set (w_inputs w) \<subseteq> {agreeable}"

lemma twp_simps [simp]: "twp (Ret a w) Q = Q a w" "twp (obind m f) Q = twp m (\<lambda>a w. twp (f a w) Q)"
  by (auto simp: twp_def obind_eq_Ret)

lemma agreeing_frame [simp]: "agreeing (log_msg l s w) = agreeing w" "agreeing (PRINT key v w) = agreeing w"
  "agreeing (w\<lparr>w_rusage_start := r\<rparr>) = agreeing w" "agreeing (w\<lparr>w_time_start := t\<rparr>) = agreeing w"
  by (simp_all add: agreeing_def)

lemma twp_sys:
  assumes "agreeing w" "1 \<le> length (w_inputs w)"
    "\<And>w'. agreeing w' \<Longrightarrow> length (w_inputs w') = length (w_inputs w) - 1 \<Longrightarrow> Q (agreeable [] c) w'"
  shows "twp (sys c w) Q"
proof (cases "w_inputs w")
  case (Cons k ks)
  with assms(1) have "k = agreeable" by (simp add: agreeing_def)
  moreover have "agreeable (w_trace w) c = agreeable [] c" by (simp add: agreeable_def split: call.split payload.split)
  ultimately show ?thesis using assms Cons by (auto simp: twp_def sys_def Let_def agreeing_def)
qed (use assms(2) in simp)

lemma twp_call: 
  assumes "r_ret (agreeable [] c) = 0" "agreeing w" "1 \<le> length (w_inputs w)"
    "\<And>w'. agreeing w' \<Longrightarrow> length (w_inputs w') = length (w_inputs w) - 1 \<Longrightarrow> Q () w'"
  shows "twp (call_or_die c msg w) Q"
  using assms by (auto simp: call_or_die_def intro!: twp_sys)

lemma twp_close: 
  assumes "agreeing w" "1 \<le> length (w_inputs w)"
    "\<And>w'. agreeing w' \<Longrightarrow> length (w_inputs w') = length (w_inputs w) - 1 \<Longrightarrow> Q 0 w'"
  shows "twp (do_close fd w) Q"
  using assms by (subst do_close.simps) (auto simp: agreeable_def resp0_def intro!: twp_sys)

definition idle_opts :: options where "idle_opts = options0\<lparr>num_threads := 2, control_port := ''12866''\<rparr>"
lemma idle_fields [simp]: "client idle_opts = False" "num_threads idle_opts = 2" "num_clients idle_opts = 0" "pin_cpu idle_opts = False"
 "nonblocking idle_opts = False" "script idle_opts = None" "dry_run idle_opts = False" "all_samples idle_opts = None"
 by (simp_all add: idle_opts_def options0_def)

lemma agreeable_resp [simp]:
  "r_ret (agreeable tr (CLuaRun x)) = 0" "r_ret (agreeable tr (CGetaddrinfo p q m n)) = 0" "r_addrs (agreeable tr (CGetaddrinfo p q m n)) = [addrinfo0]"
  "r_ret (agreeable tr (CSocket m n i)) = 0" "r_ret (agreeable tr (CBind m sa i)) = 0" "r_ret (agreeable tr (CListen m n)) = 0"
  "r_ret (agreeable tr (CBarrierInit m)) = 0" "r_ret (agreeable tr CEventfd) = 0" "r_ret (agreeable tr CBarrierDestroy) = 0"
  "r_ret (agreeable tr (CEventfdWrite m)) = 0" "r_ret (agreeable tr (CPthreadCreate j)) = 0" "r_ret (agreeable tr (CPthreadJoin j)) = 0"
  "r_ret (agreeable tr CAttrInit) = 0" "r_ret (agreeable tr CAttrDestroy) = 0" "r_ret (agreeable tr (CSetsockopt m so u)) = 0"
  by (simp_all add: agreeable_def resp0_def)

lemma start_ok:
  assumes "agreeing w" "6 < length (w_inputs w)"
    "\<And>cp ai w'. cp_ctrl_port cp = 0 \<Longrightarrow> agreeing w' \<Longrightarrow> length (w_inputs w') = length (w_inputs w) - 6 \<Longrightarrow> Q (cp, ai) w'"
  shows "twp (control_plane_start idle_opts control_plane_create w) Q"
  using assms(1,2)
  apply (simp add: control_plane_start_def control_plane_create_def ctrl_listen_def do_getaddrinfo_def Let_def)
  apply ((rule twp_sys; simp add: set_reuseport_def set_reuseaddr_def setsockopt_or_err_def)+)
  apply (rule assms(3); simp)
  done

lemma create_ok:
  assumes "agreeing w" "n + n < length (w_inputs w)"
    "\<And>ts w'. length ts = n \<Longrightarrow> \<forall>t\<in>set ts. t_samples t = [] \<Longrightarrow> agreeing w' \<Longrightarrow> length (w_inputs w') = length (w_inputs w) - (n + n) \<Longrightarrow> Q ts w'"
  shows "twp (create_threads ai se i n w) Q"
  using assms
proof (induction n arbitrary: i w Q)
  case (Suc n)
  show ?case
    using Suc.prems(1,2)
    by (auto simp: script_slave_create_def load_prelude_def intro!: twp_sys Suc.IH Suc.prems(3))
qed simp

lemma starts_ok:
  assumes "agreeing w" "n < length (w_inputs w)"
    "\<And>w'. agreeing w' \<Longrightarrow> length (w_inputs w') = length (w_inputs w) - n \<Longrightarrow> Q () w'"
  shows "twp (start_threads False sets i n w) Q"
  using assms
proof (induction n arbitrary: i w Q)
  case (Suc n)
  show ?case
    using Suc.prems(1,2)
    by (auto intro!: twp_call Suc.IH Suc.prems(3))
qed simp

lemma joins_ok:
  assumes "agreeing w" "n < length (w_inputs w)"
    "\<And>w'. agreeing w' \<Longrightarrow> length (w_inputs w') = length (w_inputs w) - n \<Longrightarrow> Q () w'"
  shows "twp (join_threads i n w) Q"
  using assms
proof (induction n arbitrary: i w Q)
  case (Suc n)
  show ?case
    using Suc.prems(1,2)
    by (auto intro!: twp_call Suc.IH Suc.prems(3))
qed simp

lemma tells_ok:
  assumes "agreeing w" "length ts < length (w_inputs w)"
    "\<And>w'. agreeing w' \<Longrightarrow> length (w_inputs w') = length (w_inputs w) - length ts \<Longrightarrow> Q () w'"
  shows "twp (tell_threads ts w) Q"
  using assms
proof (induction ts arbitrary: w Q)
  case (Cons t ts)
  show ?case
    using Cons.prems(1,2)
    by (auto intro!: twp_call Cons.IH Cons.prems(3))
qed simp

lemma frees_ok:
  assumes "agreeing w" "length ts < length (w_inputs w)"
    "\<And>w'. agreeing w' \<Longrightarrow> length (w_inputs w') = length (w_inputs w) - length ts \<Longrightarrow> Q () w'"
  shows "twp (free_worker_threads ts w) Q"
  using assms
proof (induction ts arbitrary: w Q)
  case (Cons t ts)
  show ?case
    using Cons.prems(1,2)
    by (auto simp: Let_def intro!: twp_close Cons.IH Cons.prems(3))
qed simp

lemma start_workers_ok:
  assumes "agreeing w" "n + 2 < length (w_inputs w)"
    "\<And>w'. agreeing w' \<Longrightarrow> length (w_inputs w') = length (w_inputs w) - (n + 2) \<Longrightarrow> Q () w'"
  shows "twp (start_worker_threads False n w) Q"
  using assms(1,2) by (auto simp: start_worker_threads_def intro!: twp_call starts_ok assms(3))

lemma stop_workers_ok:
  assumes "agreeing w" "length ts + length ts < length (w_inputs w)"
    "\<And>w'. agreeing w' \<Longrightarrow> length (w_inputs w') = length (w_inputs w) - (length ts + length ts) \<Longrightarrow> Q () w'"
  shows "twp (stop_worker_threads ts w) Q"
  using assms(1,2) by (auto simp: stop_worker_threads_def intro!: tells_ok joins_ok assms(3))

lemma workers_ok:
  assumes "agreeing w" "20 \<le> length (w_inputs w)" "length (mc_workers ctx) = 2" "se_collectors se = []" "\<forall>t\<in>set (mc_workers ctx). t_samples t = []"
    "\<And>ctx' w'. length (mc_workers ctx') = 2 \<Longrightarrow> \<forall>t\<in>set (mc_workers ctx'). t_samples t = [] \<Longrightarrow> agreeing w' \<Longrightarrow> length (w_inputs w') = length (w_inputs w) - 12 \<Longrightarrow> Q ctx' w'"
  shows "twp (run_worker_threads idle_run idle_opts se ctx w) Q"
  using assms(1-5)
  apply (simp add: run_worker_threads_def Let_def push_script_data_same idle_run_def pull_nothing control_plane_wait_until_done_def)
  apply (rule start_workers_ok; simp)
  apply (rule twp_sys; simp)
  apply (rule twp_sys; simp)
  apply (rule twp_close; simp)
  apply (rule twp_sys; simp)
  apply (rule stop_workers_ok; simp)
  apply (rule assms(6); simp add: with_engine_def)
  done

lemma no_samples: "\<forall>t\<in>set ts. t_samples t = [] \<Longrightarrow> collect_samples ts = []"
  by (cases "collect_samples ts") (use set_collect_samples [of ts] in auto)

lemma idle_run_ends:
  assumes "agreeing w" "length (w_inputs w) = 40"
  shows "twp (tcp_rr idle_run [] idle_opts w) (\<lambda>r w. r = 0)"
  unfolding tcp_rr_def using assms
  by (auto simp: run_main_thread_def Let_def script_engine_create_def load_prelude_def
      create_worker_threads_def run_test_def control_plane_stop_def report_rusage_def report_stats_def
      no_samples intro!: twp_sys twp_call start_ok create_ok workers_ok frees_ok)

text \<open>A command line that only asks for a client.\<close>

definition only_client :: getopt where "only_client = (\<lambda>_ _. ([(99, None)], []))"

definition has_client :: "flags_parser \<Rightarrow> bool" where
  "has_client fp \<longleftrightarrow> (\<exists>fl\<in>set (fp_flags fp). fl_short fl = 99 \<and> fl_var fl = Field ''client'' \<and> fl_type fl = ''bool'' \<and> fl_parser fl = None)"

lemma has_client_intros:
  "has_client (DEFINE_FLAG ''bool'' ''client'' v 99 usage fp)"
  "has_client fp \<Longrightarrow> has_client (DEFINE_FLAG type f v c usage fp)"
  "has_client fp \<Longrightarrow> a \<noteq> Field ''client'' \<Longrightarrow> has_client (flags_parser_set_parser a p fp)"
  "has_client fp \<Longrightarrow> a \<noteq> Field ''client'' \<Longrightarrow> has_client (flags_parser_set_printer a pr fp)"
  "has_client fp \<Longrightarrow> a \<noteq> Field ''client'' \<Longrightarrow> has_client (flags_parser_set_optional a fp)"
  by (auto simp: has_client_def DEFINE_FLAG_def flags_parser_add_def flags_parser_set_parser_def
      flags_parser_set_printer_def flags_parser_set_optional_def update_flags_def)

lemma tables_have_client: "table \<in> {tcp_rr_flags, udp_stream_flags} \<Longrightarrow> has_client (parser_of table)"
  by (auto simp: tcp_rr_flags_def udp_stream_flags_def parser_of_def short_def char_code_def has_client_intros)

lemma run_only_client:
  assumes "table \<in> {tcp_rr_flags, udp_stream_flags}"
  shows "flags_parser_run (\<lambda>_. False) only_client (parser_of table) w
    = Ret ((parser_of table)\<lparr>fp_store := (fp_store (parser_of table))(Field ''client'' := VBool True)\<rparr>) w"
proof -
  let ?flags = "sort_flags (fp_flags (parser_of table))"
  obtain fl where fl: "fl \<in> set (fp_flags (parser_of table))" "fl_short fl = 99" "fl_var fl = Field ''client''"
    "fl_type fl = ''bool''" "fl_parser fl = None"
    using tables_have_client [OF assms] by (auto simp: has_client_def)
  then obtain i where i: "i < length ?flags" "?flags ! i = fl" by (metis in_set_conv_nth sort_flags_simps(1))
  have "short_names_distinct ?flags" using assms tables_short_names short_names_distinct_mset [OF sort_flags_spec(1)] by auto
  from flag_index_short [OF this i(1), of "\<lambda>_. False"] i(2) fl(2) have "flag_index (\<lambda>_. False) ?flags 99 = i"
    by (simp add: isgraph_def)
  with i fl table_defaults [of table] assms show ?thesis
    by (auto simp: flags_parser_run_def only_client_def Let_def char_code_def default_parser_def)
qed

end
