(* ===== verification/Serialize.thy ===== *)
theory Serialize
  imports World
begin

text \<open>
  \<open>serialize.c\<close>: copying values of Lua from one interpreter to another, with the functions' code and
  upvalues. Serialised values are trees that remember the identity of what they were made from;
  the cache maps identities to the copies, so that sharing is kept.
\<close>

section \<open>The interpreter\<close>

text \<open>
  Values of Lua; a pointer is what \<open>lua_topointer\<close> and \<open>lua_upvalueid\<close> answer. The operations of the
  interface the code calls are a parameter \<open>L\<close>, over states \<open>'h\<close> of an interpreter that are not looked
  into: \<open>l_next\<close> is the sequence \<open>lua_next\<close> goes through from nil to the end, \<open>l_collector\<close> tells
  whether \<open>luaL_getmetafield\<close> finds the field \<open>collector\<close> of a table, \<open>l_upvalues\<close> is what \<open>lua_upvalueid\<close> and
  \<open>lua_getupvalue\<close> answer for 1, 2, and so on. \<open>l_live\<close>, the tables and functions that exist, and \<open>l_code\<close>, what a
  function is apart from its upvalues, are not used by the code but by the laws of the interface.
\<close>

type_synonym ptr = nat

datatype lval = LNil | LBoolean bool | LNumber double | LString string | LTable ptr | LFunction ptr
  | LLightuserdata ptr | LUserdata ptr | LThread ptr

record 'h lua =
  l_live :: "'h \<Rightarrow> lval set"
  l_next :: "'h \<Rightarrow> ptr \<Rightarrow> (lval \<times> lval) list"
  l_rawget :: "'h \<Rightarrow> ptr \<Rightarrow> lval \<Rightarrow> lval"
  l_collector :: "'h \<Rightarrow> ptr \<Rightarrow> bool"
  l_objlen :: "'h \<Rightarrow> ptr \<Rightarrow> nat"
  l_code :: "'h \<Rightarrow> ptr \<Rightarrow> nat"
  l_dump :: "'h \<Rightarrow> ptr \<Rightarrow> byte list option"
  l_upvalues :: "'h \<Rightarrow> ptr \<Rightarrow> (ptr \<times> lval) list"
  l_newtable :: "'h \<Rightarrow> ptr \<times> 'h"
  l_rawset :: "ptr \<Rightarrow> lval \<Rightarrow> lval \<Rightarrow> 'h \<Rightarrow> 'h"
  l_loadbuffer :: "byte list \<Rightarrow> 'h \<Rightarrow> (ptr \<times> 'h) option"
  l_setupvalue :: "ptr \<Rightarrow> nat \<Rightarrow> lval \<Rightarrow> 'h \<Rightarrow> 'h option"
  l_upvaluejoin :: "ptr \<Rightarrow> nat \<Rightarrow> ptr \<Rightarrow> nat \<Rightarrow> 'h \<Rightarrow> 'h"

section \<open>Serialised values\<close>

datatype svalue = SBoolean bool | SNumber double | SString string | SFunction sfunction | STable stable
and supvalue = Supvalue (up_id: ptr) (up_number: nat) (up_value: svalue) (up_collector: "ptr option")
and stable_entry = Sentry (en_key: svalue) (en_value: svalue) (en_collector: "ptr option")
and stable = Stable (st_id: ptr) (st_entries: "stable_entry list")
and sfunction = Sfunction (sf_id: ptr) (sf_code: "byte list") (sf_upvalues: "supvalue list")

text \<open>Failed assertions, fatal errors, and running out of stack.\<close>

datatype failure = Assertion | Fatal_error | Stack_overflow

definition rbind :: "failure + 'a \<Rightarrow> ('a \<Rightarrow> failure + 'b) \<Rightarrow> failure + 'b" where
  "rbind m f = (case m of Inl e \<Rightarrow> Inl e | Inr a \<Rightarrow> f a)"

fun map_res :: "('a \<Rightarrow> failure + 'b) \<Rightarrow> 'a list \<Rightarrow> failure + 'b list" where
  "map_res f [] = Inr []"
| "map_res f (x # xs) = rbind (f x) (\<lambda>y. rbind (map_res f xs) (\<lambda>ys. Inr (y # ys)))"

lemma rbind_simps [simp]: "rbind (Inl e) f = Inl e" "rbind (Inr a) f = f a"
  by (simp_all add: rbind_def)

lemma rbind_eq_Inr: "rbind m f = Inr b \<longleftrightarrow> (\<exists>a. m = Inr a \<and> f a = Inr b)"
  by (cases m) simp_all

section \<open>Serialising\<close>

text \<open>
  \<open>unwrap_collector_maybe\<close>: a table with the meta-field stands for its element 1. A \<open>char *\<close> ends at the
  first NUL. The recursion of the code is as deep as the value; \<open>d\<close> is the depth the stack can take, and
  \<open>ser\<close> the recursive call. New list elements go to the front.
\<close>

definition unwrap_collector_maybe :: "'h lua \<Rightarrow> 'h \<Rightarrow> lval \<Rightarrow> ptr option \<times> lval" where
  "unwrap_collector_maybe L h v = (case v of
     LTable r \<Rightarrow> if l_collector L h r then (Some r, l_rawget L h r (LNumber (Fin 1))) else (None, v)
   | _ \<Rightarrow> (None, v))"

definition strdup :: "string \<Rightarrow> string" where
  "strdup s = takeWhile (\<lambda>c. c \<noteq> CHR 0x00) s"

definition dump_table_entries :: "(lval \<Rightarrow> failure + svalue) \<Rightarrow> 'h lua \<Rightarrow> 'h \<Rightarrow> ptr \<Rightarrow> failure + stable_entry list" where
  "dump_table_entries ser L h r =
     rbind (map_res (\<lambda>(k, x). case unwrap_collector_maybe L h x of (coll, x) \<Rightarrow>
         rbind (ser x) (\<lambda>sx. rbind (ser k) (\<lambda>sk. Inr (Sentry sk sx coll)))) (l_next L h r)) (\<lambda>es. Inr (rev es))"

definition serialize_table :: "(lval \<Rightarrow> failure + svalue) \<Rightarrow> 'h lua \<Rightarrow> 'h \<Rightarrow> ptr \<Rightarrow> failure + stable" where
  "serialize_table ser L h r = rbind (dump_table_entries ser L h r) (\<lambda>es. Inr (Stable r es))"

definition serialize_upvalue :: "(lval \<Rightarrow> failure + svalue) \<Rightarrow> 'h lua \<Rightarrow> 'h \<Rightarrow> ptr \<Rightarrow> nat \<Rightarrow> lval \<Rightarrow> failure + supvalue" where
  "serialize_upvalue ser L h uid number x = (case unwrap_collector_maybe L h x of (coll, x) \<Rightarrow>
     rbind (ser x) (\<lambda>sx. Inr (Supvalue uid number sx coll)))"

definition serialize_upvalues :: "(lval \<Rightarrow> failure + svalue) \<Rightarrow> 'h lua \<Rightarrow> 'h \<Rightarrow> ptr \<Rightarrow> failure + supvalue list" where
  "serialize_upvalues ser L h f =
     rbind (map_res (\<lambda>(i, uid, x). serialize_upvalue ser L h uid i x) (enumerate 1 (l_upvalues L h f)))
       (\<lambda>us. Inr (rev us))"

definition dump_function_bytecode :: "'h lua \<Rightarrow> 'h \<Rightarrow> ptr \<Rightarrow> failure + byte list" where
  "dump_function_bytecode L h f = (case l_dump L h f of
     None \<Rightarrow> Inl Fatal_error
   | Some code \<Rightarrow> if code = [] then Inl Fatal_error else Inr code)"

definition serialize_function :: "(lval \<Rightarrow> failure + svalue) \<Rightarrow> 'h lua \<Rightarrow> 'h \<Rightarrow> ptr \<Rightarrow> failure + sfunction" where
  "serialize_function ser L h f =
     rbind (dump_function_bytecode L h f) (\<lambda>code.
       rbind (serialize_upvalues ser L h f) (\<lambda>us. Inr (Sfunction f code us)))"

primrec serialize_object :: "'h lua \<Rightarrow> 'h \<Rightarrow> nat \<Rightarrow> lval \<Rightarrow> failure + svalue" where
  "serialize_object L h 0 v = Inl Stack_overflow"
| "serialize_object L h (Suc d) v = (case v of
     LNil \<Rightarrow> Inl Assertion
   | LNumber x \<Rightarrow> Inr (SNumber x)
   | LBoolean b \<Rightarrow> Inr (SBoolean b)
   | LString s \<Rightarrow> Inr (SString (strdup s))
   | LTable r \<Rightarrow> rbind (serialize_table (serialize_object L h d) L h r) (\<lambda>t. Inr (STable t))
   | LFunction f \<Rightarrow> rbind (serialize_function (serialize_object L h d) L h f) (\<lambda>sf. Inr (SFunction sf))
   | _ \<Rightarrow> Inl Assertion)"

section \<open>Deserialising\<close>

record upvalue_cache =
  upvalue_map :: "(ptr \<times> ptr \<times> nat) list"
  object_map :: "(ptr \<times> ptr) list"
  collector_map :: "(ptr \<times> ptr \<times> svalue) list"
  object_tbl_idx :: ptr \<comment> \<open>the table at this index of the stack\<close>

definition upvalue_cache_new :: upvalue_cache where
  "upvalue_cache_new = \<lparr>upvalue_map = [], object_map = [], collector_map = [], object_tbl_idx = 0\<rparr>"

fun lua_topointer :: "lval \<Rightarrow> ptr" where
  "lua_topointer (LTable r) = r"
| "lua_topointer (LFunction r) = r"
| "lua_topointer (LLightuserdata r) = r"
| "lua_topointer (LUserdata r) = r"
| "lua_topointer (LThread r) = r"
| "lua_topointer _ = 0"

definition map_object :: "ptr \<Rightarrow> ptr \<Rightarrow> upvalue_cache \<Rightarrow> upvalue_cache" where
  "map_object key obj c = c\<lparr>object_map := (key, obj) # object_map c\<rparr>"

definition map_upvalue :: "ptr \<Rightarrow> ptr \<Rightarrow> nat \<Rightarrow> upvalue_cache \<Rightarrow> upvalue_cache" where
  "map_upvalue key f number c = c\<lparr>upvalue_map := (key, f, number) # upvalue_map c\<rparr>"

fun copy_value :: "svalue \<Rightarrow> failure + svalue" where
  "copy_value (SFunction f) = Inl Assertion"
| "copy_value (STable t) = Inl Assertion"
| "copy_value v = Inr v"

definition map_collector :: "ptr \<Rightarrow> ptr \<Rightarrow> svalue \<Rightarrow> upvalue_cache \<Rightarrow> failure + upvalue_cache" where
  "map_collector key obj value_key c =
     rbind (copy_value value_key) (\<lambda>k. Inr (c\<lparr>collector_map := (key, obj, k) # collector_map c\<rparr>))"

definition lookup_object :: "upvalue_cache \<Rightarrow> ptr \<Rightarrow> ptr option" where
  "lookup_object c key = map_of (object_map c) key"

definition lookup_upvalue :: "upvalue_cache \<Rightarrow> ptr \<Rightarrow> (ptr \<times> nat) option" where
  "lookup_upvalue c key = map_of (upvalue_map c) key"

definition cache_object :: "'h lua \<Rightarrow> lval \<Rightarrow> 'h \<times> upvalue_cache \<Rightarrow> 'h \<times> upvalue_cache" where
  "cache_object L v st = (case st of (h, c) \<Rightarrow>
     (l_rawset L (object_tbl_idx c) (LLightuserdata (lua_topointer v)) v h, c))"

definition fetch_object :: "'h lua \<Rightarrow> ptr \<Rightarrow> 'h \<times> upvalue_cache \<Rightarrow> lval" where
  "fetch_object L obj st = (case st of (h, c) \<Rightarrow> l_rawget L h (object_tbl_idx c) (LLightuserdata obj))"

definition lookup_and_fetch_object :: "'h lua \<Rightarrow> ptr \<Rightarrow> 'h \<times> upvalue_cache \<Rightarrow> lval option" where
  "lookup_and_fetch_object L key st = map_option (\<lambda>obj. fetch_object L obj st) (lookup_object (snd st) key)"

text \<open>The new object, put into the table of objects and mapped.\<close>

definition new_object :: "'h lua \<Rightarrow> ptr \<Rightarrow> lval \<Rightarrow> 'h \<times> upvalue_cache \<Rightarrow> 'h \<times> upvalue_cache" where
  "new_object L key v st = (case cache_object L v st of (h, c) \<Rightarrow> (h, map_object key (lua_topointer v) c))"

definition load_function_bytecode :: "'h lua \<Rightarrow> byte list \<Rightarrow> 'h \<Rightarrow> failure + (ptr \<times> 'h)" where
  "load_function_bytecode L code h = (case l_loadbuffer L code h of None \<Rightarrow> Inl Fatal_error | Some r \<Rightarrow> Inr r)"

text \<open>\<open>lua_upvaluejoin\<close> on the fetched object; it is a function unless the cache was filled by other code.\<close>

definition join_upvalue :: "'h lua \<Rightarrow> ptr \<Rightarrow> nat \<Rightarrow> ptr \<times> nat \<Rightarrow> 'h \<times> upvalue_cache \<Rightarrow> failure + ('h \<times> upvalue_cache)" where
  "join_upvalue L f number m st = (case fetch_object L (fst m) st of
     LFunction g \<Rightarrow> Inr (l_upvaluejoin L f number g (snd m) (fst st), snd st)
   | _ \<Rightarrow> Inl Assertion)"

definition collect_upvalue :: "ptr \<Rightarrow> nat \<Rightarrow> ptr option \<Rightarrow> 'h \<times> upvalue_cache \<Rightarrow> failure + ('h \<times> upvalue_cache)" where
  "collect_upvalue f number coll st = (case coll of
     None \<Rightarrow> Inr st
   | Some k \<Rightarrow> rbind (map_collector k f (SNumber (Fin (real number))) (snd st)) (\<lambda>c. Inr (fst st, c)))"

definition collect_entry :: "ptr \<Rightarrow> svalue \<Rightarrow> ptr option \<Rightarrow> 'h \<times> upvalue_cache \<Rightarrow> failure + ('h \<times> upvalue_cache)" where
  "collect_entry r key coll st = (case coll of
     None \<Rightarrow> Inr st
   | Some k \<Rightarrow> rbind (map_collector k r key (snd st)) (\<lambda>c. Inr (fst st, c)))"

fun push_object :: "'h lua \<Rightarrow> svalue \<Rightarrow> 'h \<times> upvalue_cache \<Rightarrow> failure + (lval \<times> 'h \<times> upvalue_cache)"
  and push_entries :: "'h lua \<Rightarrow> ptr \<Rightarrow> stable_entry list \<Rightarrow> 'h \<times> upvalue_cache \<Rightarrow> failure + ('h \<times> upvalue_cache)"
  and set_shared_upvalues :: "'h lua \<Rightarrow> ptr \<Rightarrow> supvalue list \<Rightarrow> 'h \<times> upvalue_cache \<Rightarrow> failure + ('h \<times> upvalue_cache)" where
  "push_object L (SBoolean b) st = Inr (LBoolean b, st)"
| "push_object L (SNumber x) st = Inr (LNumber x, st)"
| "push_object L (SString s) st = Inr (LString s, st)"
| "push_object L (SFunction (Sfunction fid code us)) st = (case lookup_and_fetch_object L fid st of
     Some v \<Rightarrow> Inr (v, st)
   | None \<Rightarrow> rbind (load_function_bytecode L code (fst st)) (\<lambda>(f, h).
       rbind (set_shared_upvalues L f us (new_object L fid (LFunction f) (h, snd st))) (\<lambda>st.
         Inr (LFunction f, st))))"
| "push_object L (STable (Stable tid es)) st = (case lookup_and_fetch_object L tid st of
     Some v \<Rightarrow> Inr (v, st)
   | None \<Rightarrow> (case l_newtable L (fst st) of (r, h) \<Rightarrow>
       rbind (push_entries L r es (new_object L tid (LTable r) (h, snd st))) (\<lambda>st. Inr (LTable r, st))))"
| "push_entries L r [] st = Inr st"
| "push_entries L r (Sentry key val coll # es) st =
     rbind (push_object L key st) (\<lambda>(k, st).
     rbind (push_object L val st) (\<lambda>(v, st).
     rbind (collect_entry r key coll (l_rawset L r k v (fst st), snd st)) (\<lambda>st.
       push_entries L r es st)))"
| "set_shared_upvalues L f [] st = Inr st"
| "set_shared_upvalues L f (Supvalue uid number val coll # us) st =
     rbind (case lookup_upvalue (snd st) uid of
         Some m \<Rightarrow> join_upvalue L f number m st
       | None \<Rightarrow> rbind (push_object L val st) (\<lambda>(v, st). case l_setupvalue L f number v (fst st) of
             None \<Rightarrow> Inl Assertion
           | Some h \<Rightarrow> collect_upvalue f number coll (h, map_upvalue uid f number (snd st)))) (\<lambda>st.
       set_shared_upvalues L f us st)"

definition push_function :: "'h lua \<Rightarrow> sfunction \<Rightarrow> 'h \<times> upvalue_cache \<Rightarrow> failure + (ptr \<times> 'h \<times> upvalue_cache)" where
  "push_function L sf st =
     rbind (load_function_bytecode L (sf_code sf) (fst st)) (\<lambda>(f, h).
       rbind (set_shared_upvalues L f (sf_upvalues sf) (new_object L (sf_id sf) (LFunction f) (h, snd st))) (\<lambda>st.
         Inr (f, st)))"

lemma push_object_function:
  "push_object L (SFunction sf) st = (case lookup_and_fetch_object L (sf_id sf) st of
     Some v \<Rightarrow> Inr (v, st)
   | None \<Rightarrow> rbind (push_function L sf st) (\<lambda>(f, st). Inr (LFunction f, st)))"
  by (cases sf)
    (auto simp: push_function_def rbind_def split: option.splits sum.splits prod.splits)

definition deserialize_function :: "'h lua \<Rightarrow> ptr \<Rightarrow> sfunction \<Rightarrow> 'h \<times> upvalue_cache \<Rightarrow> failure + (ptr \<times> 'h \<times> upvalue_cache)" where
  "deserialize_function L cache_idx sf st = push_function L sf (fst st, (snd st)\<lparr>object_tbl_idx := cache_idx\<rparr>)"

definition serialize_value :: "'h lua \<Rightarrow> 'h \<Rightarrow> nat \<Rightarrow> lval \<Rightarrow> failure + svalue" where
  "serialize_value L h d v = serialize_object L h d v"

definition deserialize_value :: "'h lua \<Rightarrow> ptr \<Rightarrow> svalue \<Rightarrow> 'h \<times> upvalue_cache \<Rightarrow> failure + (lval \<times> 'h \<times> upvalue_cache)" where
  "deserialize_value L cache_idx sv st = push_object L sv (fst st, (snd st)\<lparr>object_tbl_idx := cache_idx\<rparr>)"

section \<open>Collected values\<close>

fun number_of :: "svalue \<Rightarrow> nat" where
  "number_of (SNumber (Fin x)) = nat \<lfloor>x\<rfloor>"
| "number_of _ = 0"

definition push_collected_value :: "'h lua \<Rightarrow> ptr \<Rightarrow> ptr \<Rightarrow> 'h \<times> upvalue_cache \<Rightarrow> failure + lval" where
  "push_collected_value L cache_idx collector_id st =
     (let st = (fst st, (snd st)\<lparr>object_tbl_idx := cache_idx\<rparr>) in
      case map_of (collector_map (snd st)) collector_id of
        None \<Rightarrow> Inr LNil
      | Some (obj, key) \<Rightarrow> (case fetch_object L obj st of
          LFunction f \<Rightarrow>
            if 1 \<le> number_of key \<and> number_of key \<le> length (l_upvalues L (fst st) f)
            then Inr (snd (l_upvalues L (fst st) f ! (number_of key - 1))) else Inl Assertion
        | LTable r \<Rightarrow> rbind (push_object L key st) (\<lambda>(k, st). Inr (l_rawget L (fst st) r k))
        | _ \<Rightarrow> Inl Fatal_error))"

definition get_collected_value :: "'h lua \<Rightarrow> nat \<Rightarrow> ptr \<Rightarrow> ptr \<Rightarrow> 'h \<times> upvalue_cache \<Rightarrow> failure + svalue" where
  "get_collected_value L d registry collector_id st =
     rbind (push_collected_value L registry collector_id st) (\<lambda>v. serialize_value L (fst st) d v)"

definition add_collected_value :: "'h lua \<Rightarrow> ptr \<Rightarrow> ptr \<Rightarrow> ptr \<Rightarrow> svalue \<Rightarrow> 'h \<times> upvalue_cache \<Rightarrow> failure + ('h \<times> upvalue_cache)" where
  "add_collected_value L registry cache_idx collector_id sv st = (case l_rawget L (fst st) registry (LLightuserdata collector_id) of
     LTable r \<Rightarrow>
       (let n = l_objlen L (fst st) r in
        rbind (deserialize_value L cache_idx sv st) (\<lambda>(v, st).
          Inr (l_rawset L r (LNumber (Fin (real (n + 1)))) v (fst st), snd st)))
   | _ \<Rightarrow> Inl Assertion)"

fun pull_values :: "'h lua \<Rightarrow> nat \<Rightarrow> ptr \<Rightarrow> 'h \<times> upvalue_cache \<Rightarrow> ptr \<Rightarrow> ptr \<Rightarrow> ptr list \<Rightarrow> 'h \<times> upvalue_cache \<Rightarrow>
    failure + ('h \<times> upvalue_cache)" where
  "pull_values L d slave_registry slave registry cache_idx [] st = Inr st"
| "pull_values L d slave_registry slave registry cache_idx (k # ks) st =
     rbind (get_collected_value L d slave_registry k slave) (\<lambda>sv.
     rbind (add_collected_value L registry cache_idx k sv st) (\<lambda>st.
       pull_values L d slave_registry slave registry cache_idx ks st))"

definition pull_data :: "'h lua \<Rightarrow> nat \<Rightarrow> ptr \<Rightarrow> 'h \<times> upvalue_cache \<Rightarrow> ptr \<Rightarrow> ptr list \<Rightarrow> 'h \<Rightarrow> failure + 'h" where
  "pull_data L d slave_registry slave registry collectors h = (case l_newtable L h of (cache_idx, h) \<Rightarrow>
     rbind (pull_values L d slave_registry slave registry cache_idx collectors (h, upvalue_cache_new)) (\<lambda>(h, c). Inr h))"

text \<open>
  \<open>run()\<close> of a script: the collectors are emptied, the workers run, and what they collected is pulled from one
  after the other (\<open>empty_collectors\<close> of \<open>script.c\<close>, \<open>pull_script_data\<close> of \<open>thread.c\<close>). A collector is identified by its table.
\<close>

definition register_collector :: "'h lua \<Rightarrow> ptr \<Rightarrow> ptr \<Rightarrow> ptr list \<times> 'h \<Rightarrow> ptr list \<times> 'h" where
  "register_collector L registry r st = (case st of (ks, h) \<Rightarrow>
     (lua_topointer (LTable r) # ks, l_rawset L registry (LLightuserdata (lua_topointer (LTable r))) (LTable r) h))"

fun empty_collectors :: "'h lua \<Rightarrow> ptr \<Rightarrow> ptr list \<Rightarrow> 'h \<Rightarrow> failure + 'h" where
  "empty_collectors L registry [] h = Inr h"
| "empty_collectors L registry (k # ks) h = (case l_rawget L h registry (LLightuserdata k) of
     LTable r \<Rightarrow>
       if l_objlen L h r = 1 then empty_collectors L registry ks (l_rawset L r (LNumber (Fin 1)) LNil h) else Inl Assertion
   | _ \<Rightarrow> Inl Assertion)"

fun pull_workers :: "'h lua \<Rightarrow> nat \<Rightarrow> ptr \<Rightarrow> ptr list \<Rightarrow> (ptr \<times> 'h \<times> upvalue_cache) list \<Rightarrow> 'h \<Rightarrow> failure + 'h" where
  "pull_workers L d registry collectors [] h = Inr h"
| "pull_workers L d registry collectors ((slave_registry, slave) # workers) h =
     rbind (pull_data L d slave_registry slave registry collectors h) (pull_workers L d registry collectors workers)"

section \<open>When serialising returns\<close>

abbreviation unwrapped :: "'h lua \<Rightarrow> 'h \<Rightarrow> lval \<Rightarrow> lval" where
  "unwrapped L h v \<equiv> snd (unwrap_collector_maybe L h v)"

fun children :: "'h lua \<Rightarrow> 'h \<Rightarrow> lval \<Rightarrow> lval list" where
  "children L h (LTable r) = concat (map (\<lambda>(k, x). [unwrapped L h x, k]) (l_next L h r))"
| "children L h (LFunction f) = map (\<lambda>(u, x). unwrapped L h x) (l_upvalues L h f)"
| "children L h _ = []"

inductive reaches :: "'h lua \<Rightarrow> 'h \<Rightarrow> lval \<Rightarrow> lval \<Rightarrow> bool" for L h where
  reaches_refl [simp, intro]: "reaches L h v v"
| reaches_step: "reaches L h v x \<Longrightarrow> y \<in> set (children L h x) \<Longrightarrow> reaches L h v y"

text \<open>The values \<open>serialize_object\<close> knows; a function needs a dump.\<close>

fun supported :: "'h lua \<Rightarrow> 'h \<Rightarrow> lval \<Rightarrow> bool" where
  "supported L h (LFunction f) = (l_dump L h f \<noteq> None \<and> l_dump L h f \<noteq> Some [])"
| "supported L h v = (case v of LBoolean _ \<Rightarrow> True | LNumber _ \<Rightarrow> True | LString _ \<Rightarrow> True | LTable _ \<Rightarrow> True | _ \<Rightarrow> False)"

definition returns :: "'h lua \<Rightarrow> 'h \<Rightarrow> nat \<Rightarrow> lval \<Rightarrow> bool" where
  "returns L h d v \<longleftrightarrow> (\<exists>sv. serialize_object L h d v = Inr sv)"

lemma map_res_returns: "(\<exists>ys. map_res f xs = Inr ys) \<longleftrightarrow> (\<forall>x\<in>set xs. \<exists>y. f x = Inr y)"
  by (induction xs) (auto simp: rbind_eq_Inr)

lemma map_res_mono:
  "map_res f xs = Inr ys \<Longrightarrow> (\<And>x y. x \<in> set xs \<Longrightarrow> f x = Inr y \<Longrightarrow> g x = Inr y) \<Longrightarrow> map_res g xs = Inr ys"
  by (induction xs arbitrary: ys) (auto simp: rbind_eq_Inr)

lemma map_res_nth: "map_res f xs = Inr ys \<Longrightarrow> length ys = length xs \<and> (\<forall>i<length xs. f (xs ! i) = Inr (ys ! i))"
proof (induction xs arbitrary: ys)
  case (Cons x xs)
  then obtain y zs where "f x = Inr y" "map_res f xs = Inr zs" "ys = y # zs" by (auto simp: rbind_eq_Inr)
  with Cons.IH [of zs] show ?case by (auto simp: less_Suc_eq_0_disj)
qed simp

lemma snd_set_enumerate: "snd ` set (enumerate n xs) = set xs"
  by (metis map_snd_enumerate set_map)

lemma serialize_upvalue_returns:
  "(\<exists>y. serialize_upvalue ser L h uid i x = Inr y) \<longleftrightarrow> (\<exists>sx. ser (unwrapped L h x) = Inr sx)"
  by (auto simp: serialize_upvalue_def rbind_eq_Inr split: prod.splits)

lemma returns_Suc: "returns L h (Suc d) v \<longleftrightarrow> supported L h v \<and> (\<forall>y\<in>set (children L h v). returns L h d y)"
proof (cases v)
  case (LTable r)
  have "returns L h (Suc d) v \<longleftrightarrow> (\<forall>x\<in>set (l_next L h r). \<exists>y. (case x of (k, x) \<Rightarrow> case unwrap_collector_maybe L h x of (coll, x) \<Rightarrow>
      rbind (serialize_object L h d x) (\<lambda>sx. rbind (serialize_object L h d k) (\<lambda>sk. Inr (Sentry sk sx coll)))) = Inr y)"
    unfolding map_res_returns [symmetric]
    by (auto simp: LTable returns_def serialize_table_def dump_table_entries_def rbind_eq_Inr)
  also have "\<dots> \<longleftrightarrow> (\<forall>(k, x)\<in>set (l_next L h r). returns L h d (unwrapped L h x) \<and> returns L h d k)"
    by (rule ball_cong [OF refl]) (auto simp: returns_def rbind_eq_Inr split: prod.splits)
  also have "\<dots> \<longleftrightarrow> (\<forall>y\<in>set (children L h v). returns L h d y)"
    by (auto simp: LTable)
  finally show ?thesis by (simp add: LTable)
next
  case (LFunction f)
  have "(\<exists>us. serialize_upvalues (serialize_object L h d) L h f = Inr us) \<longleftrightarrow>
      (\<forall>x\<in>set (enumerate 1 (l_upvalues L h f)). \<exists>y. (case x of (i, uid, x) \<Rightarrow> serialize_upvalue (serialize_object L h d) L h uid i x) = Inr y)"
    unfolding map_res_returns [symmetric] by (auto simp: serialize_upvalues_def rbind_eq_Inr)
  also have "\<dots> \<longleftrightarrow> (\<forall>x\<in>snd ` set (enumerate 1 (l_upvalues L h f)). \<exists>sx. serialize_object L h d (unwrapped L h (snd x)) = Inr sx)"
    by (simp add: serialize_upvalue_returns case_prod_beta)
  also have "\<dots> \<longleftrightarrow> (\<forall>y\<in>set (children L h v). returns L h d y)"
    unfolding snd_set_enumerate by (auto simp: LFunction returns_def)
  finally show ?thesis
    by (auto simp: LFunction returns_def serialize_function_def dump_function_bytecode_def rbind_eq_Inr split: option.splits)
qed (simp_all add: returns_def)

lemma returns_0 [simp]: "\<not> returns L h 0 v"
  by (simp add: returns_def)

lemma serialize_Suc: "serialize_object L h d v = Inr sv \<Longrightarrow> serialize_object L h (Suc d) v = Inr sv"
proof (induction d arbitrary: v sv)
  case (Suc d)
  show ?case
  proof (cases v)
    case (LTable r)
    from Suc.prems obtain es where es: "map_res (\<lambda>(k, x). case unwrap_collector_maybe L h x of (coll, x) \<Rightarrow>
         rbind (serialize_object L h d x) (\<lambda>sx. rbind (serialize_object L h d k) (\<lambda>sk. Inr (Sentry sk sx coll)))) (l_next L h r) = Inr es"
      "sv = STable (Stable r (rev es))"
      by (auto simp: LTable serialize_table_def dump_table_entries_def rbind_eq_Inr)
    have "map_res (\<lambda>(k, x). case unwrap_collector_maybe L h x of (coll, x) \<Rightarrow>
         rbind (serialize_object L h (Suc d) x) (\<lambda>sx. rbind (serialize_object L h (Suc d) k) (\<lambda>sk. Inr (Sentry sk sx coll)))) (l_next L h r) = Inr es"
      by (rule map_res_mono [OF es(1)]) (auto simp: rbind_eq_Inr simp del: serialize_object.simps dest: Suc.IH split: prod.splits)
    then show ?thesis
      unfolding LTable serialize_object.simps(2) [of L h "Suc d"] lval.case serialize_table_def dump_table_entries_def es(2) by simp
  next
    case (LFunction f)
    from Suc.prems obtain code us where us: "dump_function_bytecode L h f = Inr code"
      "map_res (\<lambda>(i, uid, x). serialize_upvalue (serialize_object L h d) L h uid i x) (enumerate 1 (l_upvalues L h f)) = Inr us"
      "sv = SFunction (Sfunction f code (rev us))"
      by (auto simp: LFunction serialize_function_def serialize_upvalues_def rbind_eq_Inr)
    have "map_res (\<lambda>(i, uid, x). serialize_upvalue (serialize_object L h (Suc d)) L h uid i x) (enumerate 1 (l_upvalues L h f)) = Inr us"
      by (rule map_res_mono [OF us(2)])
        (auto simp: serialize_upvalue_def rbind_eq_Inr simp del: serialize_object.simps dest: Suc.IH split: prod.splits)
    then show ?thesis
      unfolding LFunction serialize_object.simps(2) [of L h "Suc d"] lval.case serialize_function_def serialize_upvalues_def us(3)
      using us(1) by simp
  qed (use Suc.prems in simp_all)
qed simp

lemma serialize_mono: "serialize_object L h d v = Inr sv \<Longrightarrow> d \<le> e \<Longrightarrow> serialize_object L h e v = Inr sv"
proof (rotate_tac 1, induction rule: dec_induct)
  case (step e)
  then show ?case by (intro serialize_Suc)
qed

lemma returns_mono: "returns L h d v \<Longrightarrow> d \<le> e \<Longrightarrow> returns L h e v"
  unfolding returns_def by (elim exE) (rule exI, rule serialize_mono)

lemma serialize_functional:
  assumes "serialize_object L h d v = Inr sv" "serialize_object L h e v = Inr sv'"
  shows "sv = sv'"
proof -
  have "Inr sv = (Inr sv' :: failure + svalue)"
    using serialize_mono [OF assms(1), of "max d e"] serialize_mono [OF assms(2), of "max d e"]
    by (metis max.cobounded1 max.cobounded2)
  then show ?thesis by simp
qed

lemma reaches_returns: "reaches L h v x \<Longrightarrow> returns L h d v \<Longrightarrow> returns L h d x"
proof (induction rule: reaches.induct)
  case (reaches_step v x y)
  then have "returns L h d x" by simp
  then obtain e where "d = Suc e" "returns L h (Suc e) x" by (cases d) auto
  with reaches_step.hyps(2) returns_mono [of L h e y d] show ?case by (auto simp: returns_Suc)
qed

lemma reaches_supported: "reaches L h v x \<Longrightarrow> returns L h d v \<Longrightarrow> supported L h x"
  using reaches_returns [of L h v x d] returns_Suc [of L h "d - 1" x] by (cases d) auto

definition least_depth :: "'h lua \<Rightarrow> 'h \<Rightarrow> lval \<Rightarrow> nat" where
  "least_depth L h v = (LEAST d. returns L h d v)"

lemma least_depth: "returns L h d v \<Longrightarrow> returns L h (least_depth L h v) v \<and> least_depth L h v \<le> d"
  unfolding least_depth_def by (auto intro: LeastI Least_le)

lemma least_depth_child:
  assumes "returns L h d x" "y \<in> set (children L h x)"
  shows "least_depth L h y < least_depth L h x"
proof -
  from least_depth [OF assms(1)] obtain e where "least_depth L h x = Suc e" "returns L h (Suc e) x"
    by (cases "least_depth L h x") auto
  with assms(2) least_depth [of L h e y] show ?thesis by (auto simp: returns_Suc)
qed

end
