(* ===== verification/LuaLaws.thy ===== *)
theory LuaLaws
  imports Serialize
begin

text \<open>
  What \<open>serialize.c\<close> relies on in the interpreter, as laws of its interface; what a copy of a value is; and the
  invariant of deserialising, with a lemma for each step of the code: a new object, an entry, an upvalue
  that is set or shared, the end of a table and of a function.
\<close>

section \<open>The laws of the interface\<close>

text \<open>
  \<open>ok\<close> holds of the states an interpreter can be in. What is read exists, a pointer is not both a table's and
  a function's, keys are neither nil nor NaN and differ, and upvalues with the same identifier are the same.
\<close>

fun exists_in :: "'h lua \<Rightarrow> 'h \<Rightarrow> lval \<Rightarrow> bool" where
  "exists_in L h (LTable r) = (LTable r \<in> l_live L h)"
| "exists_in L h (LFunction f) = (LFunction f \<in> l_live L h)"
| "exists_in L h v = True"

definition upvalue_ids :: "'h lua \<Rightarrow> 'h \<Rightarrow> ptr \<Rightarrow> ptr set" where
  "upvalue_ids L h f = fst ` set (l_upvalues L h f)"

definition reading_laws :: "('h \<Rightarrow> bool) \<Rightarrow> 'h lua \<Rightarrow> bool" where
  "reading_laws ok L \<longleftrightarrow> (\<forall>h. ok h \<longrightarrow>
     (\<forall>r. LTable r \<in> l_live L h \<longrightarrow> LFunction r \<notin> l_live L h \<and> distinct (map fst (l_next L h r))
        \<and> (\<forall>(k, x)\<in>set (l_next L h r). k \<noteq> LNil \<and> k \<noteq> LNumber NaN \<and> exists_in L h k \<and> exists_in L h x)
        \<and> (\<forall>k. exists_in L h (l_rawget L h r k)))
     \<and> (\<forall>f. LFunction f \<in> l_live L h \<longrightarrow> (\<forall>(u, x)\<in>set (l_upvalues L h f). exists_in L h x))
     \<and> (\<forall>f g u x y. LFunction f \<in> l_live L h \<longrightarrow> LFunction g \<in> l_live L h \<longrightarrow>
          (u, x) \<in> set (l_upvalues L h f) \<longrightarrow> (u, y) \<in> set (l_upvalues L h g) \<longrightarrow> x = y))"

text \<open>Objects other than the given tables and functions are as they were.\<close>

definition unchanged :: "'h lua \<Rightarrow> ptr set \<Rightarrow> ptr set \<Rightarrow> 'h \<Rightarrow> 'h \<Rightarrow> bool" where
  "unchanged L T F h h' \<longleftrightarrow>
     (\<forall>r k. LTable r \<in> l_live L h \<longrightarrow> r \<notin> T \<longrightarrow> l_rawget L h' r k = l_rawget L h r k)
     \<and> (\<forall>f. LFunction f \<in> l_live L h \<longrightarrow> f \<notin> F \<longrightarrow> l_upvalues L h' f = l_upvalues L h f)
     \<and> (\<forall>f. LFunction f \<in> l_live L h \<longrightarrow> l_code L h' f = l_code L h f)
     \<and> (\<forall>r. LTable r \<in> l_live L h \<longrightarrow> r \<notin> T \<longrightarrow> l_objlen L h' r = l_objlen L h r)"

definition created :: "('h \<Rightarrow> bool) \<Rightarrow> 'h lua \<Rightarrow> lval \<Rightarrow> 'h \<Rightarrow> 'h \<Rightarrow> bool" where
  "created ok L v h h' \<longleftrightarrow> ok h' \<and> LTable (lua_topointer v) \<notin> l_live L h \<and> LFunction (lua_topointer v) \<notin> l_live L h
     \<and> l_live L h' = insert v (l_live L h) \<and> unchanged L {} {} h h'"

definition table_laws :: "('h \<Rightarrow> bool) \<Rightarrow> 'h lua \<Rightarrow> bool" where
  "table_laws ok L \<longleftrightarrow>
     (\<forall>h r h'. ok h \<longrightarrow> l_newtable L h = (r, h') \<longrightarrow> created ok L (LTable r) h h' \<and> (\<forall>k. l_rawget L h' r k = LNil))
     \<and> (\<forall>h r k v. ok h \<longrightarrow> LTable r \<in> l_live L h \<longrightarrow> k \<noteq> LNil \<longrightarrow> k \<noteq> LNumber NaN \<longrightarrow> exists_in L h k \<longrightarrow> exists_in L h v \<longrightarrow>
          ok (l_rawset L r k v h) \<and> l_live L (l_rawset L r k v h) = l_live L h \<and> unchanged L {r} {} h (l_rawset L r k v h)
          \<and> (\<forall>j. l_rawget L (l_rawset L r k v h) r j = (if j = k then v else l_rawget L h r j)))"

text \<open>
  A function that is loaded from what \<open>lua_dump\<close> wrote is equivalent to the dumped one, with fresh upvalues.
  Setting an upvalue sets it in all functions that share it, and \<open>lua_upvaluejoin\<close> shares one.
\<close>

definition function_laws :: "('h \<Rightarrow> bool) \<Rightarrow> 'h lua \<Rightarrow> bool" where
  "function_laws ok L \<longleftrightarrow>
     (\<forall>h f code h2. ok h \<longrightarrow> LFunction f \<in> l_live L h \<longrightarrow> l_dump L h f = Some code \<longrightarrow> ok h2 \<longrightarrow>
        (\<exists>g h2'. l_loadbuffer L code h2 = Some (g, h2') \<and> l_code L h2' g = l_code L h f
           \<and> length (l_upvalues L h2' g) = length (l_upvalues L h f)))
     \<and> (\<forall>h code g h'. ok h \<longrightarrow> l_loadbuffer L code h = Some (g, h') \<longrightarrow> created ok L (LFunction g) h h'
          \<and> distinct (map fst (l_upvalues L h' g))
          \<and> (\<forall>f. LFunction f \<in> l_live L h \<longrightarrow> upvalue_ids L h f \<inter> upvalue_ids L h' g = {}))
     \<and> (\<forall>h f n v. ok h \<longrightarrow> LFunction f \<in> l_live L h \<longrightarrow> 1 \<le> n \<longrightarrow> n \<le> length (l_upvalues L h f) \<longrightarrow> exists_in L h v \<longrightarrow>
          (\<exists>h'. l_setupvalue L f n v h = Some h' \<and> ok h' \<and> l_live L h' = l_live L h \<and> unchanged L {} UNIV h h'
            \<and> (\<forall>g. LFunction g \<in> l_live L h \<longrightarrow> l_upvalues L h' g =
                 map (\<lambda>(u, x). (u, if u = fst (l_upvalues L h f ! (n - 1)) then v else x)) (l_upvalues L h g))))
     \<and> (\<forall>h f n g m. ok h \<longrightarrow> LFunction f \<in> l_live L h \<longrightarrow> LFunction g \<in> l_live L h \<longrightarrow> 1 \<le> n \<longrightarrow> n \<le> length (l_upvalues L h f) \<longrightarrow>
          1 \<le> m \<longrightarrow> m \<le> length (l_upvalues L h g) \<longrightarrow>
          ok (l_upvaluejoin L f n g m h) \<and> l_live L (l_upvaluejoin L f n g m h) = l_live L h
          \<and> unchanged L {} {f} h (l_upvaluejoin L f n g m h)
          \<and> l_upvalues L (l_upvaluejoin L f n g m h) f = (l_upvalues L h f)[n - 1 := l_upvalues L h g ! (m - 1)])"

text \<open>The length of a table whose elements at positive numbers are a sequence.\<close>

definition length_law :: "('h \<Rightarrow> bool) \<Rightarrow> 'h lua \<Rightarrow> bool" where
  "length_law ok L \<longleftrightarrow> (\<forall>h r n. ok h \<longrightarrow> LTable r \<in> l_live L h \<longrightarrow>
     (\<forall>i\<ge>1. (l_rawget L h r (LNumber (Fin (real i))) = LNil) = (n < i)) \<longrightarrow> l_objlen L h r = n)"

definition lua_laws :: "('h \<Rightarrow> bool) \<Rightarrow> 'h lua \<Rightarrow> bool" where
  "lua_laws ok L \<longleftrightarrow> reading_laws ok L \<and> table_laws ok L \<and> function_laws ok L"

section \<open>What a copy is\<close>

text \<open>\<open>phi\<close> maps objects to their copies; other values are copied as they are.\<close>

fun same :: "(ptr \<Rightarrow> ptr option) \<Rightarrow> lval \<Rightarrow> lval \<Rightarrow> bool" where
  "same phi (LTable r) v = (\<exists>r'. phi r = Some r' \<and> v = LTable r')"
| "same phi (LFunction f) v = (\<exists>f'. phi f = Some f' \<and> v = LFunction f')"
| "same phi u v = (v = u)"

definition injective :: "('a \<Rightarrow> 'b option) \<Rightarrow> bool" where
  "injective phi \<longleftrightarrow> (\<forall>a b c. phi a = Some c \<longrightarrow> phi b = Some c \<longrightarrow> a = b)"

lemma injective_upd: "injective f \<Longrightarrow> (\<And>a. f a \<noteq> Some b) \<Longrightarrow> injective (f(u \<mapsto> b))"
  unfolding injective_def by auto

lemma map_le_Some: "f \<subseteq>\<^sub>m g \<Longrightarrow> f a = Some b \<Longrightarrow> g a = Some b"
  by (auto simp: map_le_def dom_def)

lemma same_mono: "same phi u v \<Longrightarrow> phi \<subseteq>\<^sub>m phi' \<Longrightarrow> same phi' u v"
  by (cases u) (auto simp: map_le_def dom_def)

lemma same_injective: "injective phi \<Longrightarrow> same phi u w \<Longrightarrow> same phi v w \<Longrightarrow> u = v"
  by (cases u; cases v) (auto simp: injective_def)

lemma same_not_nil: "same phi u v \<Longrightarrow> u \<noteq> LNil \<Longrightarrow> v \<noteq> LNil"
  by (cases u) auto

lemma same_not_nan: "same phi u v \<Longrightarrow> u \<noteq> LNumber NaN \<Longrightarrow> v \<noteq> LNumber NaN"
  by (cases u) auto

text \<open>
  A table is copied when its entries are, taken out of their collectors, and it has no others; a function
  when the copy is equivalent and shares upvalues exactly where the original does (\<open>psi\<close> maps
  identifiers of upvalues).
\<close>

definition entries_copied :: "'h lua \<Rightarrow> 'h \<Rightarrow> (ptr \<Rightarrow> ptr option) \<Rightarrow> 'h \<Rightarrow> (lval \<times> lval) set \<Rightarrow> ptr \<Rightarrow> bool" where
  "entries_copied L h1 phi h D r' \<longleftrightarrow>
     (\<forall>(k, x)\<in>D. \<exists>k'. same phi k k' \<and> same phi (unwrapped L h1 x) (l_rawget L h r' k'))
     \<and> (\<forall>k'. l_rawget L h r' k' \<noteq> LNil \<longrightarrow> (\<exists>(k, x)\<in>D. same phi k k'))"

definition table_copied :: "'h lua \<Rightarrow> 'h \<Rightarrow> (ptr \<Rightarrow> ptr option) \<Rightarrow> 'h \<Rightarrow> ptr \<Rightarrow> ptr \<Rightarrow> bool" where
  "table_copied L h1 phi h r r' \<longleftrightarrow> entries_copied L h1 phi h (set (l_next L h1 r)) r'"

definition function_copied :: "'h lua \<Rightarrow> 'h \<Rightarrow> (ptr \<Rightarrow> ptr option) \<Rightarrow> (ptr \<Rightarrow> ptr option) \<Rightarrow> 'h \<Rightarrow> ptr \<Rightarrow> ptr \<Rightarrow> bool" where
  "function_copied L h1 phi psi h f f' \<longleftrightarrow> l_code L h f' = l_code L h1 f
     \<and> list_all2 (\<lambda>(u, x) (u', x'). psi u = Some u' \<and> same phi (unwrapped L h1 x) x') (l_upvalues L h1 f) (l_upvalues L h f')"

section \<open>What the code keeps true\<close>

abbreviation phi_of :: "upvalue_cache \<Rightarrow> ptr \<Rightarrow> ptr option" where
  "phi_of c \<equiv> map_of (object_map c)"

abbreviation psi_of :: "upvalue_cache \<Rightarrow> ptr \<Rightarrow> (ptr \<times> nat) option" where
  "psi_of c \<equiv> map_of (upvalue_map c)"

definition cell :: "'h lua \<Rightarrow> 'h \<Rightarrow> ptr \<times> nat \<Rightarrow> ptr \<times> lval" where
  "cell L h m = l_upvalues L h (fst m) ! (snd m - 1)"

text \<open>
  Each mapped object exists and can be fetched; each mapped upvalue is that of a mapped function, has the
  value of its original and is not owned. \<open>P\<close> are the upvalues not set yet, each owned by the one
  function that has it. Objects outside \<open>Q\<close>, those still being filled, are copied.
\<close>

definition objects_ok :: "'h lua \<Rightarrow> 'h \<Rightarrow> 'h \<Rightarrow> upvalue_cache \<Rightarrow> bool" where
  "objects_ok L h1 h c \<longleftrightarrow> injective (phi_of c) \<and> (\<forall>r r'. phi_of c r = Some r' \<longrightarrow> r' \<noteq> object_tbl_idx c \<and>
     (LTable r \<in> l_live L h1 \<and> LTable r' \<in> l_live L h \<and> l_rawget L h (object_tbl_idx c) (LLightuserdata r') = LTable r'
      \<or> LFunction r \<in> l_live L h1 \<and> LFunction r' \<in> l_live L h \<and> l_rawget L h (object_tbl_idx c) (LLightuserdata r') = LFunction r'))"

definition cells_ok :: "'h lua \<Rightarrow> 'h \<Rightarrow> (ptr \<times> ptr) set \<Rightarrow> 'h \<Rightarrow> upvalue_cache \<Rightarrow> bool" where
  "cells_ok L h1 P h c \<longleftrightarrow>
     (\<forall>u m. psi_of c u = Some m \<longrightarrow> (\<exists>r. phi_of c r = Some (fst m) \<and> LFunction r \<in> l_live L h1)
        \<and> 1 \<le> snd m \<and> snd m \<le> length (l_upvalues L h (fst m)) \<and> fst (cell L h m) \<notin> snd ` P
        \<and> (\<exists>f x. LFunction f \<in> l_live L h1 \<and> (u, x) \<in> set (l_upvalues L h1 f)
             \<and> same (phi_of c) (unwrapped L h1 x) (snd (cell L h m))))
     \<and> injective (\<lambda>u. map_option (\<lambda>m. fst (cell L h m)) (psi_of c u))"

definition owned :: "'h lua \<Rightarrow> (ptr \<times> ptr) set \<Rightarrow> 'h \<Rightarrow> bool" where
  "owned L P h \<longleftrightarrow> (\<forall>(f, i)\<in>P. LFunction f \<in> l_live L h \<and> i \<in> upvalue_ids L h f
     \<and> (\<forall>g. LFunction g \<in> l_live L h \<longrightarrow> g \<noteq> f \<longrightarrow> i \<notin> upvalue_ids L h g))"

definition shares :: "'h lua \<Rightarrow> 'h \<Rightarrow> 'h \<Rightarrow> upvalue_cache \<Rightarrow> ptr \<Rightarrow> ptr \<Rightarrow> bool" where
  "shares L h1 h c f f' \<longleftrightarrow> l_code L h f' = l_code L h1 f
     \<and> list_all2 (\<lambda>u u'. \<exists>m. psi_of c u = Some m \<and> u' = fst (cell L h m))
         (map fst (l_upvalues L h1 f)) (map fst (l_upvalues L h f'))"

definition complete :: "'h lua \<Rightarrow> 'h \<Rightarrow> ptr set \<Rightarrow> 'h \<Rightarrow> upvalue_cache \<Rightarrow> bool" where
  "complete L h1 Q h c \<longleftrightarrow> (\<forall>r r'. phi_of c r = Some r' \<longrightarrow> r \<notin> Q \<longrightarrow>
     (LTable r \<in> l_live L h1 \<longrightarrow> table_copied L h1 (phi_of c) h r r')
     \<and> (LFunction r \<in> l_live L h1 \<longrightarrow> shares L h1 h c r r'))"

definition inv :: "('h \<Rightarrow> bool) \<Rightarrow> 'h lua \<Rightarrow> 'h \<Rightarrow> ptr set \<Rightarrow> (ptr \<times> ptr) set \<Rightarrow> 'h \<times> upvalue_cache \<Rightarrow> bool" where
  "inv ok L h1 Q P st \<longleftrightarrow> (case st of (h, c) \<Rightarrow> ok h1 \<and> ok h \<and> LTable (object_tbl_idx c) \<in> l_live L h
     \<and> objects_ok L h1 h c \<and> cells_ok L h1 P h c \<and> owned L P h \<and> complete L h1 Q h c)"

text \<open>An upvalue whose value is serialised at a depth below \<open>d\<close>.\<close>

definition shallow :: "'h lua \<Rightarrow> 'h \<Rightarrow> nat \<Rightarrow> ptr \<Rightarrow> bool" where
  "shallow L h1 d u \<longleftrightarrow> (\<exists>f x e. LFunction f \<in> l_live L h1 \<and> (u, x) \<in> set (l_upvalues L h1 f) \<and> e < d
     \<and> returns L h1 e (unwrapped L h1 x))"

text \<open>
  What a step leaves alone: the objects there were before, but for \<open>X\<close>, and the entries of the table of
  objects that stand for them; mappings are only added, of upvalues only such as are shallow.
\<close>

definition ext :: "'h lua \<Rightarrow> 'h \<Rightarrow> nat \<Rightarrow> ptr set \<Rightarrow> 'h \<times> upvalue_cache \<Rightarrow> 'h \<times> upvalue_cache \<Rightarrow> bool" where
  "ext L h1 d X st st' \<longleftrightarrow> (case (st, st') of ((h, c), (h', c')) \<Rightarrow>
     object_tbl_idx c' = object_tbl_idx c \<and> l_live L h \<subseteq> l_live L h' \<and> unchanged L (insert (object_tbl_idx c) X) X h h'
     \<and> (\<forall>k. (\<forall>p. k = LLightuserdata p \<longrightarrow> LTable p \<in> l_live L h \<or> LFunction p \<in> l_live L h) \<longrightarrow>
          l_rawget L h' (object_tbl_idx c) k = l_rawget L h (object_tbl_idx c) k)
     \<and> phi_of c \<subseteq>\<^sub>m phi_of c' \<and> psi_of c \<subseteq>\<^sub>m psi_of c'
     \<and> (\<forall>u. psi_of c' u \<noteq> None \<longrightarrow> psi_of c u \<noteq> None \<or> shallow L h1 d u)
     \<and> (\<forall>r p. phi_of c' r = Some p \<longrightarrow> phi_of c r = None \<longrightarrow> LTable p \<notin> l_live L h \<and> LFunction p \<notin> l_live L h))"

lemma ext_refl [simp]: "ext L h1 d X st st"
  by (cases st) (auto simp: ext_def unchanged_def)

lemma ext_pair: "ext L h1 d X (h, c) (h', c') \<longleftrightarrow> object_tbl_idx c' = object_tbl_idx c \<and> l_live L h \<subseteq> l_live L h'
     \<and> unchanged L (insert (object_tbl_idx c) X) X h h'
     \<and> (\<forall>k. (\<forall>p. k = LLightuserdata p \<longrightarrow> LTable p \<in> l_live L h \<or> LFunction p \<in> l_live L h) \<longrightarrow>
          l_rawget L h' (object_tbl_idx c) k = l_rawget L h (object_tbl_idx c) k)
     \<and> phi_of c \<subseteq>\<^sub>m phi_of c' \<and> psi_of c \<subseteq>\<^sub>m psi_of c'
     \<and> (\<forall>u. psi_of c' u \<noteq> None \<longrightarrow> psi_of c u \<noteq> None \<or> shallow L h1 d u)
     \<and> (\<forall>r p. phi_of c' r = Some p \<longrightarrow> phi_of c r = None \<longrightarrow> LTable p \<notin> l_live L h \<and> LFunction p \<notin> l_live L h)"
  by (simp add: ext_def)

lemma unchanged_trans:
  "unchanged L T F h h' \<Longrightarrow> unchanged L T F h' h'' \<Longrightarrow> l_live L h \<subseteq> l_live L h' \<Longrightarrow> unchanged L T F h h''"
  unfolding unchanged_def by (simp add: subset_iff)

lemma ext_trans:
  assumes "ext L h1 d X st st'" "ext L h1 d X st' st''"
  shows "ext L h1 d X st st''"
proof -
  obtain h c h' c' h'' c'' where st: "st = (h, c)" "st' = (h', c')" "st'' = (h'', c'')"
    by (cases st; cases st'; cases st'')
  note a = assms(1) [unfolded st ext_pair] and b = assms(2) [unfolded st ext_pair]
  show ?thesis
    unfolding st ext_pair
  proof (intro conjI)
    from a b show "unchanged L (insert (object_tbl_idx c) X) X h h''" by (auto intro: unchanged_trans)
    show "phi_of c \<subseteq>\<^sub>m phi_of c''" "psi_of c \<subseteq>\<^sub>m psi_of c''" using a b map_le_trans by blast+
    show "\<forall>k. (\<forall>p. k = LLightuserdata p \<longrightarrow> LTable p \<in> l_live L h \<or> LFunction p \<in> l_live L h) \<longrightarrow>
        l_rawget L h'' (object_tbl_idx c) k = l_rawget L h (object_tbl_idx c) k"
    proof (intro allI impI)
      fix k
      assume k: "\<forall>p. k = LLightuserdata p \<longrightarrow> LTable p \<in> l_live L h \<or> LFunction p \<in> l_live L h"
      with a have "\<forall>p. k = LLightuserdata p \<longrightarrow> LTable p \<in> l_live L h' \<or> LFunction p \<in> l_live L h'" by blast
      with a b k show "l_rawget L h'' (object_tbl_idx c) k = l_rawget L h (object_tbl_idx c) k" by simp
    qed
    show "\<forall>u. psi_of c'' u \<noteq> None \<longrightarrow> psi_of c u \<noteq> None \<or> shallow L h1 d u" using a b by blast
    show "\<forall>r p. phi_of c'' r = Some p \<longrightarrow> phi_of c r = None \<longrightarrow> LTable p \<notin> l_live L h \<and> LFunction p \<notin> l_live L h"
    proof (intro allI impI)
      fix r p
      assume r: "phi_of c'' r = Some p" "phi_of c r = None"
      show "LTable p \<notin> l_live L h \<and> LFunction p \<notin> l_live L h"
      proof (cases "phi_of c' r")
        case None
        with r(1) b have "LTable p \<notin> l_live L h' \<and> LFunction p \<notin> l_live L h'" by blast
        with a show ?thesis by blast
      next
        case (Some q)
        moreover have "phi_of c' \<subseteq>\<^sub>m phi_of c''" using b by blast
        ultimately have "q = p" using map_le_Some [of "phi_of c'" "phi_of c''" r q] r(1) by simp
        with Some r(2) a show ?thesis by blast
      qed
    qed
  qed (use a b in auto)
qed

lemma shallow_mono: "shallow L h1 d u \<Longrightarrow> d \<le> e \<Longrightarrow> shallow L h1 e u"
  unfolding shallow_def by (meson less_le_trans)

lemma unchanged_mono: "unchanged L T F h h' \<Longrightarrow> T \<subseteq> T' \<Longrightarrow> F \<subseteq> F' \<Longrightarrow> unchanged L T' F' h h'"
  unfolding unchanged_def by blast

lemma ext_weaken:
  assumes "ext L h1 d X st st'" "d \<le> e" "X \<subseteq> Y"
  shows "ext L h1 e Y st st'"
proof -
  obtain h c h' c' where st: "st = (h, c)" "st' = (h', c')" by (cases st; cases st')
  note a = assms(1) [unfolded st ext_pair]
  have "unchanged L (insert (object_tbl_idx c) Y) Y h h'" by (rule unchanged_mono [of L "insert (object_tbl_idx c) X" X]) (use a assms(3) in auto)
  moreover have "\<forall>u. psi_of c' u \<noteq> None \<longrightarrow> psi_of c u \<noteq> None \<or> shallow L h1 e u" 
  proof (intro allI impI)
    fix u
    assume "psi_of c' u \<noteq> None"
    with a have "psi_of c u \<noteq> None \<or> shallow L h1 d u" by blast
    then show "psi_of c u \<noteq> None \<or> shallow L h1 e u" by (elim disjE) (auto intro: shallow_mono [OF _ assms(2)])
  qed
  ultimately show ?thesis using a unfolding st ext_pair by blast
qed

lemma inv_collector [simp]: "inv ok L h1 Q P (h, c\<lparr>collector_map := x\<rparr>) = inv ok L h1 Q P (h, c)"
  by (simp add: inv_def objects_ok_def cells_ok_def complete_def shares_def)

lemma ext_collector [simp]: "ext L h1 d X st (h, c\<lparr>collector_map := x\<rparr>) = ext L h1 d X st (h, c)"
  by (cases st) (simp add: ext_def)
section \<open>Steps that leave upvalues alone\<close>

lemma one_kind:
  assumes "reading_laws ok L" "ok h"
  shows "LTable r \<in> l_live L h \<Longrightarrow> LFunction r \<notin> l_live L h" "LFunction r \<in> l_live L h \<Longrightarrow> LTable r \<notin> l_live L h"
  using assms unfolding reading_laws_def by simp_all blast+

lemma mapped_table:
  assumes "reading_laws ok L" "ok h1" "objects_ok L h1 h c" "phi_of c r = Some r'" "LTable r \<in> l_live L h1"
  shows "LTable r' \<in> l_live L h" "l_rawget L h (object_tbl_idx c) (LLightuserdata r') = LTable r'" "r' \<noteq> object_tbl_idx c"
  using assms unfolding objects_ok_def reading_laws_def by blast+

lemma mapped_function:
  assumes "reading_laws ok L" "ok h1" "objects_ok L h1 h c" "phi_of c r = Some r'" "LFunction r \<in> l_live L h1"
  shows "LFunction r' \<in> l_live L h" "l_rawget L h (object_tbl_idx c) (LLightuserdata r') = LFunction r'" "r' \<noteq> object_tbl_idx c"
  using assms unfolding objects_ok_def reading_laws_def by blast+

lemma entries_copied_mono:
  assumes "entries_copied L h1 phi h D r'" "phi \<subseteq>\<^sub>m phi'" "\<And>k. l_rawget L h' r' k = l_rawget L h r' k"
  shows "entries_copied L h1 phi' h' D r'"
  using assms(1) same_mono [OF _ assms(2)] unfolding entries_copied_def assms(3) by (fastforce split: prod.splits)

lemma table_copied_mono:
  assumes "table_copied L h1 phi h r r'" "phi \<subseteq>\<^sub>m phi'" "\<And>k. l_rawget L h' r' k = l_rawget L h r' k"
  shows "table_copied L h1 phi' h' r r'"
  using assms unfolding table_copied_def by (rule entries_copied_mono)

lemma shares_mono:
  assumes "shares L h1 h c f f'" "psi_of c \<subseteq>\<^sub>m psi_of c'" "map fst (l_upvalues L h' f') = map fst (l_upvalues L h f')"
    "l_code L h' f' = l_code L h f'" "\<And>u m. psi_of c u = Some m \<Longrightarrow> fst (cell L h' m) = fst (cell L h m)"
  shows "shares L h1 h' c' f f'"
proof -
  have m: "psi_of c' u = Some m" if "psi_of c u = Some m" for u m using assms(2) that by (force simp: map_le_def)
  from assms(1) have "list_all2 (\<lambda>u u'. \<exists>m. psi_of c u = Some m \<and> u' = fst (cell L h m)) (map fst (l_upvalues L h1 f)) (map fst (l_upvalues L h' f'))"
    by (simp add: shares_def assms(3))
  then have "list_all2 (\<lambda>u u'. \<exists>m. psi_of c' u = Some m \<and> u' = fst (cell L h' m)) (map fst (l_upvalues L h1 f)) (map fst (l_upvalues L h' f'))"
    by (rule list_all2_mono) (use m assms(5) in metis)
  with assms(1,4) show ?thesis by (simp add: shares_def)
qed

lemma inv_extend:
  assumes laws: "reading_laws ok L" and inv: "inv ok L h1 Q P (h, c)" and h': "ok h'" "l_live L h \<subseteq> l_live L h'"
    and same: "unchanged L T {} h h'"
    and idx: "\<And>r r'. phi_of c r = Some r' \<Longrightarrow>
      l_rawget L h' (object_tbl_idx c) (LLightuserdata r') = l_rawget L h (object_tbl_idx c) (LLightuserdata r')"
    and T: "\<And>t r. t \<in> T \<Longrightarrow> t \<noteq> object_tbl_idx c \<Longrightarrow> phi_of c r = Some t \<Longrightarrow> r \<in> Q"
    and fresh: "\<And>g f i. LFunction g \<in> l_live L h' \<Longrightarrow> LFunction g \<notin> l_live L h \<Longrightarrow> (f, i) \<in> P \<Longrightarrow> i \<notin> upvalue_ids L h' g"
  shows "inv ok L h1 Q P (h', c)"
proof -
  note i = inv [unfolded inv_def prod.case]
  have up: "l_upvalues L h' f = l_upvalues L h f" "l_code L h' f = l_code L h f" if "LFunction f \<in> l_live L h" for f
    using same that by (simp_all add: unchanged_def)
  have objects: "objects_ok L h1 h' c"
    unfolding objects_ok_def
  proof (intro conjI allI impI)
    fix r r'
    assume r: "phi_of c r = Some r'"
    with i have "r' \<noteq> object_tbl_idx c \<and>
     (LTable r \<in> l_live L h1 \<and> LTable r' \<in> l_live L h \<and> l_rawget L h (object_tbl_idx c) (LLightuserdata r') = LTable r'
      \<or> LFunction r \<in> l_live L h1 \<and> LFunction r' \<in> l_live L h \<and> l_rawget L h (object_tbl_idx c) (LLightuserdata r') = LFunction r')"
      unfolding objects_ok_def by blast
    with idx [OF r] h'(2) show "r' \<noteq> object_tbl_idx c" "LTable r \<in> l_live L h1 \<and> LTable r' \<in> l_live L h' \<and> l_rawget L h' (object_tbl_idx c) (LLightuserdata r') = LTable r'
      \<or> LFunction r \<in> l_live L h1 \<and> LFunction r' \<in> l_live L h' \<and> l_rawget L h' (object_tbl_idx c) (LLightuserdata r') = LFunction r'"
      by auto
  qed (use i in \<open>simp add: objects_ok_def\<close>)
  have mapped: "LFunction (fst m) \<in> l_live L h" if m: "psi_of c u = Some m" for u m
  proof -
    from i m obtain r where "phi_of c r = Some (fst m)" "LFunction r \<in> l_live L h1" unfolding cells_ok_def by blast
    with i show ?thesis using mapped_function(1) [OF laws] by blast
  qed
  then have cell: "cell L h' m = cell L h m" if "psi_of c u = Some m" for u m
    using that up(1) by (simp add: cell_def)
  have cells: "cells_ok L h1 P h' c"
  proof -
    have "(\<lambda>u. map_option (\<lambda>m. fst (cell L h' m)) (psi_of c u)) = (\<lambda>u. map_option (\<lambda>m. fst (cell L h m)) (psi_of c u))"
      using cell by (intro ext) (auto split: option.split simp: map_option_case)
    then show ?thesis using i cell up(1) mapped unfolding cells_ok_def by simp
  qed
  have own: "owned L P h'"
    unfolding owned_def
  proof (intro ballI, clarify, intro conjI)
    fix f j
    assume P: "(f, j) \<in> P"
    with i have f: "LFunction f \<in> l_live L h" "j \<in> upvalue_ids L h f"
      "\<And>g. LFunction g \<in> l_live L h \<Longrightarrow> g \<noteq> f \<Longrightarrow> j \<notin> upvalue_ids L h g" unfolding owned_def by auto
    then show "LFunction f \<in> l_live L h'" "j \<in> upvalue_ids L h' f" using h'(2) up(1) by (auto simp: upvalue_ids_def)
    show "\<forall>g. LFunction g \<in> l_live L h' \<longrightarrow> g \<noteq> f \<longrightarrow> j \<notin> upvalue_ids L h' g"
      using fresh [OF _ _ P] f(3) up(1) by (metis upvalue_ids_def)
  qed
  have "complete L h1 Q h' c"
    unfolding complete_def
  proof (intro allI impI conjI)
    fix r r'
    assume r: "phi_of c r = Some r'" "r \<notin> Q"
    {
      assume t: "LTable r \<in> l_live L h1"
      have "objects_ok L h1 h c" "ok h1" "complete L h1 Q h c" using i by simp_all
      note m = mapped_table [OF laws this(2,1) r(1) t]
      have "r' \<notin> T" using T [OF _ m(3) r(1)] r(2) by blast
      with same m(1) have eq: "l_rawget L h' r' k = l_rawget L h r' k" for k by (simp add: unchanged_def)
      from i r t have "table_copied L h1 (phi_of c) h r r'" unfolding complete_def by blast
      then show "table_copied L h1 (phi_of c) h' r r'" by (rule table_copied_mono [OF _ map_le_refl eq])
    }
    {
      assume f: "LFunction r \<in> l_live L h1"
      then have "LFunction r' \<in> l_live L h" using mapped_function(1) [OF laws _ _ r(1) f] i by blast
      note eq = up [OF this]
      from i r f have "shares L h1 h c r r'" unfolding complete_def by blast
      then show "shares L h1 h' c r r'" by (rule shares_mono [OF _ map_le_refl]) (simp_all add: eq cell)
    }
  qed
  with i h' objects cells own show ?thesis by (auto simp: inv_def)
qed

lemma inv_map:
  assumes inv: "inv ok L h1 Q P (h, c)" and r: "phi_of c r = None"
    and p: "p \<noteq> object_tbl_idx c" "\<And>q. phi_of c q \<noteq> Some p"
    and kind: "LTable r \<in> l_live L h1 \<and> LTable p \<in> l_live L h \<and> l_rawget L h (object_tbl_idx c) (LLightuserdata p) = LTable p
      \<or> LFunction r \<in> l_live L h1 \<and> LFunction p \<in> l_live L h \<and> l_rawget L h (object_tbl_idx c) (LLightuserdata p) = LFunction p"
  shows "inv ok L h1 (insert r Q) P (h, map_object r p c)"
proof -
  note i = inv [unfolded inv_def prod.case]
  have le: "phi_of c \<subseteq>\<^sub>m (phi_of c)(r \<mapsto> p)" using r by (auto simp: map_le_def)
  have "objects_ok L h1 h (map_object r p c)"
    using i p kind by (auto simp: objects_ok_def map_object_def injective_def)
  moreover have "cells_ok L h1 P h (map_object r p c)"
  proof -
    have "\<exists>q. ((phi_of c)(r \<mapsto> p)) q = Some (fst m) \<and> LFunction q \<in> l_live L h1" if "psi_of c u = Some m" for u m
      using that i r unfolding cells_ok_def by (metis fun_upd_other option.distinct(1))
    moreover have "\<exists>f x. LFunction f \<in> l_live L h1 \<and> (u, x) \<in> set (l_upvalues L h1 f)
        \<and> same ((phi_of c)(r \<mapsto> p)) (unwrapped L h1 x) (snd (cell L h m))" if "psi_of c u = Some m" for u m
      using that i same_mono [OF _ le] unfolding cells_ok_def by metis
    ultimately show ?thesis using i by (simp add: cells_ok_def map_object_def)
  qed
  moreover have "complete L h1 (insert r Q) h (map_object r p c)"
    unfolding complete_def
  proof (intro allI impI)
    fix q q'
    assume q: "phi_of (map_object r p c) q = Some q'" "q \<notin> insert r Q"
    then have "phi_of c q = Some q'" "q \<notin> Q" by (auto simp: map_object_def)
    with i have c: "LTable q \<in> l_live L h1 \<longrightarrow> table_copied L h1 (phi_of c) h q q'" "LFunction q \<in> l_live L h1 \<longrightarrow> shares L h1 h c q q'"
      unfolding complete_def by blast+
    have le': "phi_of c \<subseteq>\<^sub>m phi_of (map_object r p c)" using le by (simp add: map_object_def)
    have "LTable q \<in> l_live L h1 \<longrightarrow> table_copied L h1 (phi_of (map_object r p c)) h q q'"
      by (rule impI, rule table_copied_mono [OF _ le' refl]) (use c(1) in blast)
    with c show "(LTable q \<in> l_live L h1 \<longrightarrow> table_copied L h1 (phi_of (map_object r p c)) h q q')
      \<and> (LFunction q \<in> l_live L h1 \<longrightarrow> shares L h1 h (map_object r p c) q q')"
      by (simp add: shares_def map_object_def)
  qed
  ultimately show ?thesis using i by (simp add: inv_def map_object_def)
qed

lemma new_object_step:
  assumes laws: "lua_laws ok L" and inv: "inv ok L h1 Q P (h, c)" and new: "created ok L v h h'" and r: "phi_of c r = None"
    and v: "v = LTable p \<and> LTable r \<in> l_live L h1
      \<or> v = LFunction p \<and> LFunction r \<in> l_live L h1 \<and> (\<forall>f. LFunction f \<in> l_live L h \<longrightarrow> upvalue_ids L h f \<inter> upvalue_ids L h' p = {})"
  defines "st \<equiv> new_object L r v (h', c)"
  shows "inv ok L h1 (insert r Q) P st" "ext L h1 d {} (h, c) st" "snd st = map_object r p c"
    "unchanged L {object_tbl_idx c} {} h' (fst st)" "l_live L (fst st) = insert v (l_live L h)"
    "p \<noteq> object_tbl_idx c"
proof -
  let ?idx = "object_tbl_idx c" and ?h2 = "l_rawset L (object_tbl_idx c) (LLightuserdata p) v h'"
  have p: "lua_topointer v = p" using v by auto
  then have st: "st = (?h2, map_object r p c)" by (simp add: st_def new_object_def cache_object_def)
  note i = inv [unfolded inv_def prod.case]
  have n: "ok h'" "LTable p \<notin> l_live L h" "LFunction p \<notin> l_live L h" "l_live L h' = insert v (l_live L h)" "unchanged L {} {} h h'"
    using new p by (simp_all add: created_def)
  have "LTable ?idx \<in> l_live L h'" "exists_in L h' v" using i n(4) v by auto
  then have w: "ok ?h2" "l_live L ?h2 = l_live L h'" "unchanged L {?idx} {} h' ?h2"
    "\<And>j. l_rawget L ?h2 ?idx j = (if j = LLightuserdata p then v else l_rawget L h' ?idx j)"
    using laws n(1) unfolding lua_laws_def table_laws_def by simp_all
  have idx: "p \<noteq> ?idx" using i n(2) by auto
  have ran: "phi_of c q \<noteq> Some p" for q using i n(2,3) unfolding objects_ok_def by blast
  have old: "l_rawget L h' ?idx k = l_rawget L h ?idx k" for k using i n(5) by (simp add: unchanged_def)
  have inv1: "inv ok L h1 Q P (h', c)"
  proof (rule inv_extend [OF _ inv n(1) _ n(5)])
    fix g f j
    assume g: "LFunction g \<in> l_live L h'" "LFunction g \<notin> l_live L h" "(f, j) \<in> P"
    with n(4) have "v = LFunction g" by auto
    with v have "upvalue_ids L h f \<inter> upvalue_ids L h' g = {}" if "LFunction f \<in> l_live L h" for f using that by auto
    moreover have "LFunction f \<in> l_live L h" "j \<in> upvalue_ids L h f" using i g(3) unfolding owned_def by auto
    ultimately show "j \<notin> upvalue_ids L h' g" by blast
  qed (use laws n(4) old in \<open>auto simp: lua_laws_def\<close>)
  have inv2: "inv ok L h1 Q P (?h2, c)"
    by (rule inv_extend [where ok = ok and h' = ?h2 and T = "{?idx}" and h = h', rotated 2, OF w(1) _ w(3)])
      (use laws inv1 w(2,4) ran in \<open>auto simp: lua_laws_def\<close>)
  show "inv ok L h1 (insert r Q) P st"
    unfolding st by (rule inv_map [OF inv2 r idx ran]) (use v w(2,4) n(4) in auto)
  have le: "phi_of c \<subseteq>\<^sub>m phi_of (map_object r p c)" using r by (auto simp: map_le_def map_object_def)
  have un: "unchanged L {?idx} {} h ?h2" using unchanged_trans [of L "{?idx}" "{}" h h' ?h2] unchanged_mono [OF n(5)] w(3) n(4) by auto
  show "ext L h1 d {} (h, c) st"
    unfolding st ext_pair using le un w(2,4) n(2,3,4) old by (auto simp: map_object_def)
  show "snd st = map_object r p c" "unchanged L {object_tbl_idx c} {} h' (fst st)" "l_live L (fst st) = insert v (l_live L h)" "p \<noteq> object_tbl_idx c"
    using w idx n(4) by (simp_all add: st)
qed

lemma rawset_step:
  assumes laws: "lua_laws ok L" and inv: "inv ok L h1 Q P (h, c)" and p: "LTable p \<in> l_live L h" "p \<noteq> object_tbl_idx c"
    and Q: "\<And>r. phi_of c r = Some p \<Longrightarrow> r \<in> Q"
    and k: "k \<noteq> LNil" "k \<noteq> LNumber NaN" "exists_in L h k" "exists_in L h v"
  shows "inv ok L h1 Q P (l_rawset L p k v h, c)" "ext L h1 d {p} (h, c) (l_rawset L p k v h, c)"
    "\<And>j. l_rawget L (l_rawset L p k v h) p j = (if j = k then v else l_rawget L h p j)"
    "l_live L (l_rawset L p k v h) = l_live L h" "unchanged L {p} {} h (l_rawset L p k v h)"
proof -
  let ?h2 = "l_rawset L p k v h"
  note i = inv [unfolded inv_def prod.case]
  from p k i laws have w: "ok ?h2" "l_live L ?h2 = l_live L h" "unchanged L {p} {} h ?h2"
    "\<And>j. l_rawget L ?h2 p j = (if j = k then v else l_rawget L h p j)"
    unfolding lua_laws_def table_laws_def by simp_all
  from w(3) p i have idx: "l_rawget L ?h2 (object_tbl_idx c) j = l_rawget L h (object_tbl_idx c) j" for j
    by (auto simp: unchanged_def)
  show "inv ok L h1 Q P (?h2, c)"
    by (rule inv_extend [OF _ inv w(1) _ w(3)]) (use laws w(2) idx Q in \<open>auto simp: lua_laws_def\<close>)
  show "ext L h1 d {p} (h, c) (?h2, c)"
    unfolding ext_pair using w(2) idx unchanged_mono [OF w(3)] by auto
  show "\<And>j. l_rawget L ?h2 p j = (if j = k then v else l_rawget L h p j)" "l_live L ?h2 = l_live L h" "unchanged L {p} {} h ?h2"
    by (rule w)+
qed

lemma entry_step:
  assumes laws: "lua_laws ok L" and inv: "inv ok L h1 Q P (h, c)" and r: "phi_of c r = Some p" "LTable r \<in> l_live L h1" "r \<in> Q"
    and k: "k \<noteq> LNil" "k \<noteq> LNumber NaN" "exists_in L h k" "exists_in L h v"
  shows "inv ok L h1 Q P (l_rawset L p k v h, c)" "ext L h1 d {p} (h, c) (l_rawset L p k v h, c)"
    "\<And>j. l_rawget L (l_rawset L p k v h) p j = (if j = k then v else l_rawget L h p j)"
    "l_live L (l_rawset L p k v h) = l_live L h"
proof -
  note i = inv [unfolded inv_def prod.case]
  have p: "LTable p \<in> l_live L h" "p \<noteq> object_tbl_idx c"
    using mapped_table [OF _ _ _ r(1,2)] i laws unfolding lua_laws_def by blast+
  have "q \<in> Q" if "phi_of c q = Some p" for q
    using that r i unfolding objects_ok_def injective_def by blast
  note rawset_step [OF laws inv p this k]
  then show "inv ok L h1 Q P (l_rawset L p k v h, c)" "ext L h1 d {p} (h, c) (l_rawset L p k v h, c)"
    "\<And>j. l_rawget L (l_rawset L p k v h) p j = (if j = k then v else l_rawget L h p j)"
    "l_live L (l_rawset L p k v h) = l_live L h" by simp_all
qed
section \<open>Steps that set upvalues\<close>

definition own :: "'h lua \<Rightarrow> 'h \<Rightarrow> ptr \<Rightarrow> nat set \<Rightarrow> (ptr \<times> ptr) set" where
  "own L h f N = (\<lambda>n. (f, fst (cell L h (f, n)))) ` N"

text \<open>The copy \<open>f\<close> of \<open>f0\<close> while its upvalues are set: those numbered in \<open>N\<close> are to be done.\<close>

definition filling :: "'h lua \<Rightarrow> 'h \<Rightarrow> ptr \<Rightarrow> ptr \<Rightarrow> nat set \<Rightarrow> (ptr \<times> ptr) set \<Rightarrow> 'h \<times> upvalue_cache \<Rightarrow> bool" where
  "filling L h1 f0 f N P st \<longleftrightarrow> (case st of (h, c) \<Rightarrow>
     phi_of c f0 = Some f \<and> LFunction f0 \<in> l_live L h1 \<and> f \<notin> fst ` P \<and> l_code L h f = l_code L h1 f0
     \<and> length (l_upvalues L h f) = length (l_upvalues L h1 f0)
     \<and> (\<forall>n\<in>N. 1 \<le> n \<and> n \<le> length (l_upvalues L h f)
          \<and> (\<forall>j. 1 \<le> j \<longrightarrow> j \<le> length (l_upvalues L h f) \<longrightarrow> j \<noteq> n \<longrightarrow> fst (cell L h (f, j)) \<noteq> fst (cell L h (f, n))))
     \<and> (\<forall>j. 1 \<le> j \<longrightarrow> j \<le> length (l_upvalues L h f) \<longrightarrow> j \<notin> N \<longrightarrow>
          (\<exists>m. psi_of c (fst (cell L h1 (f0, j))) = Some m \<and> fst (cell L h (f, j)) = fst (cell L h m))))"

lemma nth_in_ids: "1 \<le> n \<Longrightarrow> n \<le> length (l_upvalues L h f) \<Longrightarrow> fst (cell L h (f, n)) \<in> upvalue_ids L h f"
  by (auto simp: cell_def upvalue_ids_def)

lemma cells_live:
  assumes "reading_laws ok L" "ok h1" "objects_ok L h1 h c" "cells_ok L h1 P h c" "psi_of c u = Some m"
  shows "LFunction (fst m) \<in> l_live L h" "1 \<le> snd m" "snd m \<le> length (l_upvalues L h (fst m))" "fst (cell L h m) \<notin> snd ` P"
    "l_rawget L h (object_tbl_idx c) (LLightuserdata (fst m)) = LFunction (fst m)"
proof -
  from assms(4,5) obtain r where "phi_of c r = Some (fst m)" "LFunction r \<in> l_live L h1" unfolding cells_ok_def by blast
  from mapped_function [OF assms(1-3) this] assms(4,5)
  show "LFunction (fst m) \<in> l_live L h" "1 \<le> snd m" "snd m \<le> length (l_upvalues L h (fst m))" "fst (cell L h m) \<notin> snd ` P"
    "l_rawget L h (object_tbl_idx c) (LLightuserdata (fst m)) = LFunction (fst m)"
    unfolding cells_ok_def by blast+
qed

lemma cells_ok_cong:
  assumes "cells_ok L h1 P h c" "P' \<subseteq> P"
    and "\<And>u m. psi_of c u = Some m \<Longrightarrow> cell L h' m = cell L h m \<and> length (l_upvalues L h' (fst m)) = length (l_upvalues L h (fst m))"
  shows "cells_ok L h1 P' h' c"
proof -
  have "(\<lambda>u. map_option (\<lambda>m. fst (cell L h' m)) (psi_of c u)) = (\<lambda>u. map_option (\<lambda>m. fst (cell L h m)) (psi_of c u))"
    using assms(3) by (intro ext) (auto split: option.split simp: map_option_case)
  moreover have "fst (cell L h m) \<notin> snd ` P'" if "fst (cell L h m) \<notin> snd ` P" for m using assms(2) that by blast
  ultimately show ?thesis using assms(1,3) unfolding cells_ok_def by simp
qed

lemma owned_cong:
  assumes "owned L P h" "P' \<subseteq> P" "l_live L h' = l_live L h"
    and "\<And>g. LFunction g \<in> l_live L h \<Longrightarrow> upvalue_ids L h' g = upvalue_ids L h g"
  shows "owned L P' h'"
  unfolding owned_def
proof (intro ballI, clarify)
  fix f j
  assume "(f, j) \<in> P'"
  with assms(1,2) have "LFunction f \<in> l_live L h" "j \<in> upvalue_ids L h f"
    "\<And>g. LFunction g \<in> l_live L h \<Longrightarrow> g \<noteq> f \<Longrightarrow> j \<notin> upvalue_ids L h g" unfolding owned_def by blast+
  with assms(3,4) show "LFunction f \<in> l_live L h' \<and> j \<in> upvalue_ids L h' f
    \<and> (\<forall>g. LFunction g \<in> l_live L h' \<longrightarrow> g \<noteq> f \<longrightarrow> j \<notin> upvalue_ids L h' g)" by auto
qed

lemma complete_step:
  assumes rl: "reading_laws ok L" and i: "ok h1" "objects_ok L h1 h c" "complete L h1 Q h c" and f0: "phi_of c f0 = Some f" "f0 \<in> Q"
    and w: "unchanged L {} UNIV h h'" "\<And>g. LFunction g \<in> l_live L h \<Longrightarrow> g \<noteq> f \<Longrightarrow> map fst (l_upvalues L h' g) = map fst (l_upvalues L h g)"
    and cell: "\<And>u k. psi_of c u = Some k \<Longrightarrow> fst (cell L h' k) = fst (cell L h k)"
    and c': "phi_of c' = phi_of c" "psi_of c \<subseteq>\<^sub>m psi_of c'"
  shows "complete L h1 Q h' c'"
  unfolding complete_def c'(1)
proof (intro allI impI conjI)
  fix r r'
  assume r: "phi_of c r = Some r'" "r \<notin> Q"
  then have "r' \<noteq> f" using i f0 unfolding objects_ok_def injective_def by blast
  {
    assume t: "LTable r \<in> l_live L h1"
    have "LTable r' \<in> l_live L h" using mapped_table(1) [OF rl i(1,2) r(1) t] .
    then have eq: "l_rawget L h' r' k = l_rawget L h r' k" for k using w(1) by (simp add: unchanged_def)
    from i r t have "table_copied L h1 (phi_of c) h r r'" unfolding complete_def by blast
    then show "table_copied L h1 (phi_of c) h' r r'" by (rule table_copied_mono [OF _ map_le_refl eq])
  }
  {
    assume t: "LFunction r \<in> l_live L h1"
    have l: "LFunction r' \<in> l_live L h" using mapped_function(1) [OF rl i(1,2) r(1) t] .
    then have "l_code L h' r' = l_code L h r'" using w(1) by (simp add: unchanged_def)
    moreover from i r t have "shares L h1 h c r r'" unfolding complete_def by blast
    ultimately show "shares L h1 h' c' r r'"
      by (intro shares_mono [OF _ c'(2)]) (simp_all add: w(2) [OF l \<open>r' \<noteq> f\<close>] cell)
  }
qed

lemma join_step:
  assumes laws: "lua_laws ok L" and inv: "inv ok L h1 (insert f0 Q) (P \<union> own L h f N) (h, c)"
    and fill: "filling L h1 f0 f N P (h, c)" and n: "n \<in> N" and m: "psi_of c (fst (cell L h1 (f0, n))) = Some m"
  defines "h' \<equiv> l_upvaluejoin L f n (fst m) (snd m) h"
  shows "join_upvalue L f n m (h, c) = Inr (h', c)" "inv ok L h1 (insert f0 Q) (P \<union> own L h' f (N - {n})) (h', c)"
    "filling L h1 f0 f (N - {n}) P (h', c)" "ext L h1 d {f} (h, c) (h', c)"
proof -
  let ?P = "P \<union> own L h f N"
  note i = inv [unfolded inv_def prod.case] and fl = fill [unfolded filling_def prod.case]
  have rl: "reading_laws ok L" using laws by (simp add: lua_laws_def)
  have f: "LFunction f \<in> l_live L h" using mapped_function(1) [OF rl, of h1 h c f0 f] i fl by blast
  have nb: "1 \<le> n" "n \<le> length (l_upvalues L h f)" using fl n by auto
  note mc = cells_live [OF rl _ _ _ m, of h1 h ?P]
  then have mc: "LFunction (fst m) \<in> l_live L h" "1 \<le> snd m" "snd m \<le> length (l_upvalues L h (fst m))" "fst (cell L h m) \<notin> snd ` ?P"
    "l_rawget L h (object_tbl_idx c) (LLightuserdata (fst m)) = LFunction (fst m)"
    using i by blast+
  show "join_upvalue L f n m (h, c) = Inr (h', c)" by (simp add: join_upvalue_def fetch_object_def mc(5) h'_def)
  from laws f nb mc i have w: "ok h'" "l_live L h' = l_live L h" "unchanged L {} {f} h h'"
    "l_upvalues L h' f = (l_upvalues L h f)[n - 1 := cell L h m]"
    unfolding lua_laws_def function_laws_def h'_def cell_def by simp_all
  have up: "l_upvalues L h' g = l_upvalues L h g" if "LFunction g \<in> l_live L h" "g \<noteq> f" for g
    using w(3) that by (simp add: unchanged_def)
  have code: "l_code L h' g = l_code L h g" if "LFunction g \<in> l_live L h" for g using w(3) that by (simp add: unchanged_def)
  have len: "length (l_upvalues L h' g) = length (l_upvalues L h g)" if "LFunction g \<in> l_live L h" for g
    using up [OF that] w(4) by (cases "g = f") auto
  have ownn: "fst (cell L h (f, n)) \<in> snd ` ?P" using n by (force simp: own_def)
  have keep: "cell L h' (f, j) = cell L h (f, j)" if "1 \<le> j" "j \<noteq> n" for j
    using that nb w(4) by (auto simp: cell_def nth_list_update)
  have new: "cell L h' (f, n) = cell L h m" using nb w(4) by (simp add: cell_def)
  have cell: "cell L h' k = cell L h k" if k: "psi_of c u = Some k" for u k
  proof (cases "fst k = f")
    case True
    from cells_live [OF rl _ _ _ k, of h1 h ?P] i have b: "1 \<le> snd k" "fst (cell L h k) \<notin> snd ` ?P" by blast+
    with ownn True have "snd k \<noteq> n" by (metis prod.collapse)
    with keep [of "snd k"] b(1) True show ?thesis by (metis prod.collapse)
  next
    case False
    from cells_live [OF rl _ _ _ k, of h1 h ?P] i have "LFunction (fst k) \<in> l_live L h" by blast
    with up False show ?thesis by (simp add: cell_def)
  qed
  have kl: "LFunction (fst k) \<in> l_live L h" if k: "psi_of c u = Some k" for u k
    using cells_live(1) [OF rl _ _ _ k, of h1 h ?P] i by blast
  have own': "own L h' f (N - {n}) = own L h f (N - {n})"
  proof -
    have "1 \<le> j" if "j \<in> N" for j using fl that by blast
    then show ?thesis unfolding own_def by (intro image_cong refl) (auto simp: keep)
  qed
  have ids: "upvalue_ids L h' f \<subseteq> insert (fst (cell L h m)) (upvalue_ids L h f)"
    unfolding upvalue_ids_def w(4) using set_update_subset_insert [of "l_upvalues L h f" "n - 1" "cell L h m"] by blast
  have sub: "P \<union> own L h' f (N - {n}) \<subseteq> ?P" unfolding own' by (auto simp: own_def)
  have "owned L (P \<union> own L h' f (N - {n})) h'"
    unfolding owned_def
  proof (intro ballI, clarify, intro conjI)
    fix g j
    assume gj: "(g, j) \<in> P \<union> own L h' f (N - {n})"
    with sub i have g: "LFunction g \<in> l_live L h" "j \<in> upvalue_ids L h g"
      "\<And>q. LFunction q \<in> l_live L h \<Longrightarrow> q \<noteq> g \<Longrightarrow> j \<notin> upvalue_ids L h q" unfolding owned_def by blast+
    show "LFunction g \<in> l_live L h'" using g(1) w(2) by simp
    show "j \<in> upvalue_ids L h' g"
    proof (cases "g = f")
      case True
      with gj fl obtain k where k: "k \<in> N" "k \<noteq> n" "j = fst (cell L h' (f, k))" by (force simp: own_def)
      then have "1 \<le> k" "k \<le> length (l_upvalues L h' f)" using fl len [OF f] by auto
      from nth_in_ids [OF this] k True show ?thesis by simp
    next
      case False
      with g(1,2) up show ?thesis by (simp add: upvalue_ids_def)
    qed
    show "\<forall>q. LFunction q \<in> l_live L h' \<longrightarrow> q \<noteq> g \<longrightarrow> j \<notin> upvalue_ids L h' q"
    proof (intro allI impI)
      fix q
      assume q: "LFunction q \<in> l_live L h'" "q \<noteq> g"
      have "j \<noteq> fst (cell L h m)" using mc(4) gj sub by force
      with g(3) [of q] q ids up [of q] w(2) show "j \<notin> upvalue_ids L h' q" by (cases "q = f") (auto simp: upvalue_ids_def)
    qed
  qed
  moreover have "objects_ok L h1 h' c"
    using i w(2,3) unfolding objects_ok_def unchanged_def by auto
  moreover have "cells_ok L h1 (P \<union> own L h' f (N - {n})) h' c"
    by (rule cells_ok_cong [OF _ sub]) (use i cell len kl in auto)
  moreover have "complete L h1 (insert f0 Q) h' c"
    by (rule complete_step [OF rl _ _ _ _ _ unchanged_mono [OF w(3)] _ _ refl map_le_refl]) (use i fl up cell in auto)
  ultimately show "inv ok L h1 (insert f0 Q) (P \<union> own L h' f (N - {n})) (h', c)" using i w by (simp add: inv_def)
  show "filling L h1 f0 f (N - {n}) P (h', c)"
    unfolding filling_def prod.case
  proof (intro conjI ballI allI impI)
    show "l_code L h' f = l_code L h1 f0" "length (l_upvalues L h' f) = length (l_upvalues L h1 f0)" using fl code [OF f] len [OF f] by auto
    fix k
    assume k: "k \<in> N - {n}"
    then show "1 \<le> k" "k \<le> length (l_upvalues L h' f)" using fl len [OF f] by auto
    have ko: "fst (cell L h (f, k)) \<in> snd ` ?P" using k by (force simp: own_def)
    fix j
    assume j: "1 \<le> j" "j \<le> length (l_upvalues L h' f)" "j \<noteq> k"
    show "fst (cell L h' (f, j)) \<noteq> fst (cell L h' (f, k))"
    proof (cases "j = n")
      case True
      from mc(4) ko have "fst (cell L h m) \<noteq> fst (cell L h (f, k))" by metis
      with True new keep [of k] fl k show ?thesis by auto
    next
      case False
      with fl j k len [OF f] keep [of j] keep [of k] show ?thesis by auto
    qed
  next
    fix j
    assume j: "1 \<le> j" "j \<le> length (l_upvalues L h' f)" "j \<notin> N - {n}"
    show "\<exists>m. psi_of c (fst (cell L h1 (f0, j))) = Some m \<and> fst (cell L h' (f, j)) = fst (cell L h' m)"
    proof (cases "j = n")
      case True
      with m new cell show ?thesis by auto
    next
      case False
      with fl j len [OF f] obtain k where "psi_of c (fst (cell L h1 (f0, j))) = Some k" "fst (cell L h (f, j)) = fst (cell L h k)" by auto
      with cell keep [OF j(1) False] show ?thesis by auto
    qed
  qed (use fl in auto)
  show "ext L h1 d {f} (h, c) (h', c)"
    unfolding ext_pair using w i unchanged_mono [OF w(3), of "{object_tbl_idx c, f}" "{f}"] by (auto simp: unchanged_def)
qed

lemma function_laws_set:
  assumes "function_laws ok L" "ok h" "LFunction f \<in> l_live L h" "1 \<le> n" "n \<le> length (l_upvalues L h f)" "exists_in L h v"
  shows "\<exists>h'. l_setupvalue L f n v h = Some h' \<and> ok h' \<and> l_live L h' = l_live L h \<and> unchanged L {} UNIV h h'
    \<and> (\<forall>g. LFunction g \<in> l_live L h \<longrightarrow>
          l_upvalues L h' g = map (\<lambda>(u, x). (u, if u = fst (cell L h (f, n)) then v else x)) (l_upvalues L h g))"
  using assms unfolding function_laws_def cell_def by simp

lemma set_step:
  assumes laws: "lua_laws ok L" and inv: "inv ok L h1 (insert f0 Q) (P \<union> own L h f N) (h, c)"
    and fill: "filling L h1 f0 f N P (h, c)" and n: "n \<in> N"
    and u: "cell L h1 (f0, n) = (u, x)" "psi_of c u = None" "shallow L h1 d u"
    and v: "exists_in L h v" "same (phi_of c) (unwrapped L h1 x) v"
  obtains h' where "l_setupvalue L f n v h = Some h'"
    "inv ok L h1 (insert f0 Q) (P \<union> own L h' f (N - {n})) (h', map_upvalue u f n c)"
    "filling L h1 f0 f (N - {n}) P (h', map_upvalue u f n c)" "ext L h1 d {f} (h, c) (h', map_upvalue u f n c)"
proof -
  let ?P = "P \<union> own L h f N" and ?c = "map_upvalue u f n c" and ?i = "fst (cell L h (f, n))"
  note i = inv [unfolded inv_def prod.case] and fl = fill [unfolded filling_def prod.case]
  have rl: "reading_laws ok L" using laws by (simp add: lua_laws_def)
  have f: "LFunction f \<in> l_live L h" using mapped_function(1) [OF rl, of h1 h c f0 f] i fl by blast
  have nb: "1 \<le> n" "n \<le> length (l_upvalues L h f)" using fl n by auto
  with laws f v(1) i obtain h' where w: "l_setupvalue L f n v h = Some h'" "ok h'" "l_live L h' = l_live L h" "unchanged L {} UNIV h h'"
    "\<And>g. LFunction g \<in> l_live L h \<Longrightarrow> l_upvalues L h' g = map (\<lambda>(u, x). (u, if u = ?i then v else x)) (l_upvalues L h g)"
    using function_laws_set [of ok L h f n v] unfolding lua_laws_def by auto
  have ids: "map fst (l_upvalues L h' g) = map fst (l_upvalues L h g)" if "LFunction g \<in> l_live L h" for g
    using w(5) [OF that] by (auto simp: case_prod_beta comp_def)
  have len: "length (l_upvalues L h' g) = length (l_upvalues L h g)" if "LFunction g \<in> l_live L h" for g
    using arg_cong [OF ids [OF that], of length] by simp
  have uids: "upvalue_ids L h' g = upvalue_ids L h g" if "LFunction g \<in> l_live L h" for g
    using arg_cong [OF ids [OF that], of set] by (simp add: upvalue_ids_def)
  have cellh': "cell L h' k = (fst (cell L h k), if fst (cell L h k) = ?i then v else snd (cell L h k))"
    if "LFunction (fst k) \<in> l_live L h" "1 \<le> snd k" "snd k \<le> length (l_upvalues L h (fst k))" for k
    using w(5) [OF that(1)] that(2,3) by (simp add: cell_def case_prod_beta)
  have ownn: "?i \<in> snd ` ?P" using n by (force simp: own_def)
  have cell: "cell L h' k = cell L h k" if k: "psi_of c u' = Some k" for u' k
  proof -
    from cells_live(1-4) [OF rl _ _ _ k, of h1 h ?P] i
    have k: "LFunction (fst k) \<in> l_live L h" "1 \<le> snd k" "snd k \<le> length (l_upvalues L h (fst k))" "fst (cell L h k) \<notin> snd ` ?P"
      by blast+
    from k(4) ownn have "fst (cell L h k) \<noteq> ?i" by metis
    with cellh' [OF k(1-3)] show ?thesis by simp
  qed
  have kl: "LFunction (fst k) \<in> l_live L h" if k: "psi_of c u' = Some k" for u' k
    using cells_live(1) [OF rl _ _ _ k, of h1 h ?P] i by blast
  have idf: "fst (cell L h' (f, j)) = fst (cell L h (f, j))" if "1 \<le> j" "j \<le> length (l_upvalues L h f)" for j
    using cellh' [of "(f, j)"] f that by simp
  have own': "own L h' f (N - {n}) = own L h f (N - {n})"
    unfolding own_def by (rule image_cong [OF refl]) (use fl idf in auto)
  have sub: "P \<union> own L h' f (N - {n}) \<subseteq> ?P" unfolding own' by (auto simp: own_def)
  have free: "?i \<notin> snd ` (P \<union> own L h' f (N - {n}))"
  proof
    assume "?i \<in> snd ` (P \<union> own L h' f (N - {n}))"
    then obtain g where "(g, ?i) \<in> P \<or> (g, ?i) \<in> own L h f (N - {n})" unfolding own' by force
    then show False
    proof
      assume g: "(g, ?i) \<in> P"
      then have "g \<noteq> f" using fl by force
      moreover from i have "owned L ?P h" by simp
      with g have "\<forall>q. LFunction q \<in> l_live L h \<longrightarrow> q \<noteq> g \<longrightarrow> ?i \<notin> upvalue_ids L h q" unfolding owned_def by blast
      ultimately show False using f nth_in_ids [OF nb] by blast
    next
      assume "(g, ?i) \<in> own L h f (N - {n})"
      then obtain j where "j \<in> N" "j \<noteq> n" "?i = fst (cell L h (f, j))" by (auto simp: own_def)
      with fl n nb show False by metis
    qed
  qed
  have psi: "psi_of ?c = (psi_of c)(u \<mapsto> (f, n))" "phi_of ?c = phi_of c" "object_tbl_idx ?c = object_tbl_idx c"
    by (simp_all add: map_upvalue_def)
  have le: "psi_of c \<subseteq>\<^sub>m psi_of ?c" using u(2) by (auto simp: psi map_le_def)
  have fn: "cell L h' (f, n) = (?i, v)" using cellh' [of "(f, n)"] f nb by simp
  have "cells_ok L h1 (P \<union> own L h' f (N - {n})) h' ?c"
  proof -
    have c': "cells_ok L h1 (P \<union> own L h' f (N - {n})) h' c"
      by (rule cells_ok_cong [OF _ sub]) (use i cell len kl in auto)
    have fresh: "fst (cell L h' k) \<noteq> ?i" if k: "psi_of c u' = Some k" for u' k
      using cells_live(4) [OF rl _ _ _ k, of h1 h ?P] i cell [OF k] ownn by metis
    have eq: "(\<lambda>a. map_option (\<lambda>m. fst (cell L h' m)) (psi_of ?c a)) = (\<lambda>a. map_option (\<lambda>m. fst (cell L h' m)) (psi_of c a))(u \<mapsto> ?i)"
      by (auto simp: psi fn)
    have "injective (\<lambda>a. map_option (\<lambda>m. fst (cell L h' m)) (psi_of c a))" using c' unfolding cells_ok_def by blast
    then have "injective (\<lambda>a. map_option (\<lambda>m. fst (cell L h' m)) (psi_of ?c a))"
      unfolding eq by (rule injective_upd) (use fresh in auto)
    moreover have "\<exists>f x. LFunction f \<in> l_live L h1 \<and> (u, x) \<in> set (l_upvalues L h1 f) \<and> same (phi_of c) (unwrapped L h1 x) v"
    proof -
      have "(u, x) \<in> set (l_upvalues L h1 f0)" using u(1) nb fl by (auto simp: cell_def in_set_conv_nth intro!: exI [of _ "n - 1"])
      with fl v(2) show ?thesis by blast
    qed
    ultimately show ?thesis
      using c' fl nb len [OF f] free fn unfolding cells_ok_def psi by (auto split: if_splits)
  qed
  moreover have "owned L (P \<union> own L h' f (N - {n})) h'"
    by (rule owned_cong [OF _ sub w(3) uids]) (use i in auto)
  moreover have "objects_ok L h1 h' ?c"
    using i w(3,4) unfolding objects_ok_def unchanged_def psi by auto
  moreover have "complete L h1 (insert f0 Q) h' ?c"
    by (rule complete_step [OF rl _ _ _ _ _ w(4) _ _ psi(2) le]) (use i fl ids cell in auto)
  ultimately have "inv ok L h1 (insert f0 Q) (P \<union> own L h' f (N - {n})) (h', ?c)" using i w by (simp add: inv_def psi)
  moreover have "filling L h1 f0 f (N - {n}) P (h', ?c)"
    unfolding filling_def prod.case psi
  proof (intro conjI ballI allI impI)
    show "l_code L h' f = l_code L h1 f0" "length (l_upvalues L h' f) = length (l_upvalues L h1 f0)"
      using fl len [OF f] w(4) f by (auto simp: unchanged_def)
    fix j
    assume j: "1 \<le> j" "j \<le> length (l_upvalues L h' f)" "j \<notin> N - {n}"
    show "\<exists>m. ((psi_of c)(u \<mapsto> (f, n))) (fst (cell L h1 (f0, j))) = Some m \<and> fst (cell L h' (f, j)) = fst (cell L h' m)"
    proof (cases "j = n")
      case True
      with u(1) show ?thesis by auto
    next
      case False
      with fl j len [OF f] obtain k where k: "psi_of c (fst (cell L h1 (f0, j))) = Some k" "fst (cell L h (f, j)) = fst (cell L h k)" by auto
      with u(2) cell [OF k(1)] idf [of j] j len [OF f] show ?thesis by (intro exI [of _ k]) auto
    qed
  qed (use fl len [OF f] idf in auto)
  moreover have "ext L h1 d {f} (h, c) (h', ?c)"
  proof -
    have "l_upvalues L h' g = l_upvalues L h g" if g: "LFunction g \<in> l_live L h" "g \<noteq> f" for g
    proof -
      have "(f, ?i) \<in> ?P" using n by (auto simp: own_def)
      with i g have "?i \<notin> upvalue_ids L h g" unfolding owned_def by blast
      moreover have "a \<in> upvalue_ids L h g" if "(a, b) \<in> set (l_upvalues L h g)" for a b
        using that unfolding upvalue_ids_def by (rule rev_image_eqI) simp
      ultimately have "a \<noteq> ?i" if "(a, b) \<in> set (l_upvalues L h g)" for a b using that by metis
      then show ?thesis unfolding w(5) [OF g(1)] by (intro map_idI) auto
    qed
    with w(3,4) u(3) le show ?thesis unfolding ext_pair psi by (auto simp: unchanged_def i)
  qed
  ultimately show ?thesis using w(1) that by blast
qed
section \<open>The copy of an object\<close>

lemma own_start:
  assumes inv: "inv ok L h1 Q' P (h, c)" and laws: "reading_laws ok L" and f0: "phi_of c f0 = Some f" "LFunction f0 \<in> l_live L h1"
    and new: "f \<notin> fst ` P"
    and dist: "distinct (map fst (l_upvalues L h f))"
    and fresh: "\<And>g. LFunction g \<in> l_live L h \<Longrightarrow> g \<noteq> f \<Longrightarrow> upvalue_ids L h g \<inter> upvalue_ids L h f = {}"
    and psi: "\<And>u m. psi_of c u = Some m \<Longrightarrow> fst m \<noteq> f"
    and orig: "l_code L h f = l_code L h1 f0" "length (l_upvalues L h f) = length (l_upvalues L h1 f0)"
  defines "N \<equiv> {1..length (l_upvalues L h f)}"
  shows "inv ok L h1 Q' (P \<union> own L h f N) (h, c)" "filling L h1 f0 f N P (h, c)"
proof -
  note i = inv [unfolded inv_def prod.case]
  have f: "LFunction f \<in> l_live L h" using mapped_function(1) [OF laws, of h1 h c f0 f] i f0 by blast
  have ids: "snd ` own L h f N \<subseteq> upvalue_ids L h f" unfolding own_def N_def by (auto intro: nth_in_ids [simplified])
  have "cells_ok L h1 (P \<union> own L h f N) h c"
  proof -
    have "fst (cell L h k) \<notin> snd ` own L h f N" if k: "psi_of c u = Some k" for u k
    proof -
      from cells_live(1-3) [OF laws _ _ _ k, of h1 h P] i
      have "LFunction (fst k) \<in> l_live L h" "1 \<le> snd k" "snd k \<le> length (l_upvalues L h (fst k))" by blast+
      with fresh [OF this(1) psi [OF k]] nth_in_ids [of "snd k" L h "fst k"] ids show ?thesis by auto
    qed
    then show ?thesis using i unfolding cells_ok_def image_Un by blast
  qed
  moreover have "owned L (P \<union> own L h f N) h"
  proof -
    have "LFunction g \<in> l_live L h \<and> j \<in> upvalue_ids L h g \<and> (\<forall>q. LFunction q \<in> l_live L h \<longrightarrow> q \<noteq> g \<longrightarrow> j \<notin> upvalue_ids L h q)"
      if gj: "(g, j) \<in> own L h f N" for g j
    proof -
      from gj have "g = f" "j \<in> snd ` own L h f N" by (force simp: own_def)+
      with ids have "g = f" "j \<in> upvalue_ids L h f" by auto
      with f fresh show ?thesis by blast
    qed
    with i show ?thesis unfolding owned_def by blast
  qed
  ultimately show "inv ok L h1 Q' (P \<union> own L h f N) (h, c)" using i by (simp add: inv_def)
  have "fst (cell L h (f, j)) \<noteq> fst (cell L h (f, n))"
    if "1 \<le> j" "j \<le> length (l_upvalues L h f)" "1 \<le> n" "n \<le> length (l_upvalues L h f)" "j \<noteq> n" for j n
    using that nth_eq_iff_index_eq [OF dist, of "j - 1" "n - 1"] by (auto simp: cell_def)
  then show "filling L h1 f0 f N P (h, c)"
    unfolding filling_def prod.case using f0 new(1) orig by (auto simp: N_def)
qed

lemma complete_insert:
  assumes "complete L h1 (insert r Q) h c" "phi_of c r = Some r'"
    and "LTable r \<in> l_live L h1 \<Longrightarrow> table_copied L h1 (phi_of c) h r r'" "LFunction r \<in> l_live L h1 \<Longrightarrow> shares L h1 h c r r'"
  shows "complete L h1 Q h c"
  unfolding complete_def
proof (intro allI impI)
  fix q q'
  assume q: "phi_of c q = Some q'" "q \<notin> Q"
  show "(LTable q \<in> l_live L h1 \<longrightarrow> table_copied L h1 (phi_of c) h q q') \<and> (LFunction q \<in> l_live L h1 \<longrightarrow> shares L h1 h c q q')"
  proof (cases "q = r")
    case True
    with assms q show ?thesis by simp
  next
    case False
    with q have "q \<notin> insert r Q" by simp
    with assms(1) q(1) show ?thesis unfolding complete_def by blast
  qed
qed

lemma function_done:
  assumes laws: "reading_laws ok L" and inv: "inv ok L h1 (insert f0 Q) P (h, c)" and fill: "filling L h1 f0 f {} P (h, c)"
  shows "inv ok L h1 Q P (h, c)"
proof -
  note i = inv [unfolded inv_def prod.case] and fl = fill [unfolded filling_def prod.case]
  have "shares L h1 h c f0 f"
    unfolding shares_def
  proof (intro conjI list_all2_all_nthI)
    fix j
    assume "j < length (map fst (l_upvalues L h1 f0))"
    with fl have "1 \<le> Suc j" "Suc j \<le> length (l_upvalues L h f)" "Suc j \<notin> {}" by auto
    with fl obtain m where "psi_of c (fst (cell L h1 (f0, Suc j))) = Some m" "fst (cell L h (f, Suc j)) = fst (cell L h m)" by blast
    then show "\<exists>m. psi_of c (map fst (l_upvalues L h1 f0) ! j) = Some m \<and> map fst (l_upvalues L h f) ! j = fst (cell L h m)"
      using \<open>j < _\<close> fl by (auto simp: cell_def)
  qed (use fl in auto)
  moreover have "LTable f0 \<notin> l_live L h1" using one_kind [OF laws] i fl by simp
  moreover have c: "complete L h1 (insert f0 Q) h c" "phi_of c f0 = Some f" using i fl by blast+
  ultimately have "complete L h1 Q h c" by (intro complete_insert [OF c]) simp_all
  with i show ?thesis by (simp add: inv_def)
qed

lemma table_done:
  assumes laws: "reading_laws ok L" and inv: "inv ok L h1 (insert r Q) P (h, c)" and r: "phi_of c r = Some r'" "LTable r \<in> l_live L h1"
    and copied: "table_copied L h1 (phi_of c) h r r'"
  shows "inv ok L h1 Q P (h, c)"
proof -
  note i = inv [unfolded inv_def prod.case]
  have "LFunction r \<notin> l_live L h1" using one_kind [OF laws] i r by simp
  moreover have c: "complete L h1 (insert r Q) h c" using i by blast
  ultimately have "complete L h1 Q h c" using copied by (intro complete_insert [OF c r(1)]) simp_all
  with i show ?thesis by (simp add: inv_def)
qed

lemma ext_new:
  assumes "ext L h1 d {} (h, c) (h', c')" "ext L h1 d {p} (h', c') (h'', c'')" "LTable p \<notin> l_live L h" "LFunction p \<notin> l_live L h"
  shows "ext L h1 d {} (h, c) (h'', c'')"
proof -
  have "ext L h1 d {p} (h, c) (h'', c'')" using ext_trans [OF ext_weaken [OF assms(1)] assms(2)] by simp
  with assms(3,4) show ?thesis unfolding ext_pair unchanged_def by auto
qed

lemma filling_ext:
  assumes laws: "reading_laws ok L" and inv: "inv ok L h1 Q P' (h, c)" and fill: "filling L h1 f0 f N P (h, c)" and ext: "ext L h1 d {} (h, c) (h', c')"
  shows "filling L h1 f0 f N P (h', c')" "own L h' f N = own L h f N"
proof -
  note i = inv [unfolded inv_def prod.case] and fl = fill [unfolded filling_def prod.case] and e = ext [unfolded ext_pair]
  have f: "LFunction f \<in> l_live L h" using mapped_function(1) [OF laws, of h1 h c f0 f] i fl by blast
  then have up: "l_upvalues L h' f = l_upvalues L h f" "l_code L h' f = l_code L h f" using e by (auto simp: unchanged_def)
  have cell: "cell L h' m = cell L h m" if m: "psi_of c u = Some m" for u m
  proof -
    have "LFunction (fst m) \<in> l_live L h" using cells_live(1) [OF laws _ _ _ m, of h1 h P'] i by blast
    with e show ?thesis by (auto simp: cell_def unchanged_def)
  qed
  have fc: "cell L h' (f, j) = cell L h (f, j)" for j using up by (simp add: cell_def)
  show "own L h' f N = own L h f N" by (simp add: own_def fc)
  have le: "phi_of c \<subseteq>\<^sub>m phi_of c'" "psi_of c \<subseteq>\<^sub>m psi_of c'" and "phi_of c f0 = Some f" using e fl by simp_all
  then have "phi_of c' f0 = Some f" using map_le_Some [OF le(1)] by simp
  moreover have "\<exists>m. psi_of c' (fst (cell L h1 (f0, j))) = Some m \<and> fst (cell L h (f, j)) = fst (cell L h' m)"
    if j: "1 \<le> j" "j \<le> length (l_upvalues L h f)" "j \<notin> N" for j
  proof -
    from fl j obtain m where m: "psi_of c (fst (cell L h1 (f0, j))) = Some m" "fst (cell L h (f, j)) = fst (cell L h m)" by blast
    then have "psi_of c' (fst (cell L h1 (f0, j))) = Some m" using map_le_Some [OF le(2)] by simp
    with m cell [OF m(1)] show ?thesis by metis
  qed
  ultimately show "filling L h1 f0 f N P (h', c')"
    unfolding filling_def prod.case fc up by (intro conjI) (use fl in \<open>blast+\<close>)
qed

end
