(* ===== verification/LuaCopy.thy ===== *)
theory LuaCopy
  imports LuaLaws
begin

text \<open>
  Deserialising makes copies: the induction over the depth at which a value was serialised, and the round
  trip of values.
\<close>

section \<open>Deserialising copies\<close>

text \<open>What is asked of a value to be copied: a \<open>char *\<close> holds its strings, and collectors stand under scalar keys.\<close>

fun scalar :: "lval \<Rightarrow> bool" where
  "scalar (LBoolean b) = True" | "scalar (LNumber x) = True" | "scalar (LString s) = True" | "scalar _ = False"

fun portable :: "'h lua \<Rightarrow> 'h \<Rightarrow> lval \<Rightarrow> bool" where
  "portable L h (LString s) = (CHR 0x00 \<notin> set s)"
| "portable L h (LTable r) = (\<forall>(k, x)\<in>set (l_next L h r). fst (unwrap_collector_maybe L h x) \<noteq> None \<longrightarrow> scalar k)"
| "portable L h _ = True"

definition source_ok :: "('h \<Rightarrow> bool) \<Rightarrow> 'h lua \<Rightarrow> 'h \<Rightarrow> lval \<Rightarrow> bool" where
  "source_ok ok L h v \<longleftrightarrow> ok h \<and> exists_in L h v \<and> (\<forall>x. reaches L h v x \<longrightarrow> portable L h x)"

lemma reaches_child: "y \<in> set (children L h x) \<Longrightarrow> reaches L h y z \<Longrightarrow> reaches L h x z"
proof (rotate_tac 1, induction rule: reaches.induct)
  case (reaches_refl v)
  then show ?case by (rule reaches_step [OF reaches.reaches_refl])
qed (auto intro: reaches_step)

lemma exists_unwrapped:
  assumes "reading_laws ok L" "ok h" "exists_in L h x"
  shows "exists_in L h (unwrapped L h x)"
  using assms by (cases x) (auto simp: unwrap_collector_maybe_def reading_laws_def)

lemma source_child:
  assumes laws: "reading_laws ok L" and v: "source_ok ok L h v" and y: "y \<in> set (children L h v)"
  shows "source_ok ok L h y"
proof -
  have ok: "ok h" "exists_in L h v" using v by (simp_all add: source_ok_def)
  have "exists_in L h y"
  proof (cases v)
    case (LTable r)
    with y obtain k x where kx: "(k, x) \<in> set (l_next L h r)" "y = unwrapped L h x \<or> y = k" by auto
    with laws ok LTable have "exists_in L h k" "exists_in L h x" unfolding reading_laws_def by fastforce+
    with kx exists_unwrapped [OF laws ok(1)] show ?thesis by auto
  next
    case (LFunction f)
    with y obtain u x where ux: "(u, x) \<in> set (l_upvalues L h f)" "y = unwrapped L h x" by auto
    with laws ok LFunction have "exists_in L h x" unfolding reading_laws_def by fastforce
    with ux exists_unwrapped [OF laws ok(1)] show ?thesis by auto
  qed (use y in simp_all)
  with v reaches_child [OF y] ok show ?thesis by (auto simp: source_ok_def)
qed

text \<open>The statement of the induction.\<close>

definition pushes :: "('h \<Rightarrow> bool) \<Rightarrow> 'h lua \<Rightarrow> 'h \<Rightarrow> nat \<Rightarrow> bool" where
  "pushes ok L h1 d \<longleftrightarrow> (\<forall>v sv h c Q P. serialize_object L h1 d v = Inr sv \<longrightarrow> source_ok ok L h1 v \<longrightarrow>
     inv ok L h1 Q P (h, c) \<longrightarrow>
     (\<exists>v' h' c'. push_object L sv (h, c) = Inr (v', h', c') \<and> inv ok L h1 Q P (h', c') \<and> ext L h1 d {} (h, c) (h', c')
        \<and> same (phi_of c') v v' \<and> exists_in L h' v'))"

lemma pushesE:
  assumes "pushes ok L h1 d" "serialize_object L h1 d v = Inr sv" "source_ok ok L h1 v" "inv ok L h1 Q P (h, c)"
  obtains v' h' c' where "push_object L sv (h, c) = Inr (v', h', c')" "inv ok L h1 Q P (h', c')" "ext L h1 d {} (h, c) (h', c')"
    "same (phi_of c') v v'" "exists_in L h' v'"
  using assms unfolding pushes_def by blast

definition entry_of :: "'h lua \<Rightarrow> 'h \<Rightarrow> nat \<Rightarrow> lval \<times> lval \<Rightarrow> stable_entry \<Rightarrow> bool" where
  "entry_of L h d kx e \<longleftrightarrow> (\<exists>sk sx. e = Sentry sk sx (fst (unwrap_collector_maybe L h (snd kx)))
     \<and> serialize_object L h d (fst kx) = Inr sk \<and> serialize_object L h d (unwrapped L h (snd kx)) = Inr sx)"

lemma entries_copied_insert:
  assumes "entries_copied L h1 phi h D p" "injective phi" "same phi k k'" "same phi (unwrapped L h1 x) v" "k \<notin> fst ` D"
    and get: "\<And>j. l_rawget L h' p j = (if j = k' then v else l_rawget L h p j)"
  shows "entries_copied L h1 phi h' (insert (k, x) D) p"
  unfolding entries_copied_def
proof (intro conjI ballI allI impI)
  fix z
  assume z: "z \<in> insert (k, x) D"
  show "case z of (k, x) \<Rightarrow> \<exists>k'. same phi k k' \<and> same phi (unwrapped L h1 x) (l_rawget L h' p k')"
  proof (cases "z = (k, x)")
    case True
    with assms(3,4) get show ?thesis by (auto intro!: exI [of _ k'])
  next
    case False
    obtain j y where zz: "z = (j, y)" by (cases z)
    with z False have D: "(j, y) \<in> D" by auto
    with assms(1) obtain j' where j: "same phi j j'" "same phi (unwrapped L h1 y) (l_rawget L h p j')"
      unfolding entries_copied_def by blast
    have "j' \<noteq> k'"
    proof
      assume "j' = k'"
      with j(1) assms(2,3) have "j = k" using same_injective by metis
      with D assms(5) show False by force
    qed
    with j get show ?thesis by (auto simp: zz)
  qed
next
  fix j
  assume "l_rawget L h' p j \<noteq> LNil"
  then have "j = k' \<or> l_rawget L h p j \<noteq> LNil" using get by (auto split: if_splits)
  with assms(1,3) show "\<exists>(k, x)\<in>insert (k, x) D. same phi k j" unfolding entries_copied_def by blast
qed

lemma collect_entry_scalar:
  assumes "serialize_object L h d k = Inr sk" "coll \<noteq> None \<Longrightarrow> scalar k"
  obtains m where "collect_entry r sk coll (h', c) = Inr (h', c\<lparr>collector_map := m\<rparr>)"
proof (cases coll)
  case None
  with that [of "collector_map c"] show ?thesis by (simp add: collect_entry_def)
next
  case (Some q)
  with assms(2) have "scalar k" by simp
  then have "copy_value sk = Inr sk" using assms(1) by (cases d; cases k) auto
  with that Some show ?thesis by (auto simp: collect_entry_def map_collector_def)
qed

lemma push_entries_copies:
  assumes laws: "lua_laws ok L" and d: "pushes ok L h1 d"
  shows "list_all2 (entry_of L h1 d) kxs es \<Longrightarrow> inv ok L h1 (insert r Q) P (h, c) \<Longrightarrow> phi_of c r = Some p \<Longrightarrow> LTable r \<in> l_live L h1 \<Longrightarrow>
    source_ok ok L h1 (LTable r) \<Longrightarrow> set kxs \<subseteq> set (l_next L h1 r) \<Longrightarrow> distinct (map fst kxs) \<Longrightarrow> fst ` D \<inter> fst ` set kxs = {} \<Longrightarrow>
    entries_copied L h1 (phi_of c) h D p \<Longrightarrow>
    \<exists>h' c'. push_entries L p es (h, c) = Inr (h', c') \<and> inv ok L h1 (insert r Q) P (h', c') \<and> ext L h1 d {p} (h, c) (h', c')
      \<and> entries_copied L h1 (phi_of c') h' (D \<union> set kxs) p"
proof (induction kxs es arbitrary: h c D rule: list_all2_induct)
  case Nil
  then show ?case by auto
next
  case (Cons kx kxs e es)
  have rl: "reading_laws ok L" using laws by (simp add: lua_laws_def)
  obtain k x where kx: "kx = (k, x)" by (cases kx)
  let ?x = "unwrapped L h1 x" and ?coll = "fst (unwrap_collector_maybe L h1 x)"
  from Cons.hyps(1) obtain sk sx where e: "e = Sentry sk sx ?coll" "serialize_object L h1 d k = Inr sk" "serialize_object L h1 d ?x = Inr sx"
    by (auto simp: entry_of_def kx)
  have mem: "(k, x) \<in> set (l_next L h1 r)" using Cons.prems kx by auto
  then have ch: "k \<in> set (children L h1 (LTable r))" "?x \<in> set (children L h1 (LTable r))" by (auto intro!: bexI [of _ "(k, x)"])
  note sk = source_child [OF rl Cons.prems(4) ch(1)] and sx = source_child [OF rl Cons.prems(4) ch(2)]
  have portable: "scalar k" if "?coll \<noteq> None"
  proof -
    have "portable L h1 (LTable r)" using Cons.prems(4) by (simp add: source_ok_def del: portable.simps)
    then have "case (k, x) of (k, x) \<Rightarrow> fst (unwrap_collector_maybe L h1 x) \<noteq> None \<longrightarrow> scalar k"
      unfolding portable.simps using mem by (rule bspec)
    with that show ?thesis by simp
  qed
  have kn: "k \<noteq> LNil" "k \<noteq> LNumber NaN" using rl Cons.prems(3,4) mem unfolding reading_laws_def source_ok_def by fastforce+
  obtain k' ha ca where a: "push_object L sk (h, c) = Inr (k', ha, ca)" "inv ok L h1 (insert r Q) P (ha, ca)" "ext L h1 d {} (h, c) (ha, ca)"
    "same (phi_of ca) k k'" "exists_in L ha k'" using pushesE [OF d e(2) sk Cons.prems(1)] by metis
  obtain v' hb cb where b: "push_object L sx (ha, ca) = Inr (v', hb, cb)" "inv ok L h1 (insert r Q) P (hb, cb)" "ext L h1 d {} (ha, ca) (hb, cb)"
    "same (phi_of cb) ?x v'" "exists_in L hb v'" using pushesE [OF d e(3) sx a(2)] by metis
  have ab: "ext L h1 d {} (h, c) (hb, cb)" using ext_trans [OF a(3) b(3)] .
  have le: "phi_of c \<subseteq>\<^sub>m phi_of cb" "phi_of ca \<subseteq>\<^sub>m phi_of cb" using ab b(3) unfolding ext_pair by auto
  have p: "phi_of cb r = Some p" using map_le_Some [OF le(1) Cons.prems(2)] .
  have kb: "same (phi_of cb) k k'" using same_mono [OF a(4) le(2)] .
  have "l_live L ha \<subseteq> l_live L hb" using b(3) unfolding ext_pair by simp
  with a(5) have ek: "exists_in L hb k'" by (cases k') auto
  let ?hc = "l_rawset L p k' v' hb"
  note st = entry_step [OF laws b(2) p Cons.prems(3) insertI1 same_not_nil [OF kb kn(1)] same_not_nan [OF kb kn(2)] ek b(5)]
  have inj: "injective (phi_of cb)" using b(2) by (simp add: inv_def objects_ok_def)
  have old: "entries_copied L h1 (phi_of cb) hb D p"
  proof (rule entries_copied_mono [OF Cons.prems(8) le(1)])
    have "LTable p \<in> l_live L h" "p \<noteq> object_tbl_idx c"
      using mapped_table(1,3) [OF rl _ _ Cons.prems(2,3), of h] Cons.prems(1) unfolding inv_def by auto
    with ab show "l_rawget L hb p j = l_rawget L h p j" for j unfolding ext_pair unchanged_def by auto
  qed
  have "k \<notin> fst ` D" using Cons.prems(7) kx by force
  then have new: "entries_copied L h1 (phi_of cb) ?hc (insert (k, x) D) p"
    by (rule entries_copied_insert [OF old inj kb b(4)]) (rule st(3))
  obtain m where m: "collect_entry p sk ?coll (?hc, cb) = Inr (?hc, cb\<lparr>collector_map := m\<rparr>)"
    using collect_entry_scalar [OF e(2) portable] by metis
  have "\<exists>h' c'. push_entries L p es (?hc, cb\<lparr>collector_map := m\<rparr>) = Inr (h', c') \<and> inv ok L h1 (insert r Q) P (h', c')
      \<and> ext L h1 d {p} (?hc, cb\<lparr>collector_map := m\<rparr>) (h', c') \<and> entries_copied L h1 (phi_of c') h' (insert (k, x) D \<union> set kxs) p"
  proof (rule Cons.IH)
    show "fst ` insert (k, x) D \<inter> fst ` set kxs = {}" using Cons.prems(6,7) kx by auto
  qed (use Cons.prems p st(1) new kx in auto)
  then obtain h' c' where z: "push_entries L p es (?hc, cb\<lparr>collector_map := m\<rparr>) = Inr (h', c')" "inv ok L h1 (insert r Q) P (h', c')"
    "ext L h1 d {p} (?hc, cb\<lparr>collector_map := m\<rparr>) (h', c')" "entries_copied L h1 (phi_of c') h' (insert (k, x) D \<union> set kxs) p" by blast
  have "ext L h1 d {p} (h, c) (?hc, cb\<lparr>collector_map := m\<rparr>)"
    using ext_trans [OF ext_weaken [OF ab order_refl empty_subsetI] st(2)] by simp
  from ext_trans [OF this z(3)] have "ext L h1 d {p} (h, c) (h', c')" .
  with z a(1) b(1) m e(1) kx show ?case
    by (intro exI [of _ h'] exI [of _ c']) auto
qed

definition upvalue_of :: "'h lua \<Rightarrow> 'h \<Rightarrow> nat \<Rightarrow> ptr \<Rightarrow> nat \<Rightarrow> supvalue \<Rightarrow> bool" where
  "upvalue_of L h d f n s \<longleftrightarrow> (\<exists>sx. s = Supvalue (fst (cell L h (f, n))) n sx (fst (unwrap_collector_maybe L h (snd (cell L h (f, n)))))
     \<and> serialize_object L h d (unwrapped L h (snd (cell L h (f, n)))) = Inr sx)"

lemma filling_collector [simp]: "filling L h1 f0 f N P (h, c\<lparr>collector_map := x\<rparr>) = filling L h1 f0 f N P (h, c)"
  by (simp add: filling_def)

lemma collect_upvalue_returns:
  obtains m where "collect_upvalue f n coll (h, c) = Inr (h, c\<lparr>collector_map := m\<rparr>)"
proof (cases coll)
  case None
  with that [of "collector_map c"] show ?thesis by (simp add: collect_upvalue_def)
next
  case (Some q)
  with that show ?thesis by (auto simp: collect_upvalue_def map_collector_def)
qed

lemma shallow_least:
  assumes laws: "reading_laws ok L" and ok: "ok h1" and f: "LFunction f \<in> l_live L h1" "(u, x) \<in> set (l_upvalues L h1 f)"
  shows "\<not> shallow L h1 (least_depth L h1 (unwrapped L h1 x)) u"
proof
  assume "shallow L h1 (least_depth L h1 (unwrapped L h1 x)) u"
  then obtain g y e where g: "LFunction g \<in> l_live L h1" "(u, y) \<in> set (l_upvalues L h1 g)"
    "e < least_depth L h1 (unwrapped L h1 x)" "returns L h1 e (unwrapped L h1 y)" unfolding shallow_def by blast
  have "\<forall>f g u x y. LFunction f \<in> l_live L h1 \<longrightarrow> LFunction g \<in> l_live L h1 \<longrightarrow>
      (u, x) \<in> set (l_upvalues L h1 f) \<longrightarrow> (u, y) \<in> set (l_upvalues L h1 g) \<longrightarrow> x = y"
    using laws ok unfolding reading_laws_def by blast
  with f g(1,2) have "x = y" by blast
  with g(3) least_depth [OF g(4)] show False by simp
qed

lemma set_shared_upvalues_copies:
  assumes laws: "lua_laws ok L" and d: "\<And>e. e \<le> d \<Longrightarrow> pushes ok L h1 e"
  shows "list_all2 (upvalue_of L h1 d f0) ns us \<Longrightarrow> distinct ns \<Longrightarrow> source_ok ok L h1 (LFunction f0) \<Longrightarrow>
    inv ok L h1 (insert f0 Q) (P \<union> own L h f (set ns)) (h, c) \<Longrightarrow> filling L h1 f0 f (set ns) P (h, c) \<Longrightarrow>
    \<exists>h' c'. set_shared_upvalues L f us (h, c) = Inr (h', c') \<and> inv ok L h1 (insert f0 Q) P (h', c')
      \<and> filling L h1 f0 f {} P (h', c') \<and> ext L h1 (Suc d) {f} (h, c) (h', c')"
proof (induction ns us arbitrary: h c rule: list_all2_induct)
  case Nil
  then show ?case by (auto simp: own_def)
next
  case (Cons n ns s us)
  have rl: "reading_laws ok L" using laws by (simp add: lua_laws_def)
  obtain u x where ux: "cell L h1 (f0, n) = (u, x)" by fastforce
  let ?y = "unwrapped L h1 x"
  from Cons.hyps(1) obtain sx where s: "s = Supvalue u n sx (fst (unwrap_collector_maybe L h1 x))"
    "serialize_object L h1 d ?y = Inr sx" by (auto simp: upvalue_of_def ux)
  have n: "n \<in> set (n # ns)" and rest: "set (n # ns) - {n} = set ns" using Cons.prems(1) by auto
  have f0: "LFunction f0 \<in> l_live L h1" "ok h1" using Cons.prems(2) by (simp_all add: source_ok_def)
  have "1 \<le> n" "n \<le> length (l_upvalues L h1 f0)" using Cons.prems(4) n unfolding filling_def by auto
  then have mem: "(u, x) \<in> set (l_upvalues L h1 f0)" unfolding ux [symmetric] cell_def by simp
  have step: "\<exists>h' c'. set_shared_upvalues L f us (hb, cb) = Inr (h', c') \<and> inv ok L h1 (insert f0 Q) P (h', c')
      \<and> filling L h1 f0 f {} P (h', c') \<and> ext L h1 (Suc d) {f} (h, c) (h', c')"
    if "inv ok L h1 (insert f0 Q) (P \<union> own L hb f (set ns)) (hb, cb)" "filling L h1 f0 f (set ns) P (hb, cb)"
      "ext L h1 (Suc d) {f} (h, c) (hb, cb)" for hb cb
  proof -
    have "distinct ns" using Cons.prems(1) by simp
    from Cons.IH [OF this Cons.prems(2) that(1,2)] ext_trans [OF that(3)] show ?thesis by blast
  qed
  show ?case
  proof (cases "psi_of c u")
    case (Some m)
    then have m: "psi_of c (fst (cell L h1 (f0, n))) = Some m" by (simp add: ux)
    note j = join_step [OF laws Cons.prems(3,4) n m]
    have look: "lookup_upvalue c u = Some m" using Some by (simp add: lookup_upvalue_def)
    from step [OF j(2,3) [unfolded rest] j(4)] look j(1) s(1) show ?thesis by simp
  next
    case None
    let ?e = "least_depth L h1 ?y"
    have ret: "returns L h1 d ?y" using s(2) by (auto simp: returns_def)
    note least = least_depth [OF ret]
    then obtain sx' where "serialize_object L h1 ?e ?y = Inr sx'" by (auto simp: returns_def)
    with serialize_functional [OF s(2)] have se: "serialize_object L h1 ?e ?y = Inr sx" by simp
    have "?y \<in> set (children L h1 (LFunction f0))" using mem by force
    then have src: "source_ok ok L h1 ?y" by (rule source_child [OF rl Cons.prems(2)])
    have "pushes ok L h1 ?e" using least by (intro d) simp
    then obtain v ha ca where a: "push_object L sx (h, c) = Inr (v, ha, ca)"
      "inv ok L h1 (insert f0 Q) (P \<union> own L h f (set (n # ns))) (ha, ca)" "ext L h1 ?e {} (h, c) (ha, ca)"
      "same (phi_of ca) ?y v" "exists_in L ha v"
      using pushesE [OF _ se src Cons.prems(3)] by metis
    have "psi_of ca u = None"
      using a(3) None shallow_least [OF rl f0(2,1) mem] unfolding ext_pair by blast
    moreover note fill = filling_ext [OF rl Cons.prems(3,4) a(3)]
    moreover have "shallow L h1 (Suc d) u" unfolding shallow_def using f0(1) mem ret by blast
    moreover have "inv ok L h1 (insert f0 Q) (P \<union> own L ha f (set (n # ns))) (ha, ca)" using a(2) fill(2) by simp
    ultimately obtain hb where b: "l_setupvalue L f n v ha = Some hb"
      "inv ok L h1 (insert f0 Q) (P \<union> own L hb f (set (n # ns) - {n})) (hb, map_upvalue u f n ca)"
      "filling L h1 f0 f (set (n # ns) - {n}) P (hb, map_upvalue u f n ca)" "ext L h1 (Suc d) {f} (ha, ca) (hb, map_upvalue u f n ca)"
      using set_step [OF laws _ fill(1) n ux _ _ a(5,4)] by metis
    obtain m where m: "collect_upvalue f n (fst (unwrap_collector_maybe L h1 x)) (hb, map_upvalue u f n ca)
        = Inr (hb, (map_upvalue u f n ca)\<lparr>collector_map := m\<rparr>)" by (rule collect_upvalue_returns)
    have "ext L h1 (Suc d) {f} (h, c) (ha, ca)" using least by (intro ext_weaken [OF a(3)]) simp_all
    from ext_trans [OF this b(4)] have "ext L h1 (Suc d) {f} (h, c) (hb, (map_upvalue u f n ca)\<lparr>collector_map := m\<rparr>)" by simp
    note step [OF _ _ this, unfolded inv_collector filling_collector, OF b(2,3) [unfolded rest]]
    moreover have "lookup_upvalue c u = None" using None by (simp add: lookup_upvalue_def)
    ultimately show ?thesis using a(1) b(1) m s(1) by simp
  qed
qed

lemma serialized_table:
  assumes "serialize_object L h (Suc d) (LTable r) = Inr sv"
  obtains es where "sv = STable (Stable r es)" "list_all2 (entry_of L h d) (rev (l_next L h r)) es"
proof -
  from assms obtain es where es: "map_res (\<lambda>(k, x). case unwrap_collector_maybe L h x of (coll, x) \<Rightarrow>
       rbind (serialize_object L h d x) (\<lambda>sx. rbind (serialize_object L h d k) (\<lambda>sk. Inr (Sentry sk sx coll)))) (l_next L h r) = Inr es"
    "sv = STable (Stable r (rev es))"
    by (auto simp: serialize_table_def dump_table_entries_def rbind_eq_Inr)
  have "list_all2 (entry_of L h d) (l_next L h r) es"
    using map_res_nth [OF es(1)]
    by (auto simp: list_all2_conv_all_nth entry_of_def rbind_eq_Inr case_prod_beta)
  with es(2) that show ?thesis by simp
qed

lemma serialized_function:
  assumes "serialize_object L h (Suc d) (LFunction f) = Inr sv"
  obtains code us where "sv = SFunction (Sfunction f code us)" "l_dump L h f = Some code"
    "list_all2 (upvalue_of L h d f) (rev [1..<Suc (length (l_upvalues L h f))]) us"
proof -
  let ?n = "length (l_upvalues L h f)"
  from assms obtain code us where us: "dump_function_bytecode L h f = Inr code"
    "map_res (\<lambda>(i, uid, x). serialize_upvalue (serialize_object L h d) L h uid i x) (enumerate 1 (l_upvalues L h f)) = Inr us"
    "sv = SFunction (Sfunction f code (rev us))"
    by (auto simp: serialize_function_def serialize_upvalues_def rbind_eq_Inr)
  note nth = map_res_nth [OF us(2), unfolded length_enumerate]
  have "list_all2 (upvalue_of L h d f) [1..<Suc ?n] us"
  proof (intro list_all2_all_nthI)
    show "length [1..<Suc ?n] = length us" using nth by (simp del: upt_Suc)
    fix i
    assume "i < length [1..<Suc ?n]"
    then have i: "i < ?n" by (simp del: upt_Suc)
    obtain u x where ux: "l_upvalues L h f ! i = (u, x)" by fastforce
    then have c: "cell L h (f, Suc i) = (u, x)" by (simp add: cell_def)
    from nth i have "serialize_upvalue (serialize_object L h d) L h u (Suc i) x = Inr (us ! i)"
      by (auto simp: nth_enumerate_eq ux)
    moreover have "[1..<Suc ?n] ! i = Suc i" using i by (simp del: upt_Suc)
    ultimately show "upvalue_of L h d f ([1..<Suc ?n] ! i) (us ! i)"
      by (auto simp: upvalue_of_def c serialize_upvalue_def rbind_eq_Inr split: prod.splits)
  qed
  moreover have "l_dump L h f = Some code" using us(1) by (simp add: dump_function_bytecode_def split: option.splits if_splits)
  ultimately show ?thesis using us(3) that by (simp del: upt_Suc)
qed

lemma lookup_mapped:
  assumes "phi_of c r = Some p"
  shows "lookup_and_fetch_object L r (h, c) = Some (l_rawget L h (object_tbl_idx c) (LLightuserdata p))"
  using assms by (simp add: lookup_and_fetch_object_def lookup_object_def fetch_object_def)

lemma push_table_copies:
  assumes laws: "lua_laws ok L" and d: "pushes ok L h1 d" and sv: "serialize_object L h1 (Suc d) (LTable r) = Inr sv"
    and src: "source_ok ok L h1 (LTable r)" and inv: "inv ok L h1 Q P (h, c)"
  shows "\<exists>v' h' c'. push_object L sv (h, c) = Inr (v', h', c') \<and> inv ok L h1 Q P (h', c') \<and> ext L h1 (Suc d) {} (h, c) (h', c')
        \<and> same (phi_of c') (LTable r) v' \<and> exists_in L h' v'"
proof -
  have rl: "reading_laws ok L" and tl: "table_laws ok L" using laws by (simp_all add: lua_laws_def)
  have live: "LTable r \<in> l_live L h1" "ok h1" using src by (simp_all add: source_ok_def)
  from serialized_table [OF sv] obtain es where es: "sv = STable (Stable r es)" "list_all2 (entry_of L h1 d) (rev (l_next L h1 r)) es" .
  have i: "ok h" "objects_ok L h1 h c" using inv by (simp_all add: inv_def)
  show ?thesis
  proof (cases "phi_of c r")
    case (Some p)
    from mapped_table [OF rl live(2) i(2) Some live(1)] Some inv show ?thesis by (simp add: es(1) lookup_mapped)
  next
    case None
    obtain p ha where p: "l_newtable L h = (p, ha)" by fastforce
    with tl i(1) have new: "created ok L (LTable p) h ha" "\<And>k. l_rawget L ha p k = LNil" unfolding table_laws_def by blast+
    note st = new_object_step [OF laws inv new(1) None disjI1 [OF conjI [OF refl live(1)]]]
    obtain hb where hb: "new_object L r (LTable p) (ha, c) = (hb, map_object r p c)" using st(3) by (cases "new_object L r (LTable p) (ha, c)") auto
    note st = st [unfolded hb fst_conv snd_conv]
    have phi: "phi_of (map_object r p c) r = Some p" by (simp add: map_object_def)
    have "l_rawget L hb p j = LNil" for j
      using st(4,6) new unfolding unchanged_def created_def by auto
    then have empty: "entries_copied L h1 (phi_of (map_object r p c)) hb {} p" by (simp add: entries_copied_def)
    have dist: "distinct (map fst (rev (l_next L h1 r)))" using rl live by (simp add: reading_laws_def rev_map [symmetric])
    have "set (rev (l_next L h1 r)) \<subseteq> set (l_next L h1 r)" "fst ` {} \<inter> fst ` set (rev (l_next L h1 r)) = {}" by simp_all
    from push_entries_copies [OF laws d es(2) st(1) phi live(1) src this(1) dist this(2) empty]
    obtain h' c' where z: "push_entries L p es (hb, map_object r p c) = Inr (h', c')" "inv ok L h1 (insert r Q) P (h', c')"
      "ext L h1 d {p} (hb, map_object r p c) (h', c')" "entries_copied L h1 (phi_of c') h' ({} \<union> set (rev (l_next L h1 r))) p" by blast
    have "phi_of (map_object r p c) \<subseteq>\<^sub>m phi_of c'" using z(3) unfolding ext_pair by blast
    from map_le_Some [OF this phi] have phi': "phi_of c' r = Some p" .
    have "table_copied L h1 (phi_of c') h' r p" using z(4) by (simp add: table_copied_def)
    note inv' = table_done [OF rl z(2) phi' live(1) this]
    have "ext L h1 (Suc d) {p} (hb, map_object r p c) (h', c')" by (rule ext_weaken [OF z(3)]) simp_all
    moreover have "LTable p \<notin> l_live L h" "LFunction p \<notin> l_live L h" using new(1) by (simp_all add: created_def)
    ultimately have "ext L h1 (Suc d) {} (h, c) (h', c')" by (rule ext_new [OF st(2)])
    moreover have "LTable p \<in> l_live L h'" using mapped_table(1) [OF rl live(2) _ phi' live(1)] inv' by (simp add: inv_def)
    moreover have "lookup_and_fetch_object L r (h, c) = None" using None by (simp add: lookup_and_fetch_object_def lookup_object_def)
    ultimately show ?thesis using p hb z(1) inv' phi' by (simp add: es(1))
  qed
qed

lemma function_laws_load:
  assumes "function_laws ok L"
  shows "ok h \<Longrightarrow> LFunction f \<in> l_live L h \<Longrightarrow> l_dump L h f = Some code \<Longrightarrow> ok h2 \<Longrightarrow>
      \<exists>g h2'. l_loadbuffer L code h2 = Some (g, h2') \<and> l_code L h2' g = l_code L h f
        \<and> length (l_upvalues L h2' g) = length (l_upvalues L h f)"
    "ok h2 \<Longrightarrow> l_loadbuffer L code h2 = Some (g, h') \<Longrightarrow> created ok L (LFunction g) h2 h' \<and> distinct (map fst (l_upvalues L h' g))
        \<and> (\<forall>f. LFunction f \<in> l_live L h2 \<longrightarrow> upvalue_ids L h2 f \<inter> upvalue_ids L h' g = {})"
proof -
  note l = assms [unfolded function_laws_def]
  show "ok h \<Longrightarrow> LFunction f \<in> l_live L h \<Longrightarrow> l_dump L h f = Some code \<Longrightarrow> ok h2 \<Longrightarrow>
      \<exists>g h2'. l_loadbuffer L code h2 = Some (g, h2') \<and> l_code L h2' g = l_code L h f
        \<and> length (l_upvalues L h2' g) = length (l_upvalues L h f)"
    using conjunct1 [OF l] by simp
  show "ok h2 \<Longrightarrow> l_loadbuffer L code h2 = Some (g, h') \<Longrightarrow> created ok L (LFunction g) h2 h' \<and> distinct (map fst (l_upvalues L h' g))
        \<and> (\<forall>f. LFunction f \<in> l_live L h2 \<longrightarrow> upvalue_ids L h2 f \<inter> upvalue_ids L h' g = {})"
    using conjunct1 [OF conjunct2 [OF l]] by simp
qed

lemma push_function_copies:
  assumes laws: "lua_laws ok L" and d: "\<And>e. e \<le> d \<Longrightarrow> pushes ok L h1 e" and sv: "serialize_object L h1 (Suc d) (LFunction r) = Inr sv"
    and src: "source_ok ok L h1 (LFunction r)" and inv: "inv ok L h1 Q P (h, c)"
  shows "\<exists>v' h' c'. push_object L sv (h, c) = Inr (v', h', c') \<and> inv ok L h1 Q P (h', c') \<and> ext L h1 (Suc d) {} (h, c) (h', c')
        \<and> same (phi_of c') (LFunction r) v' \<and> exists_in L h' v'"
proof -
  have rl: "reading_laws ok L" and fl: "function_laws ok L" using laws by (simp_all add: lua_laws_def)
  have live: "LFunction r \<in> l_live L h1" "ok h1" using src by (simp_all add: source_ok_def)
  from serialized_function [OF sv] obtain code us where us: "sv = SFunction (Sfunction r code us)" "l_dump L h1 r = Some code"
    "list_all2 (upvalue_of L h1 d r) (rev [1..<Suc (length (l_upvalues L h1 r))]) us" .
  have i: "ok h" "objects_ok L h1 h c" "cells_ok L h1 P h c" "owned L P h" using inv by (simp_all add: inv_def)
  show ?thesis
  proof (cases "phi_of c r")
    case (Some p)
    from mapped_function [OF rl live(2) i(2) Some live(1)] Some inv show ?thesis by (simp add: us(1) lookup_mapped)
  next
    case None
    have loads: "\<exists>g h2'. l_loadbuffer L code h = Some (g, h2') \<and> l_code L h2' g = l_code L h1 r
        \<and> length (l_upvalues L h2' g) = length (l_upvalues L h1 r)"
      by (rule function_laws_load(1) [OF fl live(2,1) us(2) i(1)])
    then obtain f ha where f: "l_loadbuffer L code h = Some (f, ha)" "l_code L ha f = l_code L h1 r"
      "length (l_upvalues L ha f) = length (l_upvalues L h1 r)" by blast
    have "created ok L (LFunction f) h ha \<and> distinct (map fst (l_upvalues L ha f))
        \<and> (\<forall>g. LFunction g \<in> l_live L h \<longrightarrow> upvalue_ids L h g \<inter> upvalue_ids L ha f = {})"
      by (rule function_laws_load(2) [OF fl i(1) f(1)])
    then have new: "created ok L (LFunction f) h ha" "distinct (map fst (l_upvalues L ha f))"
      "\<forall>g. LFunction g \<in> l_live L h \<longrightarrow> upvalue_ids L h g \<inter> upvalue_ids L ha f = {}" by blast+
    have gone: "LFunction f \<notin> l_live L h" "LTable f \<notin> l_live L h" "l_live L ha = insert (LFunction f) (l_live L h)"
      using new(1) by (simp_all add: created_def)
    note st = new_object_step [OF laws inv new(1) None disjI2 [OF conjI [OF refl conjI [OF live(1) new(3)]]]]
    let ?cb = "map_object r f c"
    obtain hb where hb: "new_object L r (LFunction f) (ha, c) = (hb, ?cb)" using st(3) by (cases "new_object L r (LFunction f) (ha, c)") auto
    note st = st [unfolded hb fst_conv snd_conv]
    have phi: "phi_of ?cb r = Some f" and psi: "psi_of ?cb = psi_of c" by (simp_all add: map_object_def)
    have up: "l_upvalues L hb f = l_upvalues L ha f" "l_code L hb f = l_code L ha f" using st(4) gone unfolding unchanged_def by auto
    have ids: "upvalue_ids L hb g = upvalue_ids L h g" if "LFunction g \<in> l_live L h" for g
      using st(4) new(1) that unfolding unchanged_def created_def upvalue_ids_def by simp
    have nP: "f \<notin> fst ` P" using i(4) gone(1) unfolding owned_def by fastforce
    have nm: "fst m \<noteq> f" if "psi_of c u = Some m" for u m
      using cells_live(1) [OF rl live(2) i(2,3) that] gone(1) by auto
    have fresh: "upvalue_ids L hb g \<inter> upvalue_ids L hb f = {}" if "LFunction g \<in> l_live L hb" "g \<noteq> f" for g
    proof -
      have g: "LFunction g \<in> l_live L h" using that st(5) by simp
      have "upvalue_ids L hb f = upvalue_ids L ha f" by (simp add: upvalue_ids_def up(1))
      with new(3) g ids [OF g] show ?thesis by simp
    qed
    let ?ns = "rev [1..<Suc (length (l_upvalues L h1 r))]"
    have ns: "{1..length (l_upvalues L hb f)} = set ?ns" using up(1) f(3) by auto
    have dist: "distinct (map fst (l_upvalues L hb f))" using new(2) up(1) by simp
    have orig: "l_code L hb f = l_code L h1 r" "length (l_upvalues L hb f) = length (l_upvalues L h1 r)" using up f by simp_all
    have nm': "fst m \<noteq> f" if "psi_of ?cb u = Some m" for u m using nm that by (simp add: psi)
    have start1: "inv ok L h1 (insert r Q) (P \<union> own L hb f (set ?ns)) (hb, ?cb)"
      unfolding ns [symmetric] by (rule own_start(1) [OF st(1) rl phi live(1) nP dist fresh nm' orig])
    have start2: "filling L h1 r f (set ?ns) P (hb, ?cb)"
      unfolding ns [symmetric] by (rule own_start(2) [OF st(1) rl phi live(1) nP dist fresh nm' orig])
    have "distinct ?ns" by (simp del: upt_Suc)
    have "\<exists>h' c'. set_shared_upvalues L f us (hb, ?cb) = Inr (h', c') \<and> inv ok L h1 (insert r Q) P (h', c')
      \<and> filling L h1 r f {} P (h', c') \<and> ext L h1 (Suc d) {f} (hb, ?cb) (h', c')"
      by (rule set_shared_upvalues_copies [OF laws d us(3) \<open>distinct ?ns\<close> src start1 start2])
    then obtain h' c' where z: "set_shared_upvalues L f us (hb, ?cb) = Inr (h', c')" "inv ok L h1 (insert r Q) P (h', c')"
      "filling L h1 r f {} P (h', c')" "ext L h1 (Suc d) {f} (hb, ?cb) (h', c')" by blast
    note inv' = function_done [OF rl z(2,3)]
    have phi': "phi_of c' r = Some f" using z(3) unfolding filling_def by simp
    have "ext L h1 (Suc d) {} (h, c) (h', c')" by (rule ext_new [OF st(2) z(4) gone(2,1)])
    moreover have "LFunction f \<in> l_live L h'" using mapped_function(1) [OF rl live(2) _ phi' live(1)] inv' by (simp add: inv_def)
    moreover have "lookup_and_fetch_object L r (h, c) = None" using None by (simp add: lookup_and_fetch_object_def lookup_object_def)
    ultimately show ?thesis using f(1) hb z(1) inv' phi' by (simp add: us(1) load_function_bytecode_def)
  qed
qed

lemma pushes_all:
  assumes laws: "lua_laws ok L"
  shows "pushes ok L h1 d"
proof (induction d rule: less_induct)
  case (less d)
  show ?case
    unfolding pushes_def
  proof (intro allI impI)
    fix v sv h c Q P
    assume sv: "serialize_object L h1 d v = Inr sv" and src: "source_ok ok L h1 v" and inv: "inv ok L h1 Q P (h, c)"
    obtain e where d: "d = Suc e" using sv by (cases d) auto
    have le: "pushes ok L h1 e'" if "e' \<le> e" for e' using less that d by simp
    let ?goal = "\<exists>v' h' c'. push_object L sv (h, c) = Inr (v', h', c') \<and> inv ok L h1 Q P (h', c') \<and> ext L h1 d {} (h, c) (h', c')
        \<and> same (phi_of c') v v' \<and> exists_in L h' v'"
    have scalar: ?goal if "scalar v"
    proof -
      have "portable L h1 v" using src by (simp add: source_ok_def)
      have "push_object L sv (h, c) = Inr (v, h, c)"
      proof (cases v)
        case (LString s)
        with \<open>portable L h1 v\<close> have "strdup s = s" by (simp add: strdup_def takeWhile_eq_all_conv) metis
        with LString sv d show ?thesis by auto
      qed (use that sv d in auto)
      moreover have "same (phi_of c) v v" "exists_in L h v" using that by (cases v; simp)+
      ultimately show ?thesis using inv by simp
    qed
    show ?goal
    proof (cases v)
      case (LTable r)
      with push_table_copies [OF laws le [OF order_refl] _ _ inv] sv src d show ?thesis by simp
    next
      case (LFunction f)
      with push_function_copies [OF laws le _ _ inv] sv src d show ?thesis by simp
    qed (use scalar sv d in auto)
  qed
qed

section \<open>Round trip\<close>

text \<open>Values copied one after the other with the same cache.\<close>

fun deserialize_values :: "'h lua \<Rightarrow> ptr \<Rightarrow> svalue list \<Rightarrow> 'h \<times> upvalue_cache \<Rightarrow> failure + (lval list \<times> 'h \<times> upvalue_cache)" where
  "deserialize_values L cache_idx [] st = Inr ([], st)"
| "deserialize_values L cache_idx (sv # svs) st =
     rbind (deserialize_value L cache_idx sv st) (\<lambda>(v, st).
     rbind (deserialize_values L cache_idx svs st) (\<lambda>(vs, st). Inr (v # vs, st)))"

definition copies_by :: "(ptr \<Rightarrow> ptr option) \<Rightarrow> (ptr \<Rightarrow> ptr option) \<Rightarrow> 'h lua \<Rightarrow> 'h \<Rightarrow> lval list \<Rightarrow> 'h \<Rightarrow> lval list \<Rightarrow> bool" where
  "copies_by phi psi L h1 vs h vs' \<longleftrightarrow> injective phi \<and> injective psi \<and> list_all2 (same phi) vs vs' \<and> list_all (exists_in L h) vs'
     \<and> (\<forall>r r'. phi r = Some r' \<longrightarrow>
          (LTable r \<in> l_live L h1 \<longrightarrow> LTable r' \<in> l_live L h \<and> table_copied L h1 phi h r r')
          \<and> (LFunction r \<in> l_live L h1 \<longrightarrow> LFunction r' \<in> l_live L h \<and> function_copied L h1 phi psi h r r'))"

definition are_copies :: "'h lua \<Rightarrow> 'h \<Rightarrow> lval list \<Rightarrow> 'h \<Rightarrow> lval list \<Rightarrow> bool" where
  "are_copies L h1 vs h vs' \<longleftrightarrow> (\<exists>phi psi. copies_by phi psi L h1 vs h vs')"

abbreviation idents :: "'h lua \<Rightarrow> 'h \<Rightarrow> upvalue_cache \<Rightarrow> ptr \<Rightarrow> ptr option" where
  "idents L h c \<equiv> \<lambda>u. map_option (\<lambda>m. fst (cell L h m)) (psi_of c u)"

lemma shares_copied:
  assumes laws: "reading_laws ok L" and ok: "ok h1" "ok h" and i: "objects_ok L h1 h c" "cells_ok L h1 P h c" and sh: "shares L h1 h c f f'"
    and live: "LFunction f \<in> l_live L h1" "LFunction f' \<in> l_live L h"
  shows "function_copied L h1 (phi_of c) (idents L h c) h f f'"
  unfolding function_copied_def
proof (intro conjI list_all2_all_nthI)
  have len: "length (l_upvalues L h1 f) = length (l_upvalues L h f')" using sh by (auto simp: shares_def dest: list_all2_lengthD)
  then show "length (l_upvalues L h1 f) = length (l_upvalues L h f')" .
  show "l_code L h f' = l_code L h1 f" using sh by (simp add: shares_def)
  fix j
  assume j: "j < length (l_upvalues L h1 f)"
  obtain u x u' x' where ux: "l_upvalues L h1 f ! j = (u, x)" "l_upvalues L h f' ! j = (u', x')" by fastforce
  from sh j len ux obtain m where m: "psi_of c u = Some m" "u' = fst (cell L h m)"
    unfolding shares_def list_all2_conv_all_nth by fastforce
  obtain g y where g: "LFunction g \<in> l_live L h1" "(u, y) \<in> set (l_upvalues L h1 g)" "same (phi_of c) (unwrapped L h1 y) (snd (cell L h m))"
    using i(2) m(1) unfolding cells_ok_def by blast
  note mc = cells_live [OF laws ok(1) i m(1)]
  have up: "\<forall>h. ok h \<longrightarrow> (\<forall>f g u x y. LFunction f \<in> l_live L h \<longrightarrow> LFunction g \<in> l_live L h \<longrightarrow>
          (u, x) \<in> set (l_upvalues L h f) \<longrightarrow> (u, y) \<in> set (l_upvalues L h g) \<longrightarrow> x = y)"
    using laws unfolding reading_laws_def by blast
  have "(u, x) \<in> set (l_upvalues L h1 f)" "(u', x') \<in> set (l_upvalues L h f')" using j len ux nth_mem by metis+
  moreover have "(u', snd (cell L h m)) \<in> set (l_upvalues L h (fst m))" using mc(2,3) m(2) by (simp add: cell_def)
  ultimately have "x = y" "x' = snd (cell L h m)" using up ok g(1,2) live mc(1) by blast+
  with g(3) m show "(case l_upvalues L h1 f ! j of (u, x) \<Rightarrow> \<lambda>(u', x'). idents L h c u = Some u' \<and> same (phi_of c) (unwrapped L h1 x) x')
      (l_upvalues L h f' ! j)" unfolding ux prod.case by simp
qed

lemma inv_copies:
  assumes laws: "lua_laws ok L" and inv: "inv ok L h1 {} {} (h, c)" and vs: "list_all2 (same (phi_of c)) vs vs'" "list_all (exists_in L h) vs'"
  shows "copies_by (phi_of c) (idents L h c) L h1 vs h vs'"
proof -
  have rl: "reading_laws ok L" using laws by (simp add: lua_laws_def)
  have i: "ok h1" "ok h" "objects_ok L h1 h c" "cells_ok L h1 {} h c" "complete L h1 {} h c" using inv by (simp_all add: inv_def)
  have inj: "injective (phi_of c)" "injective (idents L h c)" using i(3,4) by (simp_all add: objects_ok_def cells_ok_def)
  have t: "LTable r' \<in> l_live L h \<and> table_copied L h1 (phi_of c) h r r'" if "phi_of c r = Some r'" "LTable r \<in> l_live L h1" for r r'
    using mapped_table(1) [OF rl i(1,3) that] i(5) that unfolding complete_def by blast
  have f: "LFunction r' \<in> l_live L h \<and> function_copied L h1 (phi_of c) (idents L h c) h r r'"
    if "phi_of c r = Some r'" "LFunction r \<in> l_live L h1" for r r'
  proof -
    have live: "LFunction r' \<in> l_live L h" by (rule mapped_function(1) [OF rl i(1,3) that])
    have "shares L h1 h c r r'" using i(5) that unfolding complete_def by blast
    from shares_copied [OF rl i(1,2,3,4) this that(2) live] live show ?thesis by simp
  qed
  show ?thesis unfolding copies_by_def using inj vs t f by blast
qed

lemma exists_mono: "exists_in L h v \<Longrightarrow> l_live L h \<subseteq> l_live L h' \<Longrightarrow> exists_in L h' v"
  by (cases v) auto

lemma deserialize_values_copy:
  assumes laws: "lua_laws ok L"
  shows "map_res (serialize_value L h1 d) vs = Inr svs \<Longrightarrow> list_all (source_ok ok L h1) vs \<Longrightarrow> inv ok L h1 {} {} (h, c) \<Longrightarrow>
    object_tbl_idx c = idx \<Longrightarrow>
    \<exists>vs' h' c'. deserialize_values L idx svs (h, c) = Inr (vs', h', c') \<and> inv ok L h1 {} {} (h', c') \<and> ext L h1 d {} (h, c) (h', c')
      \<and> list_all2 (same (phi_of c')) vs vs' \<and> list_all (exists_in L h') vs'"
proof (induction vs arbitrary: svs h c)
  case Nil
  then show ?case by auto
next
  case (Cons v vs)
  from Cons.prems(1) obtain sv svs' where sv: "serialize_object L h1 d v = Inr sv" "map_res (serialize_value L h1 d) vs = Inr svs'" "svs = sv # svs'"
    by (auto simp: rbind_eq_Inr serialize_value_def [of L h1 d v])
  have src: "source_ok ok L h1 v" "list_all (source_ok ok L h1) vs" using Cons.prems(2) by simp_all
  obtain v' ha ca where a: "push_object L sv (h, c) = Inr (v', ha, ca)" "inv ok L h1 {} {} (ha, ca)" "ext L h1 d {} (h, c) (ha, ca)"
    "same (phi_of ca) v v'" "exists_in L ha v'" using pushesE [OF pushes_all [OF laws] sv(1) src(1) Cons.prems(3)] by metis
  have idx: "object_tbl_idx ca = idx" using a(3) Cons.prems(4) unfolding ext_pair by simp
  have c: "c\<lparr>object_tbl_idx := idx\<rparr> = c" using Cons.prems(4) by simp
  from Cons.IH [OF sv(2) src(2) a(2) idx] obtain vs' h' c' where b: "deserialize_values L idx svs' (ha, ca) = Inr (vs', h', c')"
    "inv ok L h1 {} {} (h', c')" "ext L h1 d {} (ha, ca) (h', c')" "list_all2 (same (phi_of c')) vs vs'" "list_all (exists_in L h') vs'" by blast
  have "phi_of ca \<subseteq>\<^sub>m phi_of c'" "l_live L ha \<subseteq> l_live L h'" using b(3) unfolding ext_pair by simp_all
  then have "same (phi_of c') v v'" "exists_in L h' v'" using same_mono [OF a(4)] exists_mono [OF a(5)] by blast+
  with a(1) b ext_trans [OF a(3) b(3)] sv(3) c show ?case by (simp add: deserialize_value_def)
qed

text \<open>
  C7: Round trip. Let values of one interpreter be serialised, and their strings hold no NUL and collectors in their
  tables stand under scalar keys. Then deserialising them, one after the other with one new cache and a table for the
  objects, never fails, in any state of the second interpreter. The results are copies: each table has
  copies of exactly the entries of the original, taken out of their collectors; each function is equivalent to
  the original; tables, functions and upvalues that were shared, within a value or by several, are shared
  in the same way, and what was different stays different. No object that was there before is changed, but for
  the table of objects.
\<close>

theorem values_roundtrip:
  assumes "lua_laws ok L" "ok h1" "ok h2" "LTable cache_idx \<in> l_live L h2" "list_all (source_ok ok L h1) vs"
    and "map_res (serialize_value L h1 d) vs = Inr svs"
  shows "\<exists>vs' h' c'. deserialize_values L cache_idx svs (h2, upvalue_cache_new) = Inr (vs', h', c')
    \<and> are_copies L h1 vs h' vs' \<and> unchanged L {cache_idx} {} h2 h'"
proof -
  let ?c = "upvalue_cache_new\<lparr>object_tbl_idx := cache_idx\<rparr>"
  have "inv ok L h1 {} {} (h2, ?c)"
    using assms(2-4) by (simp add: inv_def upvalue_cache_new_def objects_ok_def cells_ok_def injective_def owned_def complete_def)
  from deserialize_values_copy [OF assms(1,6,5) this, of cache_idx]
  obtain vs' h' c' where z: "deserialize_values L cache_idx svs (h2, ?c) = Inr (vs', h', c')" "inv ok L h1 {} {} (h', c')"
    "ext L h1 d {} (h2, ?c) (h', c')" "list_all2 (same (phi_of c')) vs vs'" "list_all (exists_in L h') vs'" by auto
  have "\<exists>c''. deserialize_values L cache_idx svs (h2, upvalue_cache_new) = Inr (vs', h', c'')"
    using z(1) by (cases svs) (auto simp: deserialize_value_def)
  moreover have "are_copies L h1 vs h' vs'" using inv_copies [OF assms(1) z(2,4,5)] unfolding are_copies_def by blast
  moreover have "unchanged L {cache_idx} {} h2 h'" using z(3) unfolding ext_pair by simp
  ultimately show ?thesis by blast
qed

end
