(* ===== verification/LuaHeap.thy ===== *)
theory LuaHeap
  imports LuaLaws
begin

text \<open>
  An interpreter that computes and keeps the laws: a heap of tables, functions and the cells of upvalues.
\<close>

section \<open>An interpreter\<close>

text \<open>
  Tables are lists of entries, functions have a code and a list of cells for their upvalues, and all
  pointers are numbers below \<open>hp_fresh\<close>. A dump holds the code and the number of the upvalues in unary.
\<close>

record heap =
  hp_tables :: "ptr \<Rightarrow> (lval \<times> lval) list option"
  hp_functions :: "ptr \<Rightarrow> (nat \<times> ptr list) option"
  hp_cells :: "ptr \<Rightarrow> lval"
  hp_collectors :: "ptr set"
  hp_fresh :: ptr

definition heap_rawget :: "heap \<Rightarrow> ptr \<Rightarrow> lval \<Rightarrow> lval" where
  "heap_rawget h r k = (case hp_tables h r of None \<Rightarrow> LNil | Some es \<Rightarrow> (case map_of es k of None \<Rightarrow> LNil | Some x \<Rightarrow> x))"

text \<open>The length of the sequence the table begins with.\<close>

definition heap_objlen :: "heap \<Rightarrow> ptr \<Rightarrow> nat" where
  "heap_objlen h r = (case hp_tables h r of None \<Rightarrow> 0
   | Some es \<Rightarrow> length (takeWhile (\<lambda>i. heap_rawget h r (LNumber (Fin (real i))) \<noteq> LNil) [1..<Suc (length es)]))"

definition heap_rawset :: "ptr \<Rightarrow> lval \<Rightarrow> lval \<Rightarrow> heap \<Rightarrow> heap" where
  "heap_rawset r k v h = (case hp_tables h r of None \<Rightarrow> h
   | Some es \<Rightarrow> h\<lparr>hp_tables := (hp_tables h)(r \<mapsto> filter (\<lambda>e. fst e \<noteq> k) es @ (if v = LNil then [] else [(k, v)]))\<rparr>)"

definition heap_upvalues :: "heap \<Rightarrow> ptr \<Rightarrow> (ptr \<times> lval) list" where
  "heap_upvalues h f = (case hp_functions h f of None \<Rightarrow> [] | Some (code, cs) \<Rightarrow> map (\<lambda>u. (u, hp_cells h u)) cs)"

definition heap_newtable :: "heap \<Rightarrow> ptr \<times> heap" where
  "heap_newtable h = (hp_fresh h, h\<lparr>hp_tables := (hp_tables h)(hp_fresh h \<mapsto> []), hp_collectors := hp_collectors h - {hp_fresh h},
     hp_fresh := hp_fresh h + 1\<rparr>)"

definition heap_dump :: "heap \<Rightarrow> ptr \<Rightarrow> byte list option" where
  "heap_dump h f = map_option (\<lambda>(code, cs). replicate code 1 @ [0] @ replicate (length cs) 1) (hp_functions h f)"

definition heap_loadbuffer :: "byte list \<Rightarrow> heap \<Rightarrow> (ptr \<times> heap) option" where
  "heap_loadbuffer bs h = (let code = length (takeWhile (\<lambda>b. b = 1) bs); n = length bs - code - 1; f = hp_fresh h; us = [f + 1..<f + 1 + n] in
     if 0 \<in> set bs
     then Some (f, h\<lparr>hp_functions := (hp_functions h)(f \<mapsto> (code, us)), hp_cells := (\<lambda>u. if u \<in> set us then LNil else hp_cells h u),
       hp_fresh := f + 1 + n\<rparr>)
     else None)"

definition heap_setupvalue :: "ptr \<Rightarrow> nat \<Rightarrow> lval \<Rightarrow> heap \<Rightarrow> heap option" where
  "heap_setupvalue f n v h = (case hp_functions h f of None \<Rightarrow> None
   | Some (code, cs) \<Rightarrow> if 1 \<le> n \<and> n \<le> length cs then Some (h\<lparr>hp_cells := (hp_cells h)(cs ! (n - 1) := v)\<rparr>) else None)"

definition heap_upvaluejoin :: "ptr \<Rightarrow> nat \<Rightarrow> ptr \<Rightarrow> nat \<Rightarrow> heap \<Rightarrow> heap" where
  "heap_upvaluejoin f n g m h = (case (hp_functions h f, hp_functions h g) of
     (Some (code, cs), Some (code', cs')) \<Rightarrow> h\<lparr>hp_functions := (hp_functions h)(f \<mapsto> (code, cs[n - 1 := cs' ! (m - 1)]))\<rparr>
   | _ \<Rightarrow> h)"

definition heap_lua :: "heap lua" where
  "heap_lua = \<lparr>
     l_live = (\<lambda>h. LTable ` dom (hp_tables h) \<union> LFunction ` dom (hp_functions h)),
     l_next = (\<lambda>h r. case hp_tables h r of None \<Rightarrow> [] | Some es \<Rightarrow> es),
     l_rawget = heap_rawget,
     l_collector = (\<lambda>h r. r \<in> hp_collectors h),
     l_objlen = heap_objlen,
     l_code = (\<lambda>h f. case hp_functions h f of None \<Rightarrow> 0 | Some (code, cs) \<Rightarrow> code),
     l_dump = heap_dump, l_upvalues = heap_upvalues, l_newtable = heap_newtable, l_rawset = heap_rawset,
     l_loadbuffer = heap_loadbuffer, l_setupvalue = heap_setupvalue, l_upvaluejoin = heap_upvaluejoin\<rparr>"

definition value_ok :: "heap \<Rightarrow> lval \<Rightarrow> bool" where
  "value_ok h v = exists_in heap_lua h v"

definition heap_ok :: "heap \<Rightarrow> bool" where
  "heap_ok h \<longleftrightarrow>
     (\<forall>r es. hp_tables h r = Some es \<longrightarrow> r < hp_fresh h \<and> hp_functions h r = None \<and> distinct (map fst es)
        \<and> (\<forall>(k, x)\<in>set es. k \<noteq> LNil \<and> k \<noteq> LNumber NaN \<and> value_ok h k \<and> value_ok h x))
     \<and> (\<forall>f code cs. hp_functions h f = Some (code, cs) \<longrightarrow> f < hp_fresh h
        \<and> (\<forall>u\<in>set cs. u < hp_fresh h \<and> value_ok h (hp_cells h u)))"

lemma heap_live [simp]:
  "LTable r \<in> l_live heap_lua h \<longleftrightarrow> hp_tables h r \<noteq> None" "LFunction f \<in> l_live heap_lua h \<longleftrightarrow> hp_functions h f \<noteq> None"
  by (auto simp: heap_lua_def)

lemma heap_lua_simps [simp]:
  "l_next heap_lua h r = (case hp_tables h r of None \<Rightarrow> [] | Some es \<Rightarrow> es)" "l_rawget heap_lua = heap_rawget"
  "l_collector heap_lua h r = (r \<in> hp_collectors h)" "l_dump heap_lua = heap_dump" "l_upvalues heap_lua = heap_upvalues"
  "l_code heap_lua h f = (case hp_functions h f of None \<Rightarrow> 0 | Some (code, cs) \<Rightarrow> code)"
  "l_objlen heap_lua = heap_objlen" "l_newtable heap_lua = heap_newtable" "l_rawset heap_lua = heap_rawset" "l_loadbuffer heap_lua = heap_loadbuffer"
  "l_setupvalue heap_lua = heap_setupvalue" "l_upvaluejoin heap_lua = heap_upvaluejoin"
  by (simp_all add: heap_lua_def)

lemma heap_objlen_cells [simp]: "heap_objlen (h\<lparr>hp_cells := x\<rparr>) r = heap_objlen h r"
  by (simp add: heap_objlen_def heap_rawget_def split: option.split)

lemma value_ok_simps [simp]: "value_ok h (LTable r) = (hp_tables h r \<noteq> None)" "value_ok h (LFunction f) = (hp_functions h f \<noteq> None)"
  "value_ok h LNil" "value_ok h (LBoolean b)" "value_ok h (LNumber x)" "value_ok h (LString s)" "value_ok h (LLightuserdata p)"
  "value_ok h (LUserdata p)" "value_ok h (LThread p)"
  by (simp_all add: value_ok_def)

lemma value_ok_mono:
  "value_ok h v \<Longrightarrow> dom (hp_tables h) \<subseteq> dom (hp_tables h') \<Longrightarrow> dom (hp_functions h) \<subseteq> dom (hp_functions h') \<Longrightarrow> value_ok h' v"
  by (cases v) (simp_all add: subset_iff domIff del: not_None_eq)

lemma heap_tables_ok:
  assumes "heap_ok h" "hp_tables h r = Some es"
  shows "r < hp_fresh h" "hp_functions h r = None" "distinct (map fst es)"
    "(k, x) \<in> set es \<Longrightarrow> k \<noteq> LNil \<and> k \<noteq> LNumber NaN \<and> value_ok h k \<and> value_ok h x"
  using assms unfolding heap_ok_def by blast+

lemma heap_functions_ok:
  assumes "heap_ok h" "hp_functions h f = Some (code, cs)"
  shows "f < hp_fresh h" "u \<in> set cs \<Longrightarrow> u < hp_fresh h \<and> value_ok h (hp_cells h u)"
  using assms unfolding heap_ok_def by blast+

lemma heap_reading: "reading_laws heap_ok heap_lua"
  unfolding reading_laws_def
proof (intro allI impI conjI ballI)
  fix h r assume ok: "heap_ok h" and r: "LTable r \<in> l_live heap_lua h"
  then obtain es where es: "hp_tables h r = Some es" by auto
  note t = heap_tables_ok [OF ok es]
  show "LFunction r \<notin> l_live heap_lua h" "distinct (map fst (l_next heap_lua h r))" using t es by simp_all
  show "case kx of (k, x) \<Rightarrow> k \<noteq> LNil \<and> k \<noteq> LNumber NaN \<and> exists_in heap_lua h k \<and> exists_in heap_lua h x"
    if "kx \<in> set (l_next heap_lua h r)" for kx
    using t(4) that es by (auto simp: value_ok_def)
  show "exists_in heap_lua h (l_rawget heap_lua h r k)" for k
  proof (cases "map_of es k")
    case (Some x)
    from t(4) [OF map_of_SomeD [OF this]] Some es show ?thesis by (simp add: heap_rawget_def value_ok_def)
  qed (simp add: heap_rawget_def es)
next
  fix h f ux assume ok: "heap_ok h" and f: "LFunction f \<in> l_live heap_lua h" and ux: "ux \<in> set (l_upvalues heap_lua h f)"
  then obtain code cs where cs: "hp_functions h f = Some (code, cs)" by auto
  from heap_functions_ok(2) [OF ok cs] ux show "case ux of (u, x) \<Rightarrow> exists_in heap_lua h x"
    by (auto simp: heap_upvalues_def cs value_ok_def)
next
  fix h f g u x y
  assume "(u, x) \<in> set (l_upvalues heap_lua h f)" "(u, y) \<in> set (l_upvalues heap_lua h g)"
  then show "x = y" by (auto simp: heap_upvalues_def split: option.splits)
qed

lemma heap_tableI:
  assumes ok: "heap_ok h"
    and dom: "dom (hp_tables h) \<subseteq> dom (hp_tables h')" "dom (hp_functions h) \<subseteq> dom (hp_functions h')" "hp_fresh h \<le> hp_fresh h'"
    and t: "\<And>r es. hp_tables h' r = Some es \<Longrightarrow> hp_tables h r \<noteq> Some es \<Longrightarrow> r < hp_fresh h' \<and> distinct (map fst es)
        \<and> (\<forall>(k, x)\<in>set es. k \<noteq> LNil \<and> k \<noteq> LNumber NaN \<and> value_ok h' k \<and> value_ok h' x)"
    and f: "\<And>f code cs u. hp_functions h' f = Some (code, cs) \<Longrightarrow> f < hp_fresh h'"
      "\<And>f code cs u. hp_functions h' f = Some (code, cs) \<Longrightarrow> u \<in> set cs \<Longrightarrow> u < hp_fresh h' \<and> value_ok h' (hp_cells h' u)"
    and one: "\<And>r. hp_tables h' r \<noteq> None \<Longrightarrow> hp_functions h' r = None"
  shows "heap_ok h'"
  unfolding heap_ok_def
proof (intro conjI allI impI)
  fix r es assume r: "hp_tables h' r = Some es"
  show "hp_functions h' r = None" using one r by simp
  have "r < hp_fresh h' \<and> distinct (map fst es) \<and> (\<forall>(k, x)\<in>set es. k \<noteq> LNil \<and> k \<noteq> LNumber NaN \<and> value_ok h' k \<and> value_ok h' x)"
  proof (cases "hp_tables h r = Some es")
    case True
    note old = heap_tables_ok [OF ok True]
    have "k \<noteq> LNil \<and> k \<noteq> LNumber NaN \<and> value_ok h' k \<and> value_ok h' x" if "(k, x) \<in> set es" for k x
      using old(4) [OF that] value_ok_mono [OF _ dom(1,2)] by blast
    with old(1,3) dom(3) show ?thesis by auto
  qed (use t r in simp)
  then show "r < hp_fresh h'" "distinct (map fst es)"
    "\<forall>(k, x)\<in>set es. k \<noteq> LNil \<and> k \<noteq> LNumber NaN \<and> value_ok h' k \<and> value_ok h' x" by blast+
qed (use f in blast)+

lemma heap_one_kind: "heap_ok h \<Longrightarrow> hp_tables h r \<noteq> None \<Longrightarrow> hp_functions h r = None"
  using heap_tables_ok(2) by blast

lemma heap_fresh: "heap_ok h \<Longrightarrow> hp_fresh h \<le> p \<Longrightarrow> hp_tables h p = None \<and> hp_functions h p = None"
  using heap_tables_ok(1) [of h p] heap_functions_ok(1) [of h p] by (metis not_None_eq not_le surj_pair)

lemma heap_newtable_law:
  assumes ok: "heap_ok h" and new: "heap_newtable h = (r, h')"
  shows "created heap_ok heap_lua (LTable r) h h' \<and> (\<forall>k. heap_rawget h' r k = LNil)"
proof -
  have r: "r = hp_fresh h" "h' = h\<lparr>hp_tables := (hp_tables h)(r \<mapsto> []), hp_collectors := hp_collectors h - {r}, hp_fresh := r + 1\<rparr>"
    using new by (auto simp: heap_newtable_def)
  have fresh: "hp_tables h r = None" "hp_functions h r = None" using heap_fresh [OF ok, of r] r(1) by simp_all
  have "heap_ok h'"
  proof (rule heap_tableI [OF ok])
    fix f code cs u
    assume "hp_functions h' f = Some (code, cs)"
    then have f: "hp_functions h f = Some (code, cs)" using r(2) by simp
    show "f < hp_fresh h'" using heap_functions_ok(1) [OF ok f] r by simp
    assume "u \<in> set cs"
    from heap_functions_ok(2) [OF ok f this] value_ok_mono [of h _ h'] r show "u < hp_fresh h' \<and> value_ok h' (hp_cells h' u)"
      by (auto simp: less_Suc_eq)
  next
    fix q assume "hp_tables h' q \<noteq> None"
    with heap_one_kind [OF ok, of q] r fresh show "hp_functions h' q = None" by (auto split: if_splits)
  qed (use r in \<open>auto split: if_splits\<close>)
  moreover have "l_live heap_lua h' = insert (LTable r) (l_live heap_lua h)" by (auto simp: heap_lua_def r(2))
  moreover have "unchanged heap_lua {} {} h h'"
    using fresh by (auto simp: unchanged_def r(2) heap_rawget_def heap_objlen_def heap_upvalues_def split: option.splits)
  moreover have "heap_rawget h' r k = LNil" for k by (simp add: heap_rawget_def r(2))
  ultimately show ?thesis using fresh by (simp add: created_def)
qed

lemma map_of_filter_key: "map_of (filter (\<lambda>e. fst e \<noteq> k) es) j = (if j = k then None else map_of es j)"
  by (induction es) auto

lemma heap_rawset_law:
  assumes ok: "heap_ok h" and r: "hp_tables h r \<noteq> None" and k: "k \<noteq> LNil" "k \<noteq> LNumber NaN" "value_ok h k" "value_ok h v"
  defines "h' \<equiv> heap_rawset r k v h"
  shows "heap_ok h' \<and> l_live heap_lua h' = l_live heap_lua h \<and> unchanged heap_lua {r} {} h h'
    \<and> (\<forall>j. heap_rawget h' r j = (if j = k then v else heap_rawget h r j))"
proof -
  obtain es where es: "hp_tables h r = Some es" using r by blast
  let ?es = "filter (\<lambda>e. fst e \<noteq> k) es @ (if v = LNil then [] else [(k, v)])"
  have h': "h' = h\<lparr>hp_tables := (hp_tables h)(r \<mapsto> ?es)\<rparr>" by (simp add: h'_def heap_rawset_def es)
  have dom: "dom (hp_tables h) = dom (hp_tables h')" "dom (hp_functions h) = dom (hp_functions h')" using es by (auto simp: h')
  have val: "value_ok h' w" if "value_ok h w" for w using value_ok_mono [OF that, of h'] dom by simp
  note t = heap_tables_ok [OF ok es]
  have "heap_ok h'"
  proof (rule heap_tableI [OF ok])
    fix q qs
    assume "hp_tables h' q = Some qs" "hp_tables h q \<noteq> Some qs"
    then have q: "q = r" "qs = ?es" using h' by (auto split: if_splits)
    have "distinct (map fst ?es)" using t(3) by (auto simp: distinct_map_filter)
    moreover have "\<forall>(k, x)\<in>set ?es. k \<noteq> LNil \<and> k \<noteq> LNumber NaN \<and> value_ok h' k \<and> value_ok h' x"
      using t(4) val k by (auto split: if_splits)
    ultimately show "q < hp_fresh h' \<and> distinct (map fst qs)
        \<and> (\<forall>(k, x)\<in>set qs. k \<noteq> LNil \<and> k \<noteq> LNumber NaN \<and> value_ok h' k \<and> value_ok h' x)" using t(1) q h' by simp
  next
    fix f code cs u
    assume "hp_functions h' f = Some (code, cs)"
    then have f: "hp_functions h f = Some (code, cs)" using h' by simp
    show "f < hp_fresh h'" using heap_functions_ok(1) [OF ok f] h' by simp
    assume "u \<in> set cs"
    from heap_functions_ok(2) [OF ok f this] val h' show "u < hp_fresh h' \<and> value_ok h' (hp_cells h' u)" by simp
  next
    fix q assume "hp_tables h' q \<noteq> None"
    with heap_one_kind [OF ok, of q] h' r show "hp_functions h' q = None" by (auto split: if_splits)
  qed (use dom h' in simp_all)
  moreover have "l_live heap_lua h' = l_live heap_lua h" using dom by (simp add: heap_lua_def)
  moreover have "unchanged heap_lua {r} {} h h'"
    by (auto simp: unchanged_def h' heap_rawget_def heap_objlen_def heap_upvalues_def split: option.splits)
  moreover have "heap_rawget h' r j = (if j = k then v else heap_rawget h r j)" for j
    by (auto simp: heap_rawget_def h' es map_of_filter_key map_add_def split: option.split)
  ultimately show ?thesis by blast
qed

lemma heap_table_laws: "table_laws heap_ok heap_lua"
  unfolding table_laws_def
proof (intro conjI allI impI)
  fix h r k v
  assume "heap_ok h" "LTable r \<in> l_live heap_lua h" "k \<noteq> LNil" "k \<noteq> LNumber NaN" "exists_in heap_lua h k" "exists_in heap_lua h v"
  then have w: "heap_ok (heap_rawset r k v h) \<and> l_live heap_lua (heap_rawset r k v h) = l_live heap_lua h \<and> unchanged heap_lua {r} {} h (heap_rawset r k v h)
    \<and> (\<forall>j. heap_rawget (heap_rawset r k v h) r j = (if j = k then v else heap_rawget h r j))"
    by (intro heap_rawset_law) (simp_all add: value_ok_def)
  then show "heap_ok (l_rawset heap_lua r k v h)" "l_live heap_lua (l_rawset heap_lua r k v h) = l_live heap_lua h"
    "unchanged heap_lua {r} {} h (l_rawset heap_lua r k v h)"
    "l_rawget heap_lua (l_rawset heap_lua r k v h) r j = (if j = k then v else l_rawget heap_lua h r j)" for j by simp_all
qed (use heap_newtable_law in simp_all)

lemma takeWhile_ones: "takeWhile (\<lambda>b. b = (1 :: byte)) (replicate n 1 @ 0 # bs) = replicate n 1"
  by (induction n) simp_all

lemma heap_loads_dump:
  assumes f: "hp_functions h f = Some (code, cs)"
  shows "\<exists>g h2'. heap_loadbuffer (replicate code 1 @ [0] @ replicate (length cs) 1) h2 = Some (g, h2')
    \<and> (\<exists>us. hp_functions h2' g = Some (code, us) \<and> length us = length cs)"
  by (simp add: heap_loadbuffer_def takeWhile_ones Let_def del: upt_Suc)

lemma heap_load_law:
  assumes ok: "heap_ok h" and load: "heap_loadbuffer bs h = Some (g, h')"
  shows "created heap_ok heap_lua (LFunction g) h h' \<and> distinct (map fst (heap_upvalues h' g))
    \<and> (\<forall>f. hp_functions h f \<noteq> None \<longrightarrow> upvalue_ids heap_lua h f \<inter> upvalue_ids heap_lua h' g = {})"
proof -
  note upt_Suc [simp del]
  obtain code n where g: "g = hp_fresh h" and h': "h' = h\<lparr>hp_functions := (hp_functions h)(g \<mapsto> (code, [g + 1..<g + 1 + n])),
      hp_cells := (\<lambda>u. if u \<in> set [g + 1..<g + 1 + n] then LNil else hp_cells h u), hp_fresh := g + 1 + n\<rparr>"
    using load by (auto simp: heap_loadbuffer_def Let_def split: if_splits)
  have fresh: "hp_tables h g = None" "hp_functions h g = None" using heap_fresh [OF ok, of g] g by simp_all
  have old: "f < g" "u \<in> set cs \<Longrightarrow> u < g \<and> value_ok h (hp_cells h u)" if "hp_functions h f = Some (code, cs)" for f code cs u
    using heap_functions_ok [OF ok that] g by simp_all
  have val: "value_ok h' v" if "value_ok h v" for v using value_ok_mono [OF that, of h'] by (auto simp: h')
  have "heap_ok h'"
  proof (rule heap_tableI [OF ok])
    fix f c cs u
    assume f: "hp_functions h' f = Some (c, cs)"
    show "f < hp_fresh h'" using f old(1) [of f] by (auto simp: h' split: if_splits)
    assume u: "u \<in> set cs"
    show "u < hp_fresh h' \<and> value_ok h' (hp_cells h' u)"
    proof (cases "f = g")
      case True
      with f u show ?thesis by (auto simp: h')
    next
      case False
      with f have "hp_functions h f = Some (c, cs)" by (simp add: h')
      from old(2) [OF this u] val show ?thesis by (auto simp: h')
    qed
  next
    fix q assume "hp_tables h' q \<noteq> None"
    with heap_one_kind [OF ok, of q] fresh show "hp_functions h' q = None" by (auto simp: h' split: if_splits)
  qed (use g in \<open>auto simp: h'\<close>)
  moreover have "l_live heap_lua h' = insert (LFunction g) (l_live heap_lua h)" by (auto simp: heap_lua_def h')
  moreover have up: "heap_upvalues h' f = heap_upvalues h f" if f: "hp_functions h f \<noteq> None" for f
  proof -
    obtain c cs where cs: "hp_functions h f = Some (c, cs)" using f by auto
    then have "f \<noteq> g" using fresh by auto
    moreover have "\<forall>u\<in>set cs. u < g" using old(2) [OF cs] by blast
    ultimately show ?thesis by (auto simp: heap_upvalues_def cs h')
  qed
  moreover have "unchanged heap_lua {} {} h h'"
    using fresh up by (auto simp: unchanged_def heap_rawget_def heap_objlen_def h' split: option.splits)
  moreover have "upvalue_ids heap_lua h' g = set [g + 1..<g + 1 + n]" "distinct (map fst (heap_upvalues h' g))"
    by (simp_all add: upvalue_ids_def heap_upvalues_def h' image_image comp_def)
  moreover have "upvalue_ids heap_lua h f \<inter> set [g + 1..<g + 1 + n] = {}" if f: "hp_functions h f \<noteq> None" for f
  proof -
    obtain c cs where cs: "hp_functions h f = Some (c, cs)" using f by auto
    have "\<forall>u\<in>set cs. u < g" using old(2) [OF cs] by blast
    then show ?thesis by (auto simp: upvalue_ids_def heap_upvalues_def cs)
  qed
  ultimately show ?thesis using fresh by (simp add: created_def)
qed

lemma heap_set_law:
  assumes ok: "heap_ok h" and f: "hp_functions h f \<noteq> None" and n: "1 \<le> n" "n \<le> length (heap_upvalues h f)" and v: "value_ok h v"
  shows "\<exists>h'. heap_setupvalue f n v h = Some h' \<and> heap_ok h' \<and> l_live heap_lua h' = l_live heap_lua h \<and> unchanged heap_lua {} UNIV h h'
    \<and> (\<forall>g. heap_upvalues h' g = map (\<lambda>(u, x). (u, if u = fst (heap_upvalues h f ! (n - 1)) then v else x)) (heap_upvalues h g))"
proof -
  obtain code cs where cs: "hp_functions h f = Some (code, cs)" using f by auto
  have len: "n \<le> length cs" using n by (simp add: heap_upvalues_def cs)
  let ?u = "cs ! (n - 1)"
  let ?h = "h\<lparr>hp_cells := (hp_cells h)(?u := v)\<rparr>"
  have u: "fst (heap_upvalues h f ! (n - 1)) = ?u" using n len by (simp add: heap_upvalues_def cs)
  have val: "value_ok ?h w = value_ok h w" for w by (cases w) simp_all
  have "heap_ok ?h"
    using ok v unfolding heap_ok_def val by (auto split: prod.splits)
  moreover have "heap_setupvalue f n v h = Some ?h" using n len by (simp add: heap_setupvalue_def cs)
  moreover have "l_live heap_lua ?h = l_live heap_lua h" by (simp add: heap_lua_def)
  moreover have "unchanged heap_lua {} UNIV h ?h" by (simp add: unchanged_def heap_rawget_def)
  moreover have "heap_upvalues ?h g = map (\<lambda>(u, x). (u, if u = ?u then v else x)) (heap_upvalues h g)" for g
    by (simp add: heap_upvalues_def split: option.splits prod.splits)
  ultimately show ?thesis unfolding u by blast
qed

lemma heap_join_law:
  assumes ok: "heap_ok h" and f: "hp_functions h f \<noteq> None" "hp_functions h g \<noteq> None" and n: "1 \<le> n" "n \<le> length (heap_upvalues h f)"
    and m: "1 \<le> m" "m \<le> length (heap_upvalues h g)"
  defines "h' \<equiv> heap_upvaluejoin f n g m h"
  shows "heap_ok h' \<and> l_live heap_lua h' = l_live heap_lua h \<and> unchanged heap_lua {} {f} h h'
    \<and> heap_upvalues h' f = (heap_upvalues h f)[n - 1 := heap_upvalues h g ! (m - 1)]"
proof -
  obtain code cs code' cs' where cs: "hp_functions h f = Some (code, cs)" "hp_functions h g = Some (code', cs')" using f by auto
  have len: "n \<le> length cs" "m - 1 < length cs'" using n m by (simp_all add: heap_upvalues_def cs)
  let ?cs = "cs[n - 1 := cs' ! (m - 1)]"
  have h': "h' = h\<lparr>hp_functions := (hp_functions h)(f \<mapsto> (code, ?cs))\<rparr>" by (simp add: h'_def heap_upvaluejoin_def cs)
  have val: "value_ok h' v" if "value_ok h v" for v using value_ok_mono [OF that, of h'] by (auto simp: h')
  have "heap_ok h'"
  proof (rule heap_tableI [OF ok])
    fix k c us u
    assume k: "hp_functions h' k = Some (c, us)"
    show "k < hp_fresh h'" using k heap_functions_ok(1) [OF ok] cs by (auto simp: h' split: if_splits)
    assume u: "u \<in> set us"
    have "u < hp_fresh h \<and> value_ok h (hp_cells h u)"
    proof (cases "k = f")
      case True
      with k have "us = ?cs" by (simp add: h')
      with u have "u \<in> set cs \<or> u = cs' ! (m - 1)" using set_update_subset_insert [of cs "n - 1" "cs' ! (m - 1)"] by auto
      with heap_functions_ok(2) [OF ok cs(1)] heap_functions_ok(2) [OF ok cs(2) nth_mem [OF len(2)]] show ?thesis by blast
    next
      case False
      with k have "hp_functions h k = Some (c, us)" by (simp add: h')
      from heap_functions_ok(2) [OF ok this u] show ?thesis .
    qed
    with val show "u < hp_fresh h' \<and> value_ok h' (hp_cells h' u)" by (simp add: h')
  next
    fix q assume "hp_tables h' q \<noteq> None"
    with heap_one_kind [OF ok, of q] cs show "hp_functions h' q = None" by (auto simp: h' split: if_splits)
  qed (auto simp: h')
  moreover have "l_live heap_lua h' = l_live heap_lua h" using cs by (auto simp: heap_lua_def h' dom_def)
  moreover have "unchanged heap_lua {} {f} h h'" using cs by (auto simp: unchanged_def h' heap_rawget_def heap_objlen_def heap_upvalues_def)
  moreover have "heap_upvalues h' f = (heap_upvalues h f)[n - 1 := heap_upvalues h g ! (m - 1)]"
    using len by (simp add: heap_upvalues_def h' cs map_update)
  ultimately show ?thesis by blast
qed

lemma heap_function_laws: "function_laws heap_ok heap_lua"
  unfolding function_laws_def
proof (intro conjI allI impI)
  fix h f code h2
  assume "LFunction f \<in> l_live heap_lua h" "l_dump heap_lua h f = Some code"
  then obtain co cs where cs: "hp_functions h f = Some (co, cs)" "code = replicate co 1 @ [0] @ replicate (length cs) 1"
    by (auto simp: heap_dump_def)
  with heap_loads_dump [OF cs(1), of h2] show "\<exists>g h2'. l_loadbuffer heap_lua code h2 = Some (g, h2') \<and> l_code heap_lua h2' g = l_code heap_lua h f
      \<and> length (l_upvalues heap_lua h2' g) = length (l_upvalues heap_lua h f)"
    by (auto simp: heap_upvalues_def)
next
  fix h code g h' f
  assume "heap_ok h" "l_loadbuffer heap_lua code h = Some (g, h')"
  then have l: "created heap_ok heap_lua (LFunction g) h h' \<and> distinct (map fst (heap_upvalues h' g))
    \<and> (\<forall>f. hp_functions h f \<noteq> None \<longrightarrow> upvalue_ids heap_lua h f \<inter> upvalue_ids heap_lua h' g = {})"
    by (intro heap_load_law) simp_all
  then show "created heap_ok heap_lua (LFunction g) h h'" "distinct (map fst (l_upvalues heap_lua h' g))" by simp_all
  show "upvalue_ids heap_lua h f \<inter> upvalue_ids heap_lua h' g = {}" if "LFunction f \<in> l_live heap_lua h" using l that by simp
next
  fix h f n v
  assume "heap_ok h" "LFunction f \<in> l_live heap_lua h" "1 \<le> n" "n \<le> length (l_upvalues heap_lua h f)" "exists_in heap_lua h v"
  with heap_set_law [of h f n v]
  show "\<exists>h'. l_setupvalue heap_lua f n v h = Some h' \<and> heap_ok h' \<and> l_live heap_lua h' = l_live heap_lua h \<and> unchanged heap_lua {} UNIV h h'
    \<and> (\<forall>g. LFunction g \<in> l_live heap_lua h \<longrightarrow> l_upvalues heap_lua h' g =
         map (\<lambda>(u, x). (u, if u = fst (l_upvalues heap_lua h f ! (n - 1)) then v else x)) (l_upvalues heap_lua h g))"
    by (auto simp: value_ok_def)
next
  fix h f n g m
  assume "heap_ok h" "LFunction f \<in> l_live heap_lua h" "LFunction g \<in> l_live heap_lua h" "1 \<le> n" "n \<le> length (l_upvalues heap_lua h f)"
    "1 \<le> m" "m \<le> length (l_upvalues heap_lua h g)"
  with heap_join_law [of h f g n m]
  show "heap_ok (l_upvaluejoin heap_lua f n g m h)" "l_live heap_lua (l_upvaluejoin heap_lua f n g m h) = l_live heap_lua h"
    "unchanged heap_lua {} {f} h (l_upvaluejoin heap_lua f n g m h)"
    "l_upvalues heap_lua (l_upvaluejoin heap_lua f n g m h) f = (l_upvalues heap_lua h f)[n - 1 := l_upvalues heap_lua h g ! (m - 1)]" by simp_all
qed

lemma heap_laws: "lua_laws heap_ok heap_lua"
  by (simp add: lua_laws_def heap_reading heap_table_laws heap_function_laws)

lemma heap_length: "length_law heap_ok heap_lua"
  unfolding length_law_def
proof (intro allI impI)
  fix h r n
  assume "LTable r \<in> l_live heap_lua h"
    and "\<forall>i\<ge>1. (l_rawget heap_lua h r (LNumber (Fin (real i))) = LNil) = (n < i)"
  then obtain es where es: "hp_tables h r = Some es" and get: "\<And>i. 1 \<le> i \<Longrightarrow> (heap_rawget h r (LNumber (Fin (real i))) = LNil) = (n < i)"
    by auto
  let ?key = "\<lambda>i. LNumber (Fin (real i))" and ?P = "\<lambda>i. heap_rawget h r (LNumber (Fin (real i))) \<noteq> LNil"
  have "?key i \<in> fst ` set es" if "i \<in> {1..n}" for i
  proof -
    have "map_of es (?key i) \<noteq> None" using get [of i] that by (auto simp: heap_rawget_def es split: option.splits)
    then show ?thesis by (simp add: map_of_eq_None_iff)
  qed
  then have "?key ` {1..n} \<subseteq> fst ` set es" by blast
  then have "card (?key ` {1..n}) \<le> card (fst ` set es)" by (simp add: card_mono)
  moreover have "card (?key ` {1..n}) = n" by (subst card_image) (auto simp: inj_on_def)
  moreover have "card (fst ` set es) \<le> length es" using card_length [of "map fst es"] by simp
  ultimately have n: "n \<le> length es" by simp
  then have "[1..<Suc (length es)] = [1..<Suc n] @ [Suc n..<Suc (length es)]" using upt_add_eq_append [of 1 "Suc n" "length es - n"] by simp
  moreover have "takeWhile ?P ([1..<Suc n] @ ys) = [1..<Suc n] @ takeWhile ?P ys" for ys
    using get by (intro takeWhile_append2) (auto simp: not_less)
  moreover have "takeWhile ?P [Suc n..<Suc (length es)] = []" using get [of "Suc n"] by (cases "n < length es") (simp_all add: upt_conv_Cons del: upt_Suc)
  ultimately show "l_objlen heap_lua h r = n" by (simp add: heap_objlen_def es del: upt_Suc)
qed

end
