(* ===== verification/RoundTrip.thy ===== *)
theory RoundTrip
  imports LuaCopy LuaHeap
begin

text \<open>
  The round trip on a value with shared tables and upvalues; and when serialising returns.
\<close>

section \<open>Values to be copied\<close>

text \<open>
  A table that holds a function and, twice, another table, which is also the value of the upvalue (4) the function
  shares with a second one; 6 is a collector.
\<close>

definition sample_heap :: heap where
  "sample_heap = \<lparr>
     hp_tables = [0 \<mapsto> [(LNumber (Fin 1), LFunction 2), (LString ''t'', LTable 1), (LNumber (Fin 2), LTable 1)],
       1 \<mapsto> [(LString ''x'', LBoolean True), (LString ''c'', LTable 6)], 6 \<mapsto> [(LNumber (Fin 1), LString ''collected'')]],
     hp_functions = [2 \<mapsto> (7, [4]), 3 \<mapsto> (9, [5, 4])],
     hp_cells = (\<lambda>_. LNil)(4 := LTable 1, 5 := LNumber (Fin 1)), hp_collectors = {6}, hp_fresh = 7\<rparr>"

definition empty_heap :: heap where
  "empty_heap = \<lparr>hp_tables = [0 \<mapsto> []], hp_functions = Map.empty, hp_cells = (\<lambda>_. LNil), hp_collectors = {}, hp_fresh = 1\<rparr>"

text \<open>A table that holds itself.\<close>

definition cyclic_heap :: heap where
  "cyclic_heap = empty_heap\<lparr>hp_tables := [0 \<mapsto> [(LNumber (Fin 1), LTable 0)]]\<rparr>"

lemma reaches_within:
  assumes "reaches L h v x" "v \<in> S" "\<And>x y. x \<in> S \<Longrightarrow> y \<in> set (children L h x) \<Longrightarrow> y \<in> S"
  shows "x \<in> S"
  using assms(1,2) by (induction rule: reaches.induct) (use assms(3) in blast)+

lemma sample_ok: "heap_ok sample_heap"
  by (auto simp: heap_ok_def sample_heap_def split: if_splits)

lemma empty_ok: "heap_ok empty_heap"
  by (auto simp: heap_ok_def empty_heap_def split: if_splits)

abbreviation sample_reach :: "lval set" where
  "sample_reach \<equiv> {LTable 0, LTable 1, LFunction 2, LFunction 3, LNumber (Fin 1), LNumber (Fin 2), LString ''t'', LString ''x'',
     LString ''c'', LString ''collected'', LBoolean True}"

lemma sample_children: "x \<in> sample_reach \<Longrightarrow> y \<in> set (children heap_lua sample_heap x) \<Longrightarrow> y \<in> sample_reach"
  by (auto simp: sample_heap_def unwrap_collector_maybe_def heap_upvalues_def heap_rawget_def)

lemma sample_portable: "x \<in> sample_reach \<Longrightarrow> portable heap_lua sample_heap x"
  by (auto simp: sample_heap_def unwrap_collector_maybe_def)

lemma sample_source: "v \<in> sample_reach \<Longrightarrow> source_ok heap_ok heap_lua sample_heap v"
proof -
  assume v: "v \<in> sample_reach"
  then have "exists_in heap_lua sample_heap v" by (auto simp: sample_heap_def)
  moreover have "portable heap_lua sample_heap x" if "reaches heap_lua sample_heap v x" for x
    by (rule sample_portable, rule reaches_within [OF that v]) (rule sample_children)
  ultimately show ?thesis using sample_ok by (simp add: source_ok_def)
qed

lemma values_roundtrip_witness:
  "\<exists>svs vs' h' c'. map_res (serialize_value heap_lua sample_heap 4) [LTable 0, LFunction 3] = Inr svs
    \<and> deserialize_values heap_lua 0 svs (empty_heap, upvalue_cache_new) = Inr (vs', h', c')
    \<and> are_copies heap_lua sample_heap [LTable 0, LFunction 3] h' vs' \<and> unchanged heap_lua {0} {} empty_heap h'"
proof -
  have "\<exists>svs. map_res (serialize_value heap_lua sample_heap 4) [LTable 0, LFunction 3] = Inr svs"
    by (simp add: serialize_value_def eval_nat_numeral serialize_table_def dump_table_entries_def serialize_function_def
        serialize_upvalues_def serialize_upvalue_def dump_function_bytecode_def sample_heap_def heap_dump_def heap_upvalues_def
        heap_rawget_def unwrap_collector_maybe_def)
  then obtain svs where svs: "map_res (serialize_value heap_lua sample_heap 4) [LTable 0, LFunction 3] = Inr svs" by blast
  have "list_all (source_ok heap_ok heap_lua sample_heap) [LTable 0, LFunction 3]" using sample_source by simp
  moreover have "LTable 0 \<in> l_live heap_lua empty_heap" by (simp add: empty_heap_def)
  ultimately show ?thesis using values_roundtrip [OF heap_laws sample_ok empty_ok _ _ svs, of 0] svs by blast
qed

section \<open>When serialising fails\<close>

text \<open>
  C10: Serialising a value returns, at some depth of the stack, if and only if the values that can be
  reached from it (through entries, keys and upvalues, taking wrapped values out of their collectors) are
  all supported and form no cycle: some rank decreases from each to its children. In particular a table
  that can reach itself overflows the stack or ends in an assertion, whatever the depth.
\<close>

theorem serialize_terminates:
  "(\<exists>d sv. serialize_value L h d v = Inr sv) \<longleftrightarrow>
   (\<forall>x. reaches L h v x \<longrightarrow> supported L h x)
     \<and> (\<exists>rank. \<forall>x y. reaches L h v x \<longrightarrow> y \<in> set (children L h x) \<longrightarrow> rank y < (rank x :: nat))"
proof
  assume "\<exists>d sv. serialize_value L h d v = Inr sv"
  then obtain d where d: "returns L h d v" by (auto simp: returns_def serialize_value_def)
  then show "(\<forall>x. reaches L h v x \<longrightarrow> supported L h x)
     \<and> (\<exists>rank. \<forall>x y. reaches L h v x \<longrightarrow> y \<in> set (children L h x) \<longrightarrow> rank y < (rank x :: nat))"
    using reaches_supported [OF _ d] least_depth_child [OF reaches_returns [OF _ d]] by blast
next
  assume "(\<forall>x. reaches L h v x \<longrightarrow> supported L h x)
     \<and> (\<exists>rank. \<forall>x y. reaches L h v x \<longrightarrow> y \<in> set (children L h x) \<longrightarrow> rank y < (rank x :: nat))"
  then obtain rank where s: "\<And>x. reaches L h v x \<Longrightarrow> supported L h x"
    and rank: "\<And>x y. reaches L h v x \<Longrightarrow> y \<in> set (children L h x) \<Longrightarrow> rank y < (rank x :: nat)" by blast
  have "returns L h (Suc n) x" if "reaches L h v x" "rank x \<le> n" for x n
    using that
  proof (induction n arbitrary: x)
    case 0
    with s rank [OF 0(1)] show ?case by (fastforce simp: returns_Suc)
  next
    case (Suc n)
    with s rank [OF Suc.prems(1)] show ?case
      by (subst returns_Suc) (fastforce intro: Suc.IH reaches_step [OF Suc.prems(1)])
  qed
  from this [of v "rank v"] show "\<exists>d sv. serialize_value L h d v = Inr sv"
    by (auto simp: returns_def serialize_value_def simp del: serialize_object.simps)
qed

lemma cyclic_children: "children heap_lua cyclic_heap (LTable 0) = [LTable 0, LNumber (Fin 1)]"
  by (simp add: cyclic_heap_def empty_heap_def unwrap_collector_maybe_def)

lemma serialize_terminates_witness:
  "(\<exists>d sv. serialize_value heap_lua empty_heap d (LTable 0) = Inr sv) \<and> \<not> (\<exists>d sv. serialize_value heap_lua cyclic_heap d (LTable 0) = Inr sv)"
proof
  have none: "children heap_lua empty_heap (LTable 0) = []" by (simp add: empty_heap_def)
  have x: "x = LTable 0" if "reaches heap_lua empty_heap (LTable 0) x" for x
    using reaches_within [OF that, of "{LTable 0}"] none by auto
  show "\<exists>d sv. serialize_value heap_lua empty_heap d (LTable 0) = Inr sv"
    unfolding serialize_terminates
  proof (intro conjI exI [of _ "\<lambda>_. 0"] allI impI)
    fix x y
    assume "reaches heap_lua empty_heap (LTable 0) x"
    then have "x = LTable 0" by (rule x)
    then show "supported heap_lua empty_heap x" by simp
    show "0 < (0 :: nat)" if "y \<in> set (children heap_lua empty_heap x)" using that unfolding \<open>x = LTable 0\<close> none by simp
  qed
  show "\<not> (\<exists>d sv. serialize_value heap_lua cyclic_heap d (LTable 0) = Inr sv)"
    unfolding serialize_terminates using reaches_refl [of heap_lua cyclic_heap "LTable 0"] cyclic_children by fastforce
qed

text \<open>
  Collecting data from a worker needs a value for every registered collector: when the worker never
  deserialised the function or table a collector was found in, for instance because its hook was not run
  or belongs to the other side, serialising the nil found instead fails an assertion and nothing is returned.
\<close>

theorem uncollected_asserts:
  assumes "k \<in> set collectors" "map_of (collector_map (snd slave)) k = None"
  shows "\<nexists>h'. pull_data L d slave_registry slave registry collectors h = Inr h'"
proof -
  have nil: "serialize_object L h' d LNil \<noteq> Inr sv" for h' sv by (cases d) simp_all
  have "pull_values L d slave_registry slave registry idx collectors st \<noteq> Inr st'" for idx st st'
    using assms(1)
  proof (induction collectors arbitrary: st)
    case (Cons j js)
    show ?case
    proof (cases "j = k")
      case True
      then show ?thesis using assms(2) nil
        by (auto simp: rbind_eq_Inr get_collected_value_def push_collected_value_def serialize_value_def)
    next
      case False
      with Cons show ?thesis by (auto simp: rbind_eq_Inr)
    qed
  qed simp
  then show ?thesis by (auto simp: pull_data_def rbind_eq_Inr split: prod.splits)
qed

lemma uncollected_asserts_witness:
  "\<nexists>h'. pull_data heap_lua 3 0 (empty_heap, upvalue_cache_new) 0 [6] empty_heap = Inr h'"
  by (rule uncollected_asserts [of 6]) (simp_all add: upvalue_cache_new_def)

end
