(* ===== verification/Hooks.thy ===== *)
theory Hooks
  imports RoundTrip
begin

text \<open>
  The hooks of a script in a slave (\<open>load_hook\<close> of \<open>script.c\<close>, \<open>deserialize_function\<close> of \<open>serialize.c\<close>): functions that were
  serialised when they were registered, loaded one after the other with one cache.
\<close>

section \<open>Loading hooks\<close>

text \<open>
  The hooks of a slave are deserialised one after the other, when they are first run, with the cache of the slave
  (\<open>load_hook\<close> of \<open>script.c\<close>, for hooks that are set; \<open>Script\<close> has the test for an empty one); the objects are kept in the registry, where \<open>push_hook\<close> finds a hook by its key.
\<close>

fun load_hooks :: "'h lua \<Rightarrow> ptr \<Rightarrow> sfunction list \<Rightarrow> 'h \<times> upvalue_cache \<Rightarrow> failure + (ptr list \<times> 'h \<times> upvalue_cache)" where
  "load_hooks L registry [] st = Inr ([], st)"
| "load_hooks L registry (sf # sfs) st =
     rbind (deserialize_function L registry sf st) (\<lambda>(key, st).
     rbind (load_hooks L registry sfs st) (\<lambda>(keys, st). Inr (key # keys, st)))"

text \<open>The tables and functions in a serialised value, as the code maps them.\<close>

fun object_ids :: "svalue \<Rightarrow> ptr list" and entry_ids :: "stable_entry list \<Rightarrow> ptr list" and upvalue_object_ids :: "supvalue list \<Rightarrow> ptr list" where
  "object_ids (SFunction (Sfunction fid code us)) = fid # upvalue_object_ids us"
| "object_ids (STable (Stable tid es)) = tid # entry_ids es"
| "object_ids _ = []"
| "entry_ids [] = []"
| "entry_ids (Sentry key val coll # es) = object_ids key @ object_ids val @ entry_ids es"
| "upvalue_object_ids [] = []"
| "upvalue_object_ids (Supvalue uid number val coll # us) = object_ids val @ upvalue_object_ids us"

text \<open>The collectors that a serialised value names.\<close>

definition named :: "ptr option \<Rightarrow> ptr list" where
  "named coll = (case coll of None \<Rightarrow> [] | Some k \<Rightarrow> [k])"

fun collector_ids :: "svalue \<Rightarrow> ptr list" and entry_collectors :: "stable_entry list \<Rightarrow> ptr list" and upvalue_collectors :: "supvalue list \<Rightarrow> ptr list" where
  "collector_ids (SFunction (Sfunction fid code us)) = upvalue_collectors us"
| "collector_ids (STable (Stable tid es)) = entry_collectors es"
| "collector_ids _ = []"
| "entry_collectors [] = []"
| "entry_collectors (Sentry key val coll # es) = collector_ids key @ collector_ids val @ named coll @ entry_collectors es"
| "upvalue_collectors [] = []"
| "upvalue_collectors (Supvalue uid number val coll # us) = collector_ids val @ named coll @ upvalue_collectors us"

abbreviation mapped :: "'h \<times> upvalue_cache \<Rightarrow> ptr set" where
  "mapped st \<equiv> fst ` set (object_map (snd st))"

abbreviation collecting :: "'h \<times> upvalue_cache \<Rightarrow> ptr set" where
  "collecting st \<equiv> fst ` set (collector_map (snd st))"

text \<open>The cache has learnt of no other objects than \<open>A\<close> and no other collectors than \<open>B\<close>.\<close>

definition learns :: "'h \<times> upvalue_cache \<Rightarrow> 'h \<times> upvalue_cache \<Rightarrow> ptr set \<Rightarrow> ptr set \<Rightarrow> bool" where
  "learns st st' A B \<longleftrightarrow> mapped st' \<subseteq> mapped st \<union> A \<and> collecting st' \<subseteq> collecting st \<union> B"

lemma learns_refl [simp]: "learns st st A B"
  by (auto simp: learns_def)

lemma subset_steps: "B \<subseteq> A \<union> X \<Longrightarrow> C \<subseteq> B \<union> Y \<Longrightarrow> C \<subseteq> A \<union> (X \<union> Y)"
  by blast

lemma learns_trans: "learns s t A B \<Longrightarrow> learns t u C D \<Longrightarrow> learns s u (A \<union> C) (B \<union> D)"
  unfolding learns_def by (elim conjE) (rule conjI; erule (1) subset_steps)

lemma learns_mono: "learns s t A B \<Longrightarrow> A \<subseteq> C \<Longrightarrow> B \<subseteq> D \<Longrightarrow> learns s t C D"
  unfolding learns_def by (elim conjE) (rule conjI; erule order_trans, rule Un_mono [OF subset_refl], assumption)

lemma learns_new: "snd s = c \<Longrightarrow> learns s (new_object L key v (h, c)) {key} {}"
  by (auto simp: learns_def new_object_def cache_object_def map_object_def)

lemma collect_learns:
  "collect_entry r k coll st = Inr st' \<Longrightarrow> learns st st' {} (set (named coll))"
  "collect_upvalue f n coll st = Inr st' \<Longrightarrow> learns st st' {} (set (named coll))"
  "join_upvalue L f n m st = Inr st' \<Longrightarrow> learns st st' {} {}"
  by (auto simp: learns_def named_def collect_entry_def collect_upvalue_def map_collector_def join_upvalue_def rbind_eq_Inr
      split: option.splits lval.splits)

lemma map_upvalue_learns: "learns st (h, map_upvalue uid f n (snd st)) {} {}"
  by (simp add: learns_def map_upvalue_def)

lemma pushed_ids:
  "push_object L sv st = Inr (v, st') \<Longrightarrow> learns st st' (set (object_ids sv)) (set (collector_ids sv))"
  "push_entries L r es st = Inr st' \<Longrightarrow> learns st st' (set (entry_ids es)) (set (entry_collectors es))"
  "set_shared_upvalues L f us st = Inr st' \<Longrightarrow>
     learns st st' (set (upvalue_object_ids us)) (set (upvalue_collectors us))"
proof (induction L sv st and L r es st and L f us st arbitrary: v st' and st' and st' rule: push_object_push_entries_set_shared_upvalues.induct)
  case (4 L fid code us st)
  show ?case
  proof (cases "lookup_and_fetch_object L fid st")
    case None
    with "4.prems" obtain f h s where s: "load_function_bytecode L code (fst st) = Inr (f, h)"
      "set_shared_upvalues L f us (new_object L fid (LFunction f) (h, snd st)) = Inr s" "st' = s"
      by (auto simp: rbind_eq_Inr)
    have "learns st (new_object L fid (LFunction f) (h, snd st)) {fid} {}" by (rule learns_new) simp
    from learns_trans [OF this "4.IH" [OF None s(2)]] s(3) show ?thesis by simp
  qed (use "4.prems" in auto)
next
  case (5 L tid es st)
  show ?case
  proof (cases "lookup_and_fetch_object L tid st")
    case None
    with "5.prems" obtain r h s where s: "l_newtable L (fst st) = (r, h)"
      "push_entries L r es (new_object L tid (LTable r) (h, snd st)) = Inr s" "st' = s"
      by (auto simp: rbind_eq_Inr split: prod.splits)
    have "learns st (new_object L tid (LTable r) (h, snd st)) {tid} {}" by (rule learns_new) simp
    from learns_trans [OF this "5.IH" [OF None s(1) [symmetric] s(2)]] s(3) show ?thesis by simp
  qed (use "5.prems" in auto)
next
  case (7 L r key val coll es st)
  from "7.prems" obtain k s1 v s2 s3 where s: "push_object L key st = Inr (k, s1)" "push_object L val s1 = Inr (v, s2)"
    "collect_entry r key coll (l_rawset L r k v (fst s2), snd s2) = Inr s3" "push_entries L r es s3 = Inr st'"
    by (auto simp: rbind_eq_Inr)
  have "learns s2 s3 {} (set (named coll))" using collect_learns(1) [OF s(3)] by (simp add: learns_def)
  from learns_trans [OF learns_trans [OF "7.IH"(1) [OF s(1)] "7.IH"(2) [OF s(2)]] learns_trans [OF this "7.IH"(3) [OF s(4)]]]
  show ?case by (rule learns_mono) auto
next
  case (9 L f uid number val coll us st)
  show ?case
  proof (cases "lookup_upvalue (snd st) uid")
    case None
    with "9.prems" obtain v s1 h s2 where s: "push_object L val st = Inr (v, s1)" "l_setupvalue L f number v (fst s1) = Some h"
      "collect_upvalue f number coll (h, map_upvalue uid f number (snd s1)) = Inr s2" "set_shared_upvalues L f us s2 = Inr st'"
      by (auto simp: rbind_eq_Inr split: option.splits)
    from learns_trans [OF learns_trans [OF "9.IH"(1) [OF None s(1)] map_upvalue_learns]
        learns_trans [OF collect_learns(2) [OF s(3)] "9.IH"(2) [OF s(4)]]]
    show ?thesis by (rule learns_mono) auto
  next
    case (Some m)
    with "9.prems" obtain s2 where s: "join_upvalue L f number m st = Inr s2" "set_shared_upvalues L f us s2 = Inr st'"
      by (auto simp: rbind_eq_Inr)
    from learns_trans [OF collect_learns(3) [OF s(1)] "9.IH"(2) [OF s(2)]] show ?thesis by (rule learns_mono) auto
  qed
qed auto

lemma serialize_function_object:
  "serialize_object L h (Suc d) (LFunction f) = Inr (SFunction sf) \<longleftrightarrow> serialize_function (serialize_object L h d) L h f = Inr sf"
  by (auto simp: rbind_eq_Inr)

lemma serialize_function_id: "serialize_function ser L h f = Inr sf \<Longrightarrow> sf_id sf = f"
  by (auto simp: serialize_function_def rbind_eq_Inr)

lemma unmapped_None: "f \<notin> mapped (h, c) \<longleftrightarrow> phi_of c f = None"
  by (simp add: map_of_eq_None_iff)

lemma deserialize_function_copies:
  assumes laws: "lua_laws ok L" and sf: "serialize_function (serialize_object L h1 d) L h1 f = Inr sf"
    and src: "source_ok ok L h1 (LFunction f)" and inv: "inv ok L h1 {} {} (h, c)" and idx: "object_tbl_idx c = idx"
    and new: "f \<notin> mapped (h, c)"
  obtains g h' c' where "deserialize_function L idx sf (h, c) = Inr (g, h', c')" "inv ok L h1 {} {} (h', c')"
    "ext L h1 (Suc d) {} (h, c) (h', c')" "phi_of c' f = Some g" "mapped (h', c') \<subseteq> mapped (h, c) \<union> set (object_ids (SFunction sf))"
proof -
  have so: "serialize_object L h1 (Suc d) (LFunction f) = Inr (SFunction sf)" using sf by (simp only: serialize_function_object)
  obtain v' h' c' where a: "push_object L (SFunction sf) (h, c) = Inr (v', h', c')" "inv ok L h1 {} {} (h', c')"
    "ext L h1 (Suc d) {} (h, c) (h', c')" "same (phi_of c') (LFunction f) v'" "exists_in L h' v'"
    using pushesE [OF pushes_all [OF laws] so src inv] by metis
  then obtain g where g: "v' = LFunction g" "phi_of c' f = Some g" by auto
  have "lookup_and_fetch_object L f (h, c) = None"
    using new by (simp add: lookup_and_fetch_object_def lookup_object_def map_of_eq_None_iff)
  with a(1) have "push_function L sf (h, c) = Inr (g, h', c')"
    unfolding push_object_function serialize_function_id [OF sf] g(1) by (auto simp: rbind_eq_Inr)
  moreover have "c\<lparr>object_tbl_idx := idx\<rparr> = c" using idx by simp
  ultimately have "deserialize_function L idx sf (h, c) = Inr (g, h', c')" by (simp only: deserialize_function_def fst_conv snd_conv)
  moreover have "mapped (h', c') \<subseteq> mapped (h, c) \<union> set (object_ids (SFunction sf))"
    using pushed_ids(1) [OF a(1)] by (simp add: learns_def)
  ultimately show ?thesis using that a(2,3) g(2) by blast
qed

lemma deserialize_function_learns:
  assumes "deserialize_function L idx sf st = Inr (g, st')"
  shows "collecting st' \<subseteq> collecting st \<union> set (collector_ids (SFunction sf))"
proof -
  obtain fid code us where sf: "sf = Sfunction fid code us" by (cases sf)
  let ?c = "(snd st)\<lparr>object_tbl_idx := idx\<rparr>"
  from assms obtain f h where l: "set_shared_upvalues L f us (new_object L fid (LFunction f) (h, ?c)) = Inr st'"
    by (auto simp: deserialize_function_def push_function_def rbind_eq_Inr sf)
  have "learns (fst st, ?c) (new_object L fid (LFunction f) (h, ?c)) {fid} {}" by (rule learns_new) simp
  from learns_trans [OF this pushed_ids(3) [OF l]] show ?thesis by (simp add: learns_def sf)
qed

lemma load_hooks_learn:
  "load_hooks L idx sfs st = Inr (keys, st') \<Longrightarrow>
   collecting st' \<subseteq> collecting st \<union> (\<Union>sf\<in>set sfs. set (collector_ids (SFunction sf)))"
proof (induction sfs arbitrary: st keys)
  case (Cons sf sfs)
  then obtain g s1 keys' where s: "deserialize_function L idx sf st = Inr (g, s1)" "load_hooks L idx sfs s1 = Inr (keys', st')"
    by (auto simp: rbind_eq_Inr)
  from subset_steps [OF deserialize_function_learns [OF s(1)] Cons.IH [OF s(2)]] show ?case by (simp only: list.set UN_insert)
qed simp

text \<open>No hook is loaded that an earlier one has brought along.\<close>

definition hooks_apart :: "sfunction list \<Rightarrow> bool" where
  "hooks_apart sfs \<longleftrightarrow> sorted_wrt (\<lambda>a b. sf_id b \<notin> set (object_ids (SFunction a))) sfs"

lemma load_hooks_copy:
  assumes laws: "lua_laws ok L"
  shows "map_res (serialize_function (serialize_object L h1 d) L h1) fs = Inr sfs \<Longrightarrow> list_all (\<lambda>f. source_ok ok L h1 (LFunction f)) fs \<Longrightarrow>
    hooks_apart sfs \<Longrightarrow> set fs \<inter> mapped (h, c) = {} \<Longrightarrow> inv ok L h1 {} {} (h, c) \<Longrightarrow> object_tbl_idx c = idx \<Longrightarrow>
    \<exists>gs h' c'. load_hooks L idx sfs (h, c) = Inr (gs, h', c') \<and> inv ok L h1 {} {} (h', c') \<and> ext L h1 (Suc d) {} (h, c) (h', c')
      \<and> list_all2 (\<lambda>f g. phi_of c' f = Some g) fs gs"
proof (induction fs arbitrary: sfs h c)
  case Nil
  then show ?case by auto
next
  case (Cons f fs)
  from Cons.prems(1) obtain sf sfs' where sf: "serialize_function (serialize_object L h1 d) L h1 f = Inr sf"
    "map_res (serialize_function (serialize_object L h1 d) L h1) fs = Inr sfs'" "sfs = sf # sfs'"
    by (auto simp: rbind_eq_Inr)
  have src: "source_ok ok L h1 (LFunction f)" "list_all (\<lambda>f. source_ok ok L h1 (LFunction f)) fs" using Cons.prems(2) by simp_all
  have "f \<notin> mapped (h, c)" using Cons.prems(4) by auto
  then obtain g ha ca where a: "deserialize_function L idx sf (h, c) = Inr (g, ha, ca)" "inv ok L h1 {} {} (ha, ca)"
    "ext L h1 (Suc d) {} (h, c) (ha, ca)" "phi_of ca f = Some g" "mapped (ha, ca) \<subseteq> mapped (h, c) \<union> set (object_ids (SFunction sf))"
    by (rule deserialize_function_copies [OF laws sf(1) src(1) Cons.prems(5,6)])
  have apart: "hooks_apart sfs'" "\<forall>b\<in>set sfs'. sf_id b \<notin> set (object_ids (SFunction sf))"
    using Cons.prems(3) sf(3) by (simp_all add: hooks_apart_def)
  have "set fs \<inter> set (object_ids (SFunction sf)) = {}"
  proof -
    have "fs ! i \<notin> set (object_ids (SFunction sf))" if "i < length fs" for i
      using map_res_nth [OF sf(2)] that apart(2) serialize_function_id nth_mem by metis
    then show ?thesis by (auto simp: in_set_conv_nth)
  qed
  then have new: "set fs \<inter> mapped (ha, ca) = {}" using a(5) Cons.prems(4) by (simp only: list.set) blast
  have idx: "object_tbl_idx ca = idx" using a(3) Cons.prems(6) unfolding ext_pair by simp
  from Cons.IH [OF sf(2) src(2) apart(1) new a(2) idx] obtain gs h' c' where b: "load_hooks L idx sfs' (ha, ca) = Inr (gs, h', c')"
    "inv ok L h1 {} {} (h', c')" "ext L h1 (Suc d) {} (ha, ca) (h', c')" "list_all2 (\<lambda>f g. phi_of c' f = Some g) fs gs" by blast
  have "phi_of ca \<subseteq>\<^sub>m phi_of c'" using b(3) unfolding ext_pair by simp
  from map_le_Some [OF this a(4)] have "phi_of c' f = Some g" .
  with a(1) b ext_trans [OF a(3) b(3)] sf(3) show ?case by simp
qed

text \<open>
  C8: Loading hooks. Let the functions of hooks be serialised (while the script, which registers them one after the
  other, does not change what they can reach), and deserialised one after the other in a slave with the
  cache of the slave and the registry as the table of objects; no function of a hook is part of an earlier hook.
  Then loading never fails; each function can be found in the registry by the key its loading returned; and
  the functions are copies of the original ones, so that an upvalue or an object that hooks shared in the
  script is one that their copies share. Nothing but the registry is changed of what was there.
\<close>

theorem hooks_loaded:
  assumes "lua_laws ok L" "ok h1" "ok h2" "LTable registry \<in> l_live L h2" "list_all (\<lambda>f. source_ok ok L h1 (LFunction f)) fs"
    and "map_res (serialize_function (serialize_object L h1 d) L h1) fs = Inr sfs" "hooks_apart sfs"
  shows "\<exists>keys h' c'. load_hooks L registry sfs (h2, upvalue_cache_new) = Inr (keys, h', c')
    \<and> list_all (\<lambda>g. l_rawget L h' registry (LLightuserdata g) = LFunction g) keys
    \<and> are_copies L h1 (map LFunction fs) h' (map LFunction keys) \<and> unchanged L {registry} {} h2 h'"
proof -
  let ?c = "upvalue_cache_new\<lparr>object_tbl_idx := registry\<rparr>"
  have inv: "inv ok L h1 {} {} (h2, ?c)"
    using assms(2-4) by (simp add: inv_def upvalue_cache_new_def objects_ok_def cells_ok_def injective_def owned_def complete_def)
  have "set fs \<inter> mapped (h2, ?c) = {}" by (simp add: upvalue_cache_new_def)
  from load_hooks_copy [OF assms(1,6,5,7) this inv, of registry]
  obtain gs h' c' where z: "load_hooks L registry sfs (h2, ?c) = Inr (gs, h', c')" "inv ok L h1 {} {} (h', c')"
    "ext L h1 (Suc d) {} (h2, ?c) (h', c')" "list_all2 (\<lambda>f g. phi_of c' f = Some g) fs gs" by auto
  have rl: "reading_laws ok L" using assms(1) by (simp add: lua_laws_def)
  have idx: "object_tbl_idx c' = registry" using z(3) unfolding ext_pair by simp
  have live: "LFunction f \<in> l_live L h1" if "f \<in> set fs" for f using assms(5) that by (simp add: list_all_iff source_ok_def)
  have objs: "objects_ok L h1 h' c'" using z(2) by (simp add: inv_def)
  have key: "LFunction g \<in> l_live L h' \<and> l_rawget L h' registry (LLightuserdata g) = LFunction g" if g: "g \<in> set gs" for g
  proof -
    obtain i where i: "i < length fs" "gs ! i = g" using z(4) g by (auto simp: list_all2_conv_all_nth in_set_conv_nth)
    then have "fs ! i \<in> set fs" "phi_of c' (fs ! i) = Some g" using z(4) by (auto simp: list_all2_conv_all_nth)
    with mapped_function [OF rl assms(2) objs this(2) live] idx show ?thesis by blast
  qed
  have "list_all2 (same (phi_of c')) (map LFunction fs) (map LFunction gs)"
    using z(4) by (simp add: list_all2_map1 list_all2_map2)
  moreover have "list_all (exists_in L h') (map LFunction gs)" using key by (simp add: list_all_iff)
  ultimately have "are_copies L h1 (map LFunction fs) h' (map LFunction gs)"
    using inv_copies [OF assms(1) z(2)] unfolding are_copies_def by blast
  moreover have "unchanged L {registry} {} h2 h'" using z(3) unfolding ext_pair by simp
  moreover have "\<exists>c''. load_hooks L registry sfs (h2, upvalue_cache_new) = Inr (gs, h', c'')"
    using z(1) by (cases sfs) (auto simp: deserialize_function_def)
  ultimately show ?thesis using key by (auto simp: list_all_iff)
qed

text \<open>The two functions of the sample share the upvalue 4.\<close>

lemma hooks_loaded_witness:
  "\<exists>sfs keys h' c'. map_res (serialize_function (serialize_object heap_lua sample_heap 4) heap_lua sample_heap) [3, 2] = Inr sfs
    \<and> load_hooks heap_lua 0 sfs (empty_heap, upvalue_cache_new) = Inr (keys, h', c')
    \<and> are_copies heap_lua sample_heap [LFunction 3, LFunction 2] h' (map LFunction keys)
    \<and> list_all (\<lambda>g. heap_rawget h' 0 (LLightuserdata g) = LFunction g) keys"
proof -
  have "\<exists>sfs. map_res (serialize_function (serialize_object heap_lua sample_heap 4) heap_lua sample_heap) [3, 2] = Inr sfs \<and> hooks_apart sfs"
    by (simp add: eval_nat_numeral serialize_table_def dump_table_entries_def serialize_function_def
        serialize_upvalues_def serialize_upvalue_def dump_function_bytecode_def sample_heap_def heap_dump_def heap_upvalues_def
        heap_rawget_def unwrap_collector_maybe_def hooks_apart_def)
  then obtain sfs where sfs: "map_res (serialize_function (serialize_object heap_lua sample_heap 4) heap_lua sample_heap) [3, 2] = Inr sfs"
    "hooks_apart sfs" by blast
  have "list_all (\<lambda>f. source_ok heap_ok heap_lua sample_heap (LFunction f)) [3, 2]" using sample_source by simp
  moreover have "LTable 0 \<in> l_live heap_lua empty_heap" by (simp add: empty_heap_def)
  ultimately have "\<exists>keys h' c'. load_hooks heap_lua 0 sfs (empty_heap, upvalue_cache_new) = Inr (keys, h', c')
    \<and> list_all (\<lambda>g. l_rawget heap_lua h' 0 (LLightuserdata g) = LFunction g) keys
    \<and> are_copies heap_lua sample_heap (map LFunction [3, 2]) h' (map LFunction keys) \<and> unchanged heap_lua {0} {} empty_heap h'"
    by (intro hooks_loaded [OF heap_laws sample_ok empty_ok _ _ sfs]) simp_all
  with sfs(1) show ?thesis by auto
qed

end
