(* ===== verification/Collect.thy ===== *)
theory Collect
  imports Hooks
begin

text \<open>
  Collecting values from the workers (\<open>script.c\<close>, \<open>serialize.c\<close>): pulling from one worker appends copies to the
  tables of the collectors, and a whole run leaves in each table the values of all workers.
\<close>

section \<open>Collecting from one worker\<close>

text \<open>
  The tables that the registry holds for the collectors, each identified by its table; and what a
  worker has for a collector, a value that can be copied.
\<close>

definition collector_tables :: "'h lua \<Rightarrow> 'h \<Rightarrow> ptr \<Rightarrow> ptr list \<Rightarrow> bool" where
  "collector_tables L h registry ks \<longleftrightarrow> distinct ks \<and> LTable registry \<in> l_live L h
     \<and> (\<forall>k\<in>set ks. l_rawget L h registry (LLightuserdata k) = LTable k \<and> LTable k \<in> l_live L h \<and> k \<noteq> registry)"

definition collected :: "('h \<Rightarrow> bool) \<Rightarrow> 'h lua \<Rightarrow> nat \<Rightarrow> ptr \<Rightarrow> 'h \<times> upvalue_cache \<Rightarrow> ptr \<Rightarrow> lval \<Rightarrow> bool" where
  "collected ok L d registry slave k v \<longleftrightarrow> push_collected_value L registry k slave = Inr v \<and> source_ok ok L (fst slave) v
     \<and> (\<exists>sv. serialize_value L (fst slave) d v = Inr sv)"

definition next_index :: "'h lua \<Rightarrow> 'h \<Rightarrow> ptr \<Rightarrow> lval" where
  "next_index L h r = LNumber (Fin (real (l_objlen L h r + 1)))"

text \<open>\<open>v\<close> is appended to the table \<open>r\<close>.\<close>

definition appended :: "'h lua \<Rightarrow> 'h \<Rightarrow> 'h \<Rightarrow> ptr \<Rightarrow> lval \<Rightarrow> bool" where
  "appended L h h' r v \<longleftrightarrow> (\<forall>j. l_rawget L h' r j = (if j = next_index L h r then v else l_rawget L h r j))"

text \<open>New mappings lead to new objects.\<close>

definition maps_to_new :: "'h lua \<Rightarrow> 'h \<Rightarrow> (ptr \<Rightarrow> ptr option) \<Rightarrow> (ptr \<Rightarrow> ptr option) \<Rightarrow> bool" where
  "maps_to_new L h phi phi' \<longleftrightarrow> phi \<subseteq>\<^sub>m phi' \<and> (\<forall>r p. phi' r = Some p \<longrightarrow> phi r = None \<longrightarrow> LTable p \<notin> l_live L h)"

lemma maps_to_new_old: "maps_to_new L h phi phi' \<Longrightarrow> LTable p \<in> l_live L h \<Longrightarrow> (\<And>r. phi r \<noteq> Some p) \<Longrightarrow> phi' r \<noteq> Some p"
  unfolding maps_to_new_def using map_le_Some [of phi phi'] by (metis not_None_eq)

lemma maps_to_new_trans:
  assumes "maps_to_new L h phi phi'" "maps_to_new L h' phi' phi''" "l_live L h \<subseteq> l_live L h'"
  shows "maps_to_new L h phi phi''"
  unfolding maps_to_new_def
proof (intro conjI allI impI)
  have le: "phi \<subseteq>\<^sub>m phi'" "phi' \<subseteq>\<^sub>m phi''" using assms(1,2) by (simp_all add: maps_to_new_def)
  then show "phi \<subseteq>\<^sub>m phi''" by (rule map_le_trans)
  fix r p
  assume r: "phi'' r = Some p" "phi r = None"
  show "LTable p \<notin> l_live L h"
  proof (cases "phi' r")
    case None
    with assms(2,3) r(1) show ?thesis unfolding maps_to_new_def by blast
  next
    case (Some q)
    with map_le_Some [OF le(2) Some] r assms(1) show ?thesis unfolding maps_to_new_def by simp
  qed
qed

lemma ext_maps: "ext L hs d X (h, c) (h', c') \<Longrightarrow> maps_to_new L h (phi_of c) (phi_of c')"
  unfolding ext_pair maps_to_new_def by blast

lemma add_collected_value_copies:
  assumes laws: "lua_laws ok L" and inv: "inv ok L hs {} {} (h, c)" and tab: "collector_tables L h registry (k # ks)"
    and idx: "k \<noteq> idx" "object_tbl_idx c = idx" "\<And>r. phi_of c r \<noteq> Some k"
    and src: "source_ok ok L hs v" and sv: "serialize_value L hs d v = Inr sv"
  obtains v' h' c' where "add_collected_value L registry idx k sv (h, c) = Inr (h', c')" "inv ok L hs {} {} (h', c')"
    "maps_to_new L h (phi_of c) (phi_of c')" "l_live L h \<subseteq> l_live L h'" "unchanged L {idx, k} {} h h'" "same (phi_of c') v v'"
    "exists_in L h' v'" "appended L h h' k v'" "object_tbl_idx c' = idx"
proof -
  have t: "l_rawget L h registry (LLightuserdata k) = LTable k" "LTable k \<in> l_live L h"
    using tab by (simp_all add: collector_tables_def)
  have c: "c\<lparr>object_tbl_idx := idx\<rparr> = c" using idx(2) by simp
  have so: "serialize_object L hs d v = Inr sv" using sv by (simp add: serialize_value_def)
  obtain v' ha ca where a: "push_object L sv (h, c) = Inr (v', ha, ca)" "inv ok L hs {} {} (ha, ca)" "ext L hs d {} (h, c) (ha, ca)"
    "same (phi_of ca) v v'" "exists_in L ha v'" using pushesE [OF pushes_all [OF laws] so src inv] by metis
  have e: "object_tbl_idx ca = idx" "l_live L h \<subseteq> l_live L ha" "unchanged L {idx} {} h ha"
    using a(3) idx(2) unfolding ext_pair by simp_all
  have new: "maps_to_new L h (phi_of c) (phi_of ca)" by (rule ext_maps [OF a(3)])
  have ta: "LTable k \<in> l_live L ha" "k \<noteq> object_tbl_idx ca" using e t idx(1) by blast+
  have unmapped: "r \<in> {}" if "phi_of ca r = Some k" for r
    using maps_to_new_old [OF new t(2) idx(3), of r] that by simp
  let ?n = "next_index L h k"
  have n: "?n \<noteq> LNil" "?n \<noteq> LNumber NaN" "exists_in L ha ?n" by (simp_all add: next_index_def)
  note s = rawset_step [OF laws a(2) ta unmapped n a(5)]
  have keep: "l_rawget L ha k j = l_rawget L h k j" "l_objlen L ha k = l_objlen L h k" for j
    using e(3) t(2) idx(1) by (simp_all add: unchanged_def)
  show ?thesis
  proof (rule that)
    show "add_collected_value L registry idx k sv (h, c) = Inr (l_rawset L k ?n v' ha, ca)"
      using a(1) t(1) c by (simp add: add_collected_value_def deserialize_value_def next_index_def)
    show "unchanged L {idx, k} {} h (l_rawset L k ?n v' ha)"
      by (rule unchanged_trans [OF unchanged_mono [OF e(3)] unchanged_mono [OF s(5)] e(2)]) auto
    show "exists_in L (l_rawset L k ?n v' ha) v'" using exists_mono [OF a(5)] s(4) by simp
    show "appended L h (l_rawset L k ?n v' ha) k v'" using s(3) keep(1) by (simp add: appended_def)
  qed (use s(1,4) a(4) e(1,2) new in simp_all)
qed

lemma collector_tables_step:
  assumes "collector_tables L h registry (k # ks)" "unchanged L {idx, k} {} h h'" "l_live L h \<subseteq> l_live L h'" "registry \<noteq> idx"
  shows "collector_tables L h' registry ks"
proof -
  have "l_rawget L h' registry j = l_rawget L h registry j" for j
    using assms(1,2,4) by (auto simp: collector_tables_def unchanged_def)
  with assms(1,3) show ?thesis unfolding collector_tables_def by auto
qed

lemma appended_frame:
  assumes "appended L h h' r v" "\<And>j. l_rawget L h'' r j = l_rawget L h' r j"
  shows "appended L h h'' r v"
  using assms by (simp add: appended_def)

lemma pull_values_copies:
  assumes laws: "lua_laws ok L"
  shows "collector_tables L h registry ks \<Longrightarrow> list_all2 (collected ok L d slave_registry slave) ks vs \<Longrightarrow>
    inv ok L (fst slave) {} {} (h, c) \<Longrightarrow> object_tbl_idx c = idx \<Longrightarrow> registry \<noteq> idx \<Longrightarrow> idx \<notin> set ks \<Longrightarrow>
    (\<And>k r. k \<in> set ks \<Longrightarrow> phi_of c r \<noteq> Some k) \<Longrightarrow>
    \<exists>vs' h' c'. pull_values L d slave_registry slave registry idx ks (h, c) = Inr (h', c') \<and> inv ok L (fst slave) {} {} (h', c')
      \<and> maps_to_new L h (phi_of c) (phi_of c') \<and> l_live L h \<subseteq> l_live L h' \<and> unchanged L (insert idx (set ks)) {} h h'
      \<and> list_all2 (same (phi_of c')) vs vs' \<and> list_all (exists_in L h') vs' \<and> list_all2 (appended L h h') ks vs'"
proof (induction ks arbitrary: vs h c)
  case Nil
  then show ?case by (simp add: unchanged_def maps_to_new_def)
next
  case (Cons k ks)
  let ?hs = "fst slave"
  from Cons.prems(2) obtain v ws where vs: "vs = v # ws" "collected ok L d slave_registry slave k v"
    "list_all2 (collected ok L d slave_registry slave) ks ws" by (auto simp: list_all2_Cons1)
  then obtain sv where v: "push_collected_value L slave_registry k slave = Inr v" "source_ok ok L ?hs v" "serialize_value L ?hs d v = Inr sv"
    by (auto simp: collected_def)
  have get: "get_collected_value L d slave_registry k slave = Inr sv" using v by (simp add: get_collected_value_def)
  have free: "k \<noteq> idx" "idx \<notin> set ks" "\<And>r. phi_of c r \<noteq> Some k" using Cons.prems(6,7) by auto
  obtain v' ha ca where a: "add_collected_value L registry idx k sv (h, c) = Inr (ha, ca)" "inv ok L ?hs {} {} (ha, ca)"
    "maps_to_new L h (phi_of c) (phi_of ca)" "l_live L h \<subseteq> l_live L ha" "unchanged L {idx, k} {} h ha" "same (phi_of ca) v v'"
    "exists_in L ha v'" "appended L h ha k v'" "object_tbl_idx ca = idx"
    by (rule add_collected_value_copies [OF laws Cons.prems(3,1) free(1) Cons.prems(4) free(3) v(2,3)])
  have tabs: "LTable j \<in> l_live L h" if "j \<in> set (k # ks)" for j using Cons.prems(1) that unfolding collector_tables_def by blast
  have k: "k \<notin> set ks" using Cons.prems(1) by (simp add: collector_tables_def)
  note t = collector_tables_step [OF Cons.prems(1) a(5,4) Cons.prems(5)]
  have unmapped: "phi_of ca r \<noteq> Some j" if j: "j \<in> set ks" for j r
    using maps_to_new_old [OF a(3) tabs [of j] Cons.prems(7) [of j]] j by simp
  have "\<exists>vs' h' c'. pull_values L d slave_registry slave registry idx ks (ha, ca) = Inr (h', c') \<and> inv ok L ?hs {} {} (h', c')
      \<and> maps_to_new L ha (phi_of ca) (phi_of c') \<and> l_live L ha \<subseteq> l_live L h' \<and> unchanged L (insert idx (set ks)) {} ha h'
      \<and> list_all2 (same (phi_of c')) ws vs' \<and> list_all (exists_in L h') vs' \<and> list_all2 (appended L ha h') ks vs'"
    by (rule Cons.IH [OF t vs(3) a(2,9) Cons.prems(5) free(2) unmapped])
  then obtain ws' h' c' where b: "pull_values L d slave_registry slave registry idx ks (ha, ca) = Inr (h', c')" "inv ok L ?hs {} {} (h', c')"
    "maps_to_new L ha (phi_of ca) (phi_of c')" "l_live L ha \<subseteq> l_live L h'" "unchanged L (insert idx (set ks)) {} ha h'"
    "list_all2 (same (phi_of c')) ws ws'" "list_all (exists_in L h') ws'" "list_all2 (appended L ha h') ks ws'" by blast
  have "l_rawget L h' k j = l_rawget L ha k j" for j
  proof -
    have "LTable k \<in> l_live L ha" "k \<notin> insert idx (set ks)" using tabs [of k] a(4) free(1) k by auto
    with b(5) show ?thesis unfolding unchanged_def by blast
  qed
  with a(8) have "appended L h h' k v'" by (rule appended_frame)
  moreover have "list_all2 (appended L h h') ks ws'"
  proof (rule list.rel_mono_strong [OF b(8)])
    fix j w
    assume j: "j \<in> set ks" "appended L ha h' j w"
    then have "LTable j \<in> l_live L h" "j \<notin> {idx, k}" using tabs free k by auto
    then have "l_rawget L ha j i = l_rawget L h j i" "l_objlen L ha j = l_objlen L h j" for i
      using a(5) unfolding unchanged_def by simp_all
    with j(2) show "appended L h h' j w" by (simp add: appended_def next_index_def)
  qed
  moreover have "unchanged L (insert idx (set (k # ks))) {} h h'"
    by (rule unchanged_trans [OF unchanged_mono [OF a(5)] unchanged_mono [OF b(5)] a(4)]) auto
  moreover have "phi_of ca \<subseteq>\<^sub>m phi_of c'" using b(3) by (simp add: maps_to_new_def)
  then have "same (phi_of c') v v'" "exists_in L h' v'" using same_mono [OF a(6)] exists_mono [OF a(7) b(4)] by blast+
  moreover have "maps_to_new L h (phi_of c) (phi_of c')" "l_live L h \<subseteq> l_live L h'" using maps_to_new_trans [OF a(3) b(3) a(4)] a(4) b(4) by blast+
  ultimately show ?case using get a(1) b(1,2,6,7) vs(1)
    by (intro exI [of _ "v' # ws'"] exI [of _ h'] exI [of _ c']) simp
qed

text \<open>Copies that are not in tables written to stay copies.\<close>

lemma copies_unchanged:
  assumes c: "copies_by phi psi L h1 vs h vs'" and u: "unchanged L T {} h h'" "l_live L h \<subseteq> l_live L h'"
    and T: "\<And>r p. phi r = Some p \<Longrightarrow> p \<notin> T"
  shows "copies_by phi psi L h1 vs h' vs'"
  unfolding copies_by_def
proof (intro conjI allI impI)
  note cc = c [unfolded copies_by_def]
  show "injective phi" "injective psi" "list_all2 (same phi) vs vs'" using cc by blast+
  show "list_all (exists_in L h') vs'" using cc exists_mono [OF _ u(2)] by (auto simp: list_all_iff)
  fix r r'
  assume r: "phi r = Some r'"
  {
    assume "LTable r \<in> l_live L h1"
    with cc r have t: "LTable r' \<in> l_live L h" "table_copied L h1 phi h r r'" by blast+
    then show "LTable r' \<in> l_live L h'" using u(2) by blast
    have "l_rawget L h' r' k = l_rawget L h r' k" for k using u(1) t(1) T [OF r] unfolding unchanged_def by blast
    then show "table_copied L h1 phi h' r r'" by (rule table_copied_mono [OF t(2) map_le_refl])
  }
  {
    assume "LFunction r \<in> l_live L h1"
    with cc r have f: "LFunction r' \<in> l_live L h" "function_copied L h1 phi psi h r r'" by blast+
    then show "LFunction r' \<in> l_live L h'" using u(2) by blast
    have "l_upvalues L h' r' = l_upvalues L h r'" "l_code L h' r' = l_code L h r'" using u(1) f(1) unfolding unchanged_def by simp_all
    with f(2) show "function_copied L h1 phi psi h' r r'" by (simp add: function_copied_def)
  }
qed

definition apart_copies :: "ptr list \<Rightarrow> 'h lua \<Rightarrow> 'h \<Rightarrow> lval list \<Rightarrow> 'h \<Rightarrow> lval list \<Rightarrow> bool" where
  "apart_copies ks L h1 vs h vs' \<longleftrightarrow> (\<exists>phi psi. copies_by phi psi L h1 vs h vs' \<and> (\<forall>r p. phi r = Some p \<longrightarrow> p \<notin> set ks))"

lemma apart_copies_are: "apart_copies ks L h1 vs h vs' \<Longrightarrow> are_copies L h1 vs h vs'"
  unfolding apart_copies_def are_copies_def by blast

lemma apart_copies_unchanged:
  assumes "apart_copies ks L h1 vs h vs'" "unchanged L (set ks) {} h h'" "l_live L h \<subseteq> l_live L h'"
  shows "apart_copies ks L h1 vs h' vs'"
proof -
  obtain phi psi where p: "copies_by phi psi L h1 vs h vs'" "\<And>r p. phi r = Some p \<Longrightarrow> p \<notin> set ks"
    using assms(1) unfolding apart_copies_def by blast
  have "copies_by phi psi L h1 vs h' vs'" by (rule copies_unchanged [OF p(1) assms(2,3) p(2)])
  with p(2) show ?thesis unfolding apart_copies_def by blast
qed

lemma pull_data_copies:
  assumes laws: "lua_laws ok L" and ok: "ok h" "ok (fst slave)" and tabs: "collector_tables L h registry collectors"
    and vs: "list_all2 (collected ok L d slave_registry slave) collectors vs"
  shows "\<exists>h' vs'. pull_data L d slave_registry slave registry collectors h = Inr h' \<and> ok h' \<and> l_live L h \<subseteq> l_live L h'
    \<and> unchanged L (set collectors) {} h h' \<and> apart_copies collectors L (fst slave) vs h' vs'
    \<and> list_all2 (appended L h h') collectors vs'"
proof -
  obtain idx ha where new: "l_newtable L h = (idx, ha)" by fastforce
  have "table_laws ok L" using laws by (simp add: lua_laws_def)
  with ok(1) new have cr: "created ok L (LTable idx) h ha" unfolding table_laws_def by blast
  then have a: "ok ha" "LTable idx \<notin> l_live L h" "l_live L ha = insert (LTable idx) (l_live L h)" "unchanged L {} {} h ha"
    by (simp_all add: created_def)
  let ?c = "upvalue_cache_new\<lparr>object_tbl_idx := idx\<rparr>"
  have inv: "inv ok L (fst slave) {} {} (ha, ?c)"
    using ok(2) a(1,3) by (simp add: inv_def upvalue_cache_new_def objects_ok_def cells_ok_def injective_def owned_def complete_def)
  have reg: "registry \<noteq> idx" "idx \<notin> set collectors" using tabs a(2) unfolding collector_tables_def by auto
  have keep: "l_rawget L ha r j = l_rawget L h r j" "l_objlen L ha r = l_objlen L h r" if "LTable r \<in> l_live L h" for r j
    using a(4) that by (simp_all add: unchanged_def)
  have tabs': "collector_tables L ha registry collectors"
    using tabs keep(1) a(3) unfolding collector_tables_def by simp
  have none: "phi_of ?c r \<noteq> Some k" for k r by (simp add: upvalue_cache_new_def)
  have "object_tbl_idx ?c = idx" by simp
  from pull_values_copies [OF laws tabs' vs inv this reg none]
  obtain vs' h' c' where z: "pull_values L d slave_registry slave registry idx collectors (ha, ?c) = Inr (h', c')"
    "inv ok L (fst slave) {} {} (h', c')" "maps_to_new L ha (phi_of ?c) (phi_of c')" "l_live L ha \<subseteq> l_live L h'"
    "unchanged L (insert idx (set collectors)) {} ha h'"
    "list_all2 (same (phi_of c')) vs vs'" "list_all (exists_in L h') vs'" "list_all2 (appended L ha h') collectors vs'" by blast
  have "unchanged L (insert idx (set collectors)) {} h h'"
    by (rule unchanged_trans [OF unchanged_mono [OF a(4)] z(5)]) (use a(3) in auto)
  then have "unchanged L (set collectors) {} h h'" using a(2) unfolding unchanged_def by blast
  moreover have "apart_copies collectors L (fst slave) vs h' vs'"
  proof -
    have "p \<notin> set collectors" if r: "phi_of c' r = Some p" for r p
    proof
      assume "p \<in> set collectors"
      then have "LTable p \<in> l_live L ha" using tabs' by (simp add: collector_tables_def)
      from maps_to_new_old [OF z(3) this none, of r] r show False by simp
    qed
    with inv_copies [OF laws z(2,6,7)] show ?thesis unfolding apart_copies_def by blast
  qed
  moreover have "list_all2 (appended L h h') collectors vs'"
  proof (rule list.rel_mono_strong [OF z(8)])
    fix k w
    assume "k \<in> set collectors" "appended L ha h' k w"
    moreover from this have "LTable k \<in> l_live L h" using tabs by (simp add: collector_tables_def)
    ultimately show "appended L h h' k w" using keep by (simp add: appended_def next_index_def)
  qed
  moreover have "\<exists>c''. pull_values L d slave_registry slave registry idx collectors (ha, upvalue_cache_new) = Inr (h', c'')"
  proof (cases collectors)
    case Nil
    with z(1) show ?thesis by simp
  next
    case (Cons k ks)
    have "add_collected_value L registry idx j sv (ha, upvalue_cache_new) = add_collected_value L registry idx j sv (ha, ?c)" for j sv
      by (simp add: add_collected_value_def deserialize_value_def split: lval.split)
    with Cons z(1) show ?thesis by simp
  qed
  moreover have "ok h'" "l_live L h \<subseteq> l_live L h'" using z(2,4) a(3) by (auto simp: inv_def)
  ultimately show ?thesis using new by (auto simp: pull_data_def)
qed

section \<open>Collecting from all workers\<close>

lemma collector_tables_unchanged:
  assumes t: "collector_tables L h registry ks" and u: "unchanged L (set ks) {} h h'" "l_live L h \<subseteq> l_live L h'"
  shows "collector_tables L h' registry ks"
proof -
  have "LTable registry \<in> l_live L h" "registry \<notin> set ks" using t unfolding collector_tables_def by blast+
  then have "l_rawget L h' registry j = l_rawget L h registry j" for j using u(1) unfolding unchanged_def by blast
  with t u(2) show ?thesis unfolding collector_tables_def by auto
qed

definition sequence :: "'h lua \<Rightarrow> 'h \<Rightarrow> ptr \<Rightarrow> lval list \<Rightarrow> bool" where
  "sequence L h r vs \<longleftrightarrow> (\<forall>i. l_rawget L h r (LNumber (Fin (real (Suc i)))) = (if i < length vs then vs ! i else LNil))"

lemma sequence_length:
  assumes law: "length_law ok L" and h: "ok h" "LTable r \<in> l_live L h" and s: "sequence L h r vs" "LNil \<notin> set vs"
  shows "l_objlen L h r = length vs"
proof -
  have "(l_rawget L h r (LNumber (Fin (real i))) = LNil) = (length vs < i)" if "1 \<le> i" for i
  proof -
    obtain j where j: "i = Suc j" using \<open>1 \<le> i\<close> by (cases i) auto
    have "vs ! j \<noteq> LNil" if "j < length vs" using s(2) nth_mem [OF that] by metis
    with s(1) show ?thesis unfolding sequence_def j by auto
  qed
  with law h show ?thesis unfolding length_law_def by blast
qed

lemma appended_sequence:
  assumes law: "length_law ok L" and h: "ok h" "LTable r \<in> l_live L h" and s: "sequence L h r vs" "LNil \<notin> set vs"
    and a: "appended L h h' r v"
  shows "sequence L h' r (vs @ [v])"
proof -
  have n: "next_index L h r = LNumber (Fin (real (Suc (length vs))))" using sequence_length [OF law h s] by (simp add: next_index_def)
  show ?thesis
    unfolding sequence_def
  proof
    fix i
    have "l_rawget L h' r (LNumber (Fin (real (Suc i)))) = (if i = length vs then v else l_rawget L h r (LNumber (Fin (real (Suc i)))))"
      using a unfolding appended_def n by simp
    with s(1) show "l_rawget L h' r (LNumber (Fin (real (Suc i)))) = (if i < length (vs @ [v]) then (vs @ [v]) ! i else LNil)"
      unfolding sequence_def by (auto simp: nth_append)
  qed
qed

lemma collected_not_nil: "collected ok L d registry slave k v \<Longrightarrow> v \<noteq> LNil"
  by (cases d) (auto simp: collected_def serialize_value_def)

lemma copies_not_nil:
  assumes "apart_copies ks L h1 vs h vs'" "LNil \<notin> set vs"
  shows "LNil \<notin> set vs'"
proof -
  obtain phi where "list_all2 (same phi) vs vs'" using assms(1) unfolding apart_copies_def copies_by_def by blast
  then show ?thesis using assms(2) by (induction rule: list_all2_induct) (use same_not_nil in auto)
qed

text \<open>A worker has a value for each collector.\<close>

definition worker_has :: "('h \<Rightarrow> bool) \<Rightarrow> 'h lua \<Rightarrow> nat \<Rightarrow> ptr list \<Rightarrow> ptr \<times> 'h \<times> upvalue_cache \<Rightarrow> lval list \<Rightarrow> bool" where
  "worker_has ok L d collectors w vs \<longleftrightarrow> (case w of (slave_registry, slave) \<Rightarrow>
     ok (fst slave) \<and> list_all2 (collected ok L d slave_registry slave) collectors vs)"

abbreviation worker_heap :: "ptr \<times> 'h \<times> upvalue_cache \<Rightarrow> 'h" where
  "worker_heap w \<equiv> fst (snd w)"

lemma pull_workers_copies:
  assumes laws: "lua_laws ok L" "length_law ok L"
  shows "list_all2 (worker_has ok L d ks) ws vss \<Longrightarrow> ok h \<Longrightarrow> collector_tables L h registry ks \<Longrightarrow>
    (\<And>k. k \<in> set ks \<Longrightarrow> sequence L h k (acc k) \<and> LNil \<notin> set (acc k)) \<Longrightarrow>
    \<exists>h' css. pull_workers L d registry ks ws h = Inr h' \<and> l_live L h \<subseteq> l_live L h' \<and> unchanged L (set ks) {} h h'
      \<and> list_all2 (\<lambda>(w, vs) cs. apart_copies ks L (worker_heap w) vs h' cs \<and> length cs = length ks) (zip ws vss) css
      \<and> (\<forall>i<length ks. sequence L h' (ks ! i) (acc (ks ! i) @ map (\<lambda>cs. cs ! i) css))"
proof (induction ws vss arbitrary: h acc rule: list_all2_induct)
  case Nil
  then show ?case by (simp add: unchanged_def)
next
  case (Cons w ws vs vss)
  obtain reg slave where w: "w = (reg, slave)" by (cases w)
  from Cons.hyps(1) have vs: "ok (fst slave)" "list_all2 (collected ok L d reg slave) ks vs" by (simp_all add: worker_has_def w)
  from pull_data_copies [OF laws(1) Cons.prems(1) vs(1) Cons.prems(2) vs(2)]
  obtain ha cs where a: "pull_data L d reg slave registry ks h = Inr ha" "ok ha" "l_live L h \<subseteq> l_live L ha"
    "unchanged L (set ks) {} h ha" "apart_copies ks L (fst slave) vs ha cs" "list_all2 (appended L h ha) ks cs" by blast
  have len: "length ks = length cs" using a(6) by (rule list_all2_lengthD)
  have "LNil \<notin> set vs" using vs(2) collected_not_nil unfolding list_all2_conv_all_nth in_set_conv_nth by metis
  with copies_not_nil [OF a(5)] have cn: "LNil \<notin> set cs" by blast
  have dist: "distinct ks" using Cons.prems(2) by (simp add: collector_tables_def)
  define acc' where "acc' k = acc k @ [the (map_of (zip ks cs) k)]" for k
  have acc': "acc' (ks ! i) = acc (ks ! i) @ [cs ! i]" if "i < length ks" for i
    using that len dist by (simp add: acc'_def map_of_zip_nth)
  have seq: "sequence L ha k (acc' k) \<and> LNil \<notin> set (acc' k)" if k: "k \<in> set ks" for k
  proof -
    obtain i where i: "i < length ks" "k = ks ! i" using k by (auto simp: in_set_conv_nth)
    have "appended L h ha (ks ! i) (cs ! i)" using a(6) i(1) by (simp add: list_all2_conv_all_nth)
    moreover have "LTable (ks ! i) \<in> l_live L h" using Cons.prems(2) k i(2) by (simp add: collector_tables_def)
    moreover have "cs ! i \<noteq> LNil" using cn i(1) len nth_mem by metis
    ultimately show ?thesis using appended_sequence [OF laws(2) Cons.prems(1)] Cons.prems(3) [OF k] i acc' [OF i(1)] by simp
  qed
  note tabs = collector_tables_unchanged [OF Cons.prems(2) a(4,3)]
  from Cons.IH [OF a(2) tabs seq] obtain h' css where b: "pull_workers L d registry ks ws ha = Inr h'" "l_live L ha \<subseteq> l_live L h'"
    "unchanged L (set ks) {} ha h'"
    "list_all2 (\<lambda>(w, vs) cs. apart_copies ks L (worker_heap w) vs h' cs \<and> length cs = length ks) (zip ws vss) css"
    "\<And>i. i < length ks \<Longrightarrow> sequence L h' (ks ! i) (acc' (ks ! i) @ map (\<lambda>cs. cs ! i) css)" by blast
  have "apart_copies ks L (worker_heap w) vs h' cs" using apart_copies_unchanged [OF a(5) b(3,2)] by (simp add: w)
  moreover have "unchanged L (set ks) {} h h'" by (rule unchanged_trans [OF a(4) b(3) a(3)])
  moreover have "l_live L h \<subseteq> l_live L h'" using a(3) b(2) by blast
  ultimately show ?case using a(1) b(1,4,5) len acc' by (intro exI [of _ h'] exI [of _ "cs # css"]) (simp add: w)
qed

lemma empty_collectors_empties:
  assumes laws: "lua_laws ok L" "length_law ok L"
  shows "ok h \<Longrightarrow> collector_tables L h registry ks \<Longrightarrow> (\<And>k. k \<in> set ks \<Longrightarrow> \<exists>v. v \<noteq> LNil \<and> sequence L h k [v]) \<Longrightarrow>
    \<exists>h'. empty_collectors L registry ks h = Inr h' \<and> ok h' \<and> l_live L h' = l_live L h \<and> unchanged L (set ks) {} h h'
      \<and> (\<forall>k\<in>set ks. sequence L h' k [])"
proof (induction ks arbitrary: h)
  case Nil
  then show ?case by (simp add: unchanged_def)
next
  case (Cons k ks)
  have k: "l_rawget L h registry (LLightuserdata k) = LTable k" "LTable k \<in> l_live L h" "k \<noteq> registry" "k \<notin> set ks"
    using Cons.prems(2) by (simp_all add: collector_tables_def)
  obtain v where v: "v \<noteq> LNil" "sequence L h k [v]" using Cons.prems(3) [of k] by auto
  have len: "l_objlen L h k = 1" using sequence_length [OF laws(2) Cons.prems(1) k(2) v(2)] v(1) by simp
  let ?h = "l_rawset L k (LNumber (Fin 1)) LNil h"
  have tl: "table_laws ok L" using laws(1) by (simp add: lua_laws_def)
  have w: "ok ?h \<and> l_live L ?h = l_live L h \<and> unchanged L {k} {} h ?h
      \<and> (\<forall>j. l_rawget L ?h k j = (if j = LNumber (Fin 1) then LNil else l_rawget L h k j))"
    using conjunct2 [OF tl [unfolded table_laws_def]] Cons.prems(1) k(2) by simp
  have "collector_tables L h registry ks" "LTable registry \<in> l_live L h" using Cons.prems(2) by (simp_all add: collector_tables_def)
  then have "collector_tables L ?h registry ks"
    using w k(3) unfolding collector_tables_def unchanged_def by auto
  moreover have other: "l_rawget L ?h j i = l_rawget L h j i" if "j \<in> set ks" for i j
  proof -
    have "LTable j \<in> l_live L h" "j \<notin> {k}" using that k(4) Cons.prems(2) by (auto simp: collector_tables_def)
    with w show ?thesis unfolding unchanged_def by blast
  qed
  ultimately obtain h' where b: "empty_collectors L registry ks ?h = Inr h'" "ok h'" "l_live L h' = l_live L ?h" "unchanged L (set ks) {} ?h h'"
    "\<forall>j\<in>set ks. sequence L h' j []"
    using Cons.IH [of ?h] w Cons.prems(3) unfolding sequence_def by auto
  have "l_rawget L h' k j = l_rawget L ?h k j" for j using b(4) k(2,4) w unfolding unchanged_def by blast
  then have "sequence L h' k []" using w v(2) unfolding sequence_def by auto
  moreover have "unchanged L (set (k # ks)) {} h h'"
  proof (rule unchanged_trans)
    show "unchanged L (set (k # ks)) {} h ?h" using w unchanged_mono [of L "{k}" "{}" h ?h "set (k # ks)" "{}"] by simp
    show "unchanged L (set (k # ks)) {} ?h h'" by (rule unchanged_mono [OF b(4)]) auto
  qed (use w in simp)
  ultimately show ?case using b k(1) len w by simp
qed

text \<open>
  C9: Collected values. At \<open>run()\<close> every collector of the script is a table with the one value it was made with.
  Emptying the collectors, and after the run pulling from all workers, does not fail if every worker has a value
  for every collector that can be copied. Then each collector's table is a sequence with one element for
  each worker, in the order of the workers, and the elements from one worker are copies of what it has,
  sharing objects as there. Nothing else that was there is changed.
\<close>

theorem collect_run:
  assumes "lua_laws ok L" "length_law ok L" "ok h" "collector_tables L h registry collectors"
    and "\<And>k. k \<in> set collectors \<Longrightarrow> \<exists>v. v \<noteq> LNil \<and> sequence L h k [v]"
    and "list_all2 (worker_has ok L d collectors) workers vss"
  shows "\<exists>h' css. rbind (empty_collectors L registry collectors h) (pull_workers L d registry collectors workers) = Inr h'
    \<and> list_all2 (\<lambda>(w, vs) cs. are_copies L (worker_heap w) vs h' cs) (zip workers vss) css
    \<and> (\<forall>i<length collectors. sequence L h' (collectors ! i) (map (\<lambda>cs. cs ! i) css))
    \<and> unchanged L (set collectors) {} h h'"
proof -
  from empty_collectors_empties [OF assms(1-5)] obtain ha where a: "empty_collectors L registry collectors h = Inr ha" "ok ha"
    "l_live L ha = l_live L h" "unchanged L (set collectors) {} h ha" "\<forall>k\<in>set collectors. sequence L ha k []" by blast
  have "collector_tables L ha registry collectors"
    by (rule collector_tables_unchanged [OF assms(4) a(4)]) (simp add: a(3))
  from pull_workers_copies [OF assms(1,2,6) a(2) this, of "\<lambda>_. []"] a(5) obtain h' css where b:
    "pull_workers L d registry collectors workers ha = Inr h'" "l_live L ha \<subseteq> l_live L h'" "unchanged L (set collectors) {} ha h'"
    "list_all2 (\<lambda>(w, vs) cs. apart_copies collectors L (worker_heap w) vs h' cs \<and> length cs = length collectors) (zip workers vss) css"
    "\<forall>i<length collectors. sequence L h' (collectors ! i) (map (\<lambda>cs. cs ! i) css)" by auto
  have "list_all2 (\<lambda>(w, vs) cs. are_copies L (worker_heap w) vs h' cs) (zip workers vss) css"
    by (rule list_all2_mono [OF b(4)]) (auto dest: apart_copies_are)
  moreover have "unchanged L (set collectors) {} h h'" by (rule unchanged_trans [OF a(4) b(3)]) (simp add: a(3))
  ultimately show ?thesis using a(1) b(1,5) by auto
qed

text \<open>Registering a new table keeps what \<open>collect_run\<close> assumes of the collectors.\<close>

lemma register_collector_tables:
  assumes laws: "lua_laws ok L" and ok: "ok h" and t: "collector_tables L h registry ks"
    and r: "LTable r \<in> l_live L h" "r \<notin> set ks" "r \<noteq> registry"
  shows "collector_tables L (snd (register_collector L registry r (ks, h))) registry (fst (register_collector L registry r (ks, h)))"
proof -
  let ?h = "l_rawset L registry (LLightuserdata r) (LTable r) h"
  have tl: "table_laws ok L" using laws by (simp add: lua_laws_def)
  have "LTable registry \<in> l_live L h" using t by (simp add: collector_tables_def)
  with tl ok r(1) have "l_live L ?h = l_live L h \<and> (\<forall>j. l_rawget L ?h registry j = (if j = LLightuserdata r then LTable r else l_rawget L h registry j))"
    unfolding table_laws_def by simp
  with t r show ?thesis by (auto simp: collector_tables_def register_collector_def)
qed

text \<open>
  C35: Every worker must know every collector. If none of the hooks that a worker's slave has loaded refers to a
  collector of the script (so in particular if it has loaded no hook), then, whatever the hooks did in the slave's
  interpreter, the value that is pushed for the collector is nil, which fails an assertion when it is serialised; and
  with such a worker, collecting the values never gets past it.
\<close>

theorem collectors_need_hooks:
  assumes "load_hooks L slave_registry sfs (h2, upvalue_cache_new) = Inr (keys, h2', c)"
    and "\<And>sf. sf \<in> set sfs \<Longrightarrow> k \<notin> set (collector_ids (SFunction sf))"
    and "k \<in> set collectors" "(slave_registry, slave_heap, c) \<in> set workers"
  shows "get_collected_value L (Suc d) slave_registry k (slave_heap, c) = Inl Assertion
    \<and> pull_workers L d' registry collectors workers h \<noteq> Inr h'"
proof -
  have "k \<notin> collecting (h2', c)"
    using load_hooks_learn [OF assms(1)] assms(2) by (auto simp: upvalue_cache_new_def simp del: collector_ids.simps)
  then have "map_of (collector_map c) k = None" by (simp add: map_of_eq_None_iff)
  then have nil: "push_collected_value L slave_registry k (slave_heap, c) = Inr LNil"
    by (simp add: push_collected_value_def)
  have fails: "get_collected_value L n slave_registry k (slave_heap, c) \<noteq> Inr sv" for n sv
    by (cases n) (simp_all add: get_collected_value_def nil serialize_value_def)
  have "pull_values L d' slave_registry (slave_heap, c) registry idx ks st \<noteq> Inr st'" if "k \<in> set ks" for idx ks st st'
    using that fails by (induction ks arbitrary: st) (auto simp: rbind_eq_Inr)
  then have "pull_data L d' slave_registry (slave_heap, c) registry collectors v \<noteq> Inr v'" for v v'
    using assms(3) by (auto simp: pull_data_def rbind_eq_Inr split: prod.splits)
  then have "pull_workers L d' registry collectors workers h \<noteq> Inr h'"
    using assms(4) by (induction workers arbitrary: h) (auto simp: rbind_eq_Inr)
  then show ?thesis by (simp add: get_collected_value_def nil serialize_value_def)
qed

text \<open>A worker whose one hook refers to collector 8 only.\<close>

lemma collectors_need_hooks_witness:
  "\<exists>keys h c. load_hooks heap_lua 0 [Sfunction 3 [0, 1] [Supvalue 5 1 (SBoolean True) (Some 8)]] (empty_heap, upvalue_cache_new) = Inr (keys, h, c)
    \<and> collecting (h, c) = {8} \<and> get_collected_value heap_lua 1 0 6 (h, c) = Inl Assertion"
proof -
  have "\<exists>keys h c. load_hooks heap_lua 0 [Sfunction 3 [0, 1] [Supvalue 5 1 (SBoolean True) (Some 8)]] (empty_heap, upvalue_cache_new) = Inr (keys, h, c)
      \<and> collecting (h, c) = {8}"
    by (simp add: deserialize_function_def push_function_def load_function_bytecode_def heap_loadbuffer_def empty_heap_def
        new_object_def cache_object_def map_object_def upvalue_cache_new_def lookup_upvalue_def heap_setupvalue_def
        collect_upvalue_def map_collector_def map_upvalue_def heap_rawset_def Let_def)
  then obtain keys h c where l: "load_hooks heap_lua 0 [Sfunction 3 [0, 1] [Supvalue 5 1 (SBoolean True) (Some 8)]] (empty_heap, upvalue_cache_new) = Inr (keys, h, c)"
      "collecting (h, c) = {8}" by blast
  from collectors_need_hooks [OF l(1), of 6 "[8, 6]" h "[(0, h, c)]" 0] l show ?thesis by (auto simp: named_def)
qed

section \<open>Two workers\<close>

text \<open>
  Two workers' interpreters that found collector 6 in a table 1 under the key c, one with a table and one
  with a string, and the engine's that holds it.
\<close>

definition worker_with :: "lval \<Rightarrow> heap" where
  "worker_with v = \<lparr>
     hp_tables = [0 \<mapsto> [(LLightuserdata 1, LTable 1)], 1 \<mapsto> [(LString ''c'', v)], 2 \<mapsto> [(LNumber (Fin 1), LBoolean True)]],
     hp_functions = Map.empty, hp_cells = (\<lambda>_. LNil), hp_collectors = {}, hp_fresh = 3\<rparr>"

definition worker_cache :: upvalue_cache where
  "worker_cache = \<lparr>upvalue_map = [], object_map = [(1, 1)], collector_map = [(6, 1, SString ''c'')], object_tbl_idx = 0\<rparr>"

definition engine_heap :: heap where
  "engine_heap = \<lparr>hp_tables = [0 \<mapsto> [(LLightuserdata 6, LTable 6)], 6 \<mapsto> [(LNumber (Fin 1), LBoolean False)]],
     hp_functions = Map.empty, hp_cells = (\<lambda>_. LNil), hp_collectors = {6}, hp_fresh = 7\<rparr>"

lemma worker_ok: "v = LTable 2 \<or> v = LString s \<Longrightarrow> heap_ok (worker_with v)"
  by (auto simp: heap_ok_def worker_with_def split: if_splits)

lemma worker_source:
  assumes v: "v = LTable 2 \<or> v = LString ''b''"
  shows "source_ok heap_ok heap_lua (worker_with v) v"
proof -
  have "portable heap_lua (worker_with v) x" if r: "reaches heap_lua (worker_with v) v x" for x
  proof -
    have "x \<in> {LTable 2, LNumber (Fin 1), LBoolean True, LString ''b''}"
      by (rule reaches_within [OF r]) (use v in \<open>auto simp: worker_with_def unwrap_collector_maybe_def\<close>)
    then show ?thesis by (auto simp: worker_with_def unwrap_collector_maybe_def)
  qed
  moreover have "exists_in heap_lua (worker_with v) v" using v by (auto simp: worker_with_def)
  ultimately show ?thesis using worker_ok v by (auto simp: source_ok_def)
qed

lemma worker_collected:
  assumes v: "v = LTable 2 \<or> v = LString ''b''"
  shows "collected heap_ok heap_lua 3 0 (worker_with v, worker_cache) 6 v"
proof -
  have "\<exists>sv. serialize_value heap_lua (worker_with v) 3 v = Inr sv"
    using v by (elim disjE) (simp_all add: serialize_value_def eval_nat_numeral serialize_table_def dump_table_entries_def
        worker_with_def unwrap_collector_maybe_def)
  moreover have "push_collected_value heap_lua 0 6 (worker_with v, worker_cache) = Inr v"
    using v by (auto simp: push_collected_value_def worker_cache_def worker_with_def fetch_object_def heap_rawget_def)
  ultimately show ?thesis using worker_source [OF v] by (simp add: collected_def)
qed

lemma collect_run_witness:
  "\<exists>h' r. rbind (empty_collectors heap_lua 0 [6] engine_heap)
      (pull_workers heap_lua 3 0 [6] [(0, worker_with (LTable 2), worker_cache), (0, worker_with (LString ''b''), worker_cache)]) = Inr h'
    \<and> sequence heap_lua h' 6 [LTable r, LString ''b''] \<and> are_copies heap_lua (worker_with (LTable 2)) [LTable 2] h' [LTable r]"
proof -
  let ?ws = "[(0, worker_with (LTable 2), worker_cache), (0, worker_with (LString ''b''), worker_cache)]"
  have ok: "heap_ok engine_heap" by (auto simp: heap_ok_def engine_heap_def split: if_splits)
  have tables: "collector_tables heap_lua engine_heap 0 [6]" by (simp add: collector_tables_def engine_heap_def heap_rawget_def)
  have "sequence heap_lua engine_heap 6 [LBoolean False]" by (auto simp: sequence_def engine_heap_def heap_rawget_def)
  then have one: "\<exists>v. v \<noteq> LNil \<and> sequence heap_lua engine_heap k [v]" if "k \<in> set [6]" for k using that by auto
  have has: "list_all2 (worker_has heap_ok heap_lua 3 [6]) ?ws [[LTable 2], [LString ''b'']]"
    using worker_collected worker_ok by (simp add: worker_has_def)
  have "\<exists>h' css. rbind (empty_collectors heap_lua 0 [6] engine_heap) (pull_workers heap_lua 3 0 [6] ?ws) = Inr h'
    \<and> list_all2 (\<lambda>(w, vs) cs. are_copies heap_lua (worker_heap w) vs h' cs) (zip ?ws [[LTable 2], [LString ''b'']]) css
    \<and> (\<forall>i<length [6 :: ptr]. sequence heap_lua h' ([6] ! i) (map (\<lambda>cs. cs ! i) css)) \<and> unchanged heap_lua (set [6]) {} engine_heap h'"
    by (rule collect_run [OF heap_laws heap_length ok tables one has])
  then obtain h' css where h': "rbind (empty_collectors heap_lua 0 [6] engine_heap) (pull_workers heap_lua 3 0 [6] ?ws) = Inr h'"
    "list_all2 (\<lambda>(w, vs) cs. are_copies heap_lua (worker_heap w) vs h' cs) (zip ?ws [[LTable 2], [LString ''b'']]) css"
    "\<forall>i<length [6 :: ptr]. sequence heap_lua h' ([6] ! i) (map (\<lambda>cs. cs ! i) css)" by (elim exE conjE)
  then obtain c1 c2 where css: "css = [c1, c2]" "are_copies heap_lua (worker_with (LTable 2)) [LTable 2] h' c1"
    "are_copies heap_lua (worker_with (LString ''b'')) [LString ''b''] h' c2" by (auto simp: list_all2_Cons1)
  from css(3) have "c2 = [LString ''b'']" by (auto simp: are_copies_def copies_by_def list_all2_Cons1)
  moreover from css(2) obtain r where "c1 = [LTable r]" by (auto simp: are_copies_def copies_by_def list_all2_Cons1)
  ultimately show ?thesis using h'(1,3) css(1,2) by auto
qed

end
