(* ===== verification/Spec2Isabelle.thy ===== *)
theory Spec2Isabelle
  imports Numlist Percentiles Hexdump Sample ControlPlane Cpuinfo Logging Programs Hooks Collect
begin

text \<open>
  \<^bold>\<open>A model of rushit.\<close> rushit measures network performance: a client and a server run one of the
  tests \<open>tcp_rr\<close> (requests and responses), \<open>tcp_stream\<close> or \<open>udp_stream\<close> (bulk transfer), each with
  worker threads that drive many flows through epoll and take samples, while the main threads talk over
  a control connection and report at the end. Lua hooks may replace the socket calls.

  \<^bold>\<open>How the program is modelled.\<close> A function of the C program is a definition of the same name. State the
  code passes around is a record with the fields of the C structure (\<open>State\<close>), and everything outside
  the program is the \<open>world\<close> (theory \<open>World\<close>): a system or library call is \<open>sys c w\<close>, which takes the next
  kernel of \<open>w_inputs\<close> (a function of the calls so far, so that a kernel may be any process) and appends the call
  and its answer to \<open>w_trace\<close>. An outcome is \<open>Ret\<close> (returned), \<open>Exit\<close> (the program ended, \<open>LOG_FATAL\<close>),
  \<open>Wait\<close> (no further answer came) or \<open>Fault\<close> (undefined behaviour or a failed assertion), and \<open>obind\<close>
  sequences. \<open>wp m Q\<close> says that \<open>m\<close> is no fault and that \<open>Q\<close> holds if it returns. Loops around calls are
  recursive functions that terminate because every round uses up an answer; \<open>Wait\<close> is what an
  unfinished loop looks like, and theorems about returning (\<open>handshake_completes\<close>) give the answers needed.
  Integers are \<open>int\<close> with the wrap-around where C wraps (\<open>u32\<close>, \<open>u64\<close> words; \<open>atoi\<close>), \<open>double\<close> is an exact real
  or a special value (\<open>Prelude\<close>), pointers to flows are keys of the thread's map \<open>t_flows\<close>.

  \<^bold>\<open>The theories.\<close>
  \<^item> \<open>Prelude\<close>, \<open>World\<close>, \<open>State\<close>: doubles, times, calls, outcomes and their rules, \<open>quiet\<close> runs (that only make calls and
    log), contracts of kernels (\<open>posix_ok\<close>); \<open>lib.h\<close>, \<open>flow.h\<close>, \<open>sample.h\<close>, \<open>thread.h\<close>.
  \<^item> \<open>Numlist\<close> (\<open>numlist.c\<close>), \<open>Percentiles\<close> (\<open>percentiles.c\<close>), \<open>Hexdump\<close> (\<open>hexdump.c\<close>), \<open>Sample\<close> (\<open>sample.c\<close>): blocks of
    measurements and their statistics, lists of percentiles, the dump of bytes, the samples and the CSV file.
  \<^item> \<open>Script\<close> (\<open>script.c\<close>): hooks, engine, slaves and the callbacks of scripts, over an interpreter that is part of the
    world: checking an argument, serialising and loading a function, emptying a collector and pulling its value are calls
    whose answers are arbitrary. \<open>Serialize\<close>, \<open>Hooks\<close> and \<open>Collect\<close> have the code behind those calls.
  \<^item> \<open>Common\<close> (\<open>common.c\<close>, \<open>common.h\<close>), \<open>Flow\<close> (\<open>flow.c\<close>, \<open>interval.c\<close>), \<open>Workload\<close> (\<open>workload.c\<close>): wrappers, measurement
    intervals, the main loops of clients and servers. Locales \<open>socket_provider\<close> and \<open>event_handler\<close> state what
    the loops need of a test's sockets and event handler; \<open>run_client_wp\<close> and \<open>run_server_wp\<close> are proved once in them.
  \<^item> \<open>TcpRR\<close> (\<open>tcp_rr.c\<close>), \<open>Streams\<close>, \<open>TcpStream\<close> (\<open>tcp_stream.c\<close>), \<open>UdpStream\<close> (\<open>udp_stream.c\<close>): the event handlers, which
    interpret these locales; their theorems say that a worker never faults and what its samples count.
  \<^item> \<open>Stats\<close> (\<open>workload.c\<close>), \<open>RRReport\<close> (\<open>tcp_rr.c\<close>): the reports, compared with reference definitions over the samples.
  \<^item> \<open>ControlPlane\<close> (\<open>control_plane.c\<close>): the control connection; refinement to an abstract state machine.
  \<^item> \<open>Flags\<close> (\<open>flags.c\<close>), \<open>Mains\<close> (\<open>*_main.c\<close>, \<open>version.c\<close>): the command line, the flag tables and the checks of options.
  \<^item> \<open>Cpuinfo\<close> (\<open>cpuinfo.c\<close>), \<open>Thread\<close> (\<open>thread.c\<close>), \<open>Logging\<close> (\<open>logging.c\<close>): the main thread and what it uses.
  \<^item> \<open>Serialize\<close> (\<open>serialize.c\<close>, pulling data in \<open>script.c\<close>): values of Lua on their way between interpreters. What the code
    relies on in an interpreter are the laws of \<open>LuaLaws\<close>, which also has the invariant of deserialising; \<open>LuaCopy\<close>
    proves the round trip, \<open>LuaHeap\<close> is an interpreter that keeps the laws, on which \<open>RoundTrip\<close> runs examples; \<open>Hooks\<close> loads the functions of hooks into a slave (and says which
    collectors the slave then knows), \<open>Collect\<close> follows a run's collected values from all workers back into the script, and
    shows that a worker whose hooks do not refer to a collector ends the run in a failed assertion.
  \<^item> \<open>Programs\<close>: the tests as a whole. What the checks establish of the options is what the workers' theorems
    assume (an infinite \<open>--interval\<close> included), and what those say of the samples is what the reports assume. The faults
    that are left are those on answers of the interpreter, listed by \<open>lua_misbehaves\<close>: a prelude that does not load (the
    engine logs that through a NULL pointer), error codes \<open>errno_lua\<close> does not expect, values that cannot be serialised,
    and collectors that do not have their one element.

  \<^bold>\<open>Parameters.\<close> \<open>getopt_long\<close> is a function from the tables of flags to results; what a script asks of the engine
  is a list of its callbacks; the operations of an interpreter are a record \<open>lua\<close> (\<open>Serialize\<close>), with the documented
  behaviour of Lua 5.1 as \<open>lua_laws\<close>; the depth of the C stack is a number; \<open>isgraph\<close> outside its domain is a predicate \<open>wide\<close> of which nothing is assumed; what the joined workers have done is
  \<open>workers_run\<close>. The contract \<open>posix_ok\<close> is documented behaviour: transfers return at most what was asked for, \<open>epoll_wait\<close>
  reports only what was registered, clocks give normalised times.

  \<^bold>\<open>Not modelled.\<close> Interleaving of threads: a worker runs alone on its world, which is right for all it does but
  the start of the measurement, which threads share under a mutex. Rounding of doubles: reports and interval boundaries are
  those of exact arithmetic, which the code meets up to its rounding. Overflow of the signed counters of a flow (its identifier,
  bytes and transactions), which are integers without bound here, and closing a descriptor twice: neither is a \<open>Fault\<close>. Failing
  allocations and freeing. The texts of log messages, usage and time stamps; \<open>LOG_FATAL\<close> ends the program here, and
  \<open>log_fatal_ends\<close> says when the code of \<open>logging.c\<close> agrees. The handler of the timeout, \<open>byte_array_new\<close>, the pointer
  arguments of hooks (\<open>push_cpointer\<close>) and the dummy test. What a hook does to the values that were deserialised for
  it: the state of a worker's interpreter when data is pulled from it is arbitrary. What a
  script does to its tables between registering two hooks: \<open>Hooks\<close> serialises all of them in one state.
\<close>

section \<open>Properties of the whole\<close>

text \<open>
  C6: A test that ends normally has started and ended its threads in order: one barrier for all the
  workers and the main thread, one event descriptor for each worker, the workers created from 0 up, each
  told to stop through its descriptor, each joined after all were told, and the barrier destroyed last.
  There is no other call that manages threads, whatever the script did.
\<close>

theorem thread_lifecycle:
  assumes "tcp_rr workers_run calls opts w = Ret r w' \<or> tcp_stream workers_run calls opts w = Ret r w'
      \<or> udp_stream workers_run calls opts w = Ret r w'" "\<not> dry_run opts"
  shows "\<exists>efds. length efds = nat (num_threads opts) \<and> thread_calls (w_trace w') = thread_calls (w_trace w)
    @ CBarrierInit (num_threads opts + 1) # replicate (nat (num_threads opts)) CEventfd
    @ map CPthreadCreate [0..<nat (num_threads opts)] @ map CEventfdWrite efds
    @ map CPthreadJoin [0..<nat (num_threads opts)] @ [CBarrierDestroy]"
  using assms(1) unfolding tcp_rr_def tcp_stream_def udp_stream_def
  by (elim disjE) (rule main_thread_calls [OF _ assms(2)], assumption, erule report_stats_calls report_stream_stats_calls)+

text \<open>
  C4: The client of a request/response test is free of undefined behaviour and failed assertions from the
  command line's options to the report, but for what the Lua interpreter may answer: whatever options the setup accepted,
  with or without a script and with any interval, no worker faults on a kernel that keeps its contract, and for any
  outcome of such workers, and whatever a script does, the main thread faults only on an answer of \<open>lua_misbehaves\<close>, the last one it
  got. Without a script there is one such answer: the prelude does not load (the code then logs through a NULL pointer). So the
  options the checks let through, the samples the workers leave and what the report assumes of both fit together.
\<close>

theorem rr_client_safe:
  assumes "tcp_rr_setup wide getopt_long v = Ret opts w" "client opts" "workers_of (thread_start opts) workers_run"
  shows "(\<forall>t u. fresh_thread False t u \<longrightarrow> wp (thread_start opts t u) (\<lambda>_ _. True))
    \<and> (\<forall>w'. tcp_rr workers_run calls opts w = Fault w' \<longrightarrow> w_trace w' \<noteq> [] \<and> lua_misbehaves opts (last (w_trace w')))"
proof -
  from tcp_rr_setup_Ret [OF assms(1)] have "rr_valid opts" "worker_opts (interval_secs opts) opts" by auto
  then have worker: "wp (thread_start opts t v) (\<lambda>t' _. \<forall>smp\<in>set (t_samples t'). s_tid smp = t_index t
      \<and> rr_sample (response_size opts) False smp)" if "fresh_thread False t v" for t v
    using assms(2) by (intro wp_mono [OF thread_start_wp [OF _ _ that]]) auto
  have "no_fault (report_stats opts ts v)" if "indexed (rr_sample (response_size opts) False) ts" for ts v
    unfolding no_fault_def
    by (rule wp_mono [OF report_stats_wp]) (use that in \<open>auto simp: indexed_def rr_sample_def\<close>)
  then have "blames_lua opts (tcp_rr workers_run calls opts w)"
    unfolding tcp_rr_def using client_blames [OF assms(2,3) worker] by blast
  moreover have "wp (thread_start opts t u) (\<lambda>_ _. True)" if "fresh_thread False t u" for t u
    by (rule wp_mono [OF worker [OF that]]) simp
  ultimately show ?thesis by (simp add: blames_lua_def)
qed

text \<open>
  C5: The same for the clients of the stream tests.
\<close>

theorem stream_client_safe:
  assumes "tcp_stream_setup wide getopt_long v = Ret opts w \<and> worker = TcpStream.worker_thread opts \<and> test = tcp_stream
      \<or> udp_stream_setup wide getopt_long v = Ret opts w \<and> worker = UdpStream.worker_thread opts \<and> test = udp_stream"
    and "client opts" "workers_of worker workers_run"
  shows "(\<forall>t u. fresh_thread False t u \<longrightarrow> wp (worker t u) (\<lambda>_ _. True))
    \<and> (\<forall>w'. test workers_run calls opts w = Fault w' \<longrightarrow> w_trace w' \<noteq> [] \<and> lua_misbehaves opts (last (w_trace w')))"
proof -
  from assms(1) stream_setup_Ret [of wide getopt_long v opts w]
  have valid: "stream_valid opts" "worker_opts (interval_secs opts) opts" "0 < num_threads opts" by (auto simp: checked_def)
  have worker: "wp (worker t v) (\<lambda>t' _. \<forall>smp\<in>set (t_samples t'). s_tid smp = t_index t
      \<and> (\<exists>n. stream_sample n opts False smp))" if "fresh_thread False t v" for t v
    using assms(1) by (auto intro: wp_mono [OF tcp_worker_wp [OF valid(1,2) that]] wp_mono [OF udp_worker_wp [OF valid(1,2) that]])
  have "no_fault (report_stream_stats opts ts v)"
    if "length ts = nat (num_threads opts)" "indexed (\<lambda>smp. \<exists>n. stream_sample n opts False smp) ts" for ts v
    unfolding no_fault_def
    by (rule wp_mono [OF report_stream_stats_wp])
      (use that valid(3) in \<open>auto simp: indexed_def stream_sample_def worker_samples_def\<close>)
  then have "blames_lua opts (run_main_thread workers_run calls report_stream_stats opts w)"
    using client_blames [OF assms(2,3) worker] by blast
  then have "blames_lua opts (test workers_run calls opts w)"
    using assms(1) by (auto simp: tcp_stream_def udp_stream_def)
  moreover have "wp (worker t u) (\<lambda>_ _. True)" if "fresh_thread False t u" for t u
    by (rule wp_mono [OF worker [OF that]]) simp
  ultimately show ?thesis by (simp add: blames_lua_def)
qed

section \<open>Witnesses\<close>

theorem thread_lifecycle_witness:
  "\<exists>w' efds. tcp_rr idle_run [] idle_opts (world0 (replicate 40 agreeable)) = Ret 0 w'
     \<and> thread_calls (w_trace w') = CBarrierInit 3 # CEventfd # CEventfd # CPthreadCreate 0 # CPthreadCreate 1
         # map CEventfdWrite efds @ [CPthreadJoin 0, CPthreadJoin 1, CBarrierDestroy]"
proof -
  have "agreeing (world0 (replicate 40 agreeable))" by (simp add: agreeing_def)
  then obtain w' where r: "tcp_rr idle_run [] idle_opts (world0 (replicate 40 agreeable)) = Ret 0 w'"
    using idle_run_ends [of "world0 (replicate 40 agreeable)"] by (auto simp: twp_def)
  from thread_lifecycle [OF disjI1 [OF r]] r show ?thesis by (auto simp: numeral_2_eq_2 thread_calls_def)
qed

text \<open>A kernel on which the prelude does not load, so that the one fault there is happens.\<close>

definition prelude_fails :: kernel where
  "prelude_fails tr c = resp0\<lparr>r_ret := (if c = CLuaRun ''require script_prelude'' then 2 else 0)\<rparr>"

theorem rr_client_safe_witness:
  "\<exists>opts w w'. tcp_rr_setup (\<lambda>_. False) only_client (world0 (limit_answers @ [prelude_fails])) = Ret opts w
     \<and> tcp_rr idle_run [] opts w = Fault w' \<and> lua_misbehaves opts (last (w_trace w'))"
proof -
  let ?fp = "(parser_of tcp_rr_flags)\<lparr>fp_store := (fp_store (parser_of tcp_rr_flags))(Field ''client'' := VBool True)\<rparr>"
  let ?w = "world0 (limit_answers @ [prelude_fails])"
  have "typed ?fp" using flags_parser_run_Ret(2) [OF run_only_client tables_typed(1)] by blast
  then obtain w1 where d: "flags_parser_dump get_version ?fp ?w = Ret () w1" "w_inputs w1 = limit_answers @ [prelude_fails]"
    using dump_typed [of ?fp get_version ?w] by (auto simp: world0_def)
  from d(2) obtain w2 where p: "procfile_int ''/proc/sys/net/core/somaxconn'' w1 = Ret 4096 w2" "w_inputs w2 = [prelude_fails]"
    by (auto simp: procfile_int_def limit_answers_def sys_def resp0_def u32_of_bytes_def Let_def)
  let ?opts = "(options_of (fp_store ?fp))\<lparr>enable_write := True, enable_read := True, reuseport := True\<rparr>"
  have r: "tcp_rr_setup (\<lambda>_. False) only_client ?w = Ret ?opts w2"
    by (simp add: tcp_rr_setup_def run_only_client d(1) tcp_rr_check_options_def check_defs tcp_rr_defaults p)
  have "client ?opts" "\<not> dry_run ?opts"
    by (simp_all add: options_of_def Let_def tcp_rr_defaults tcp_rr_flags_def table_defs)
  moreover from this obtain w' where f: "tcp_rr idle_run [] ?opts w2 = Fault w'"
    using p(2) by (auto simp: tcp_rr_def run_main_thread_def Let_def script_engine_create_def load_prelude_def sys_def prelude_fails_def resp0_def)
  moreover have "workers_of (thread_start ?opts) idle_run"
    by (simp add: workers_of_def idle_run_def ran_on_posix_def list_all2_same)
  ultimately show ?thesis using rr_client_safe [OF r, of idle_run "[]"] r by blast
qed

theorem stream_client_safe_witness:
  "\<exists>opts w w'. udp_stream_setup (\<lambda>_. False) only_client (world0 [prelude_fails]) = Ret opts w
     \<and> udp_stream idle_run [] opts w = Fault w' \<and> lua_misbehaves opts (last (w_trace w'))"
proof -
  let ?fp = "(parser_of udp_stream_flags)\<lparr>fp_store := (fp_store (parser_of udp_stream_flags))(Field ''client'' := VBool True)\<rparr>"
  let ?w = "world0 [prelude_fails]"
  have "typed (fix_mode ?fp)"
    using flags_parser_run_Ret(2) [OF run_only_client tables_typed(3)] udp_stream_no_modes
    by (intro typed_fix_mode) simp_all
  then obtain w1 where d: "flags_parser_dump get_version (fix_mode ?fp) ?w = Ret () w1" "w_inputs w1 = [prelude_fails]"
    using dump_typed [of "fix_mode ?fp" get_version ?w] by (auto simp: world0_def)
  let ?opts = "options_of (fp_store (fix_mode ?fp))"
  have r: "udp_stream_setup (\<lambda>_. False) only_client ?w = Ret ?opts w1"
    by (simp add: udp_stream_setup_def run_only_client d(1) udp_stream_check_options_def check_defs udp_stream_defaults)
  have c: "client ?opts" "\<not> dry_run ?opts"
    by (simp_all add: options_of_def Let_def fix_mode_store udp_stream_defaults) (simp_all add: udp_stream_flags_def table_defs)
  obtain w' where f: "udp_stream idle_run [] ?opts w1 = Fault w'"
    using c d(2) by (auto simp: udp_stream_def run_main_thread_def Let_def script_engine_create_def load_prelude_def sys_def prelude_fails_def resp0_def)
  have "workers_of (UdpStream.worker_thread ?opts) idle_run"
    by (simp add: workers_of_def idle_run_def ran_on_posix_def list_all2_same)
  from stream_client_safe [OF disjI2 [OF conjI [OF r conjI [OF refl refl]]] c(1) this, of "[]"] r f show ?thesis by blast
qed

end
